(* ===== verification/Cdcm_Prelude.thy ===== *)
theory Cdcm_Prelude
  imports Main
begin

text \<open>
  Shared vocabulary of the development: the outcome of a C++ call (a value, an exception that
  leaves the function, a failed \<open>assert\<close>, or undefined behaviour), C strings, decimal
  printing of unsigned numbers, containers with a unique key kept as lists, and the interface
  locale of such containers, which the worker container, the sessions cache and the postponed
  queue interpret.
\<close>

named_theorems wire_simps \<open>rewriting of message frames\<close>
named_theorems resp_simps \<open>rewriting of responses\<close>

section \<open>Outcomes\<close>

text \<open>
  \<open>Throw\<close> is an exception that propagates to the caller, \<open>Abort\<close> a failed
  \<open>assert\<close> (the build sets no \<open>NDEBUG\<close>), \<open>UB\<close> a read or dereference the
  language leaves undefined.
\<close>

datatype 'a outcome = Ok 'a | Throw | Abort | UB

primrec bind_o :: "'a outcome \<Rightarrow> ('a \<Rightarrow> 'b outcome) \<Rightarrow> 'b outcome" where
  "bind_o (Ok a) f = f a"
| "bind_o Throw f = Throw"
| "bind_o Abort f = Abort"
| "bind_o UB f = UB"

primrec is_ok :: "'a outcome \<Rightarrow> bool" where
  "is_ok (Ok a) = True"
| "is_ok Throw = False"
| "is_ok Abort = False"
| "is_ok UB = False"

lemma bind_o_Ok_iff: "bind_o x f = Ok b \<longleftrightarrow> (\<exists>a. x = Ok a \<and> f a = Ok b)"
  by (cases x) auto

lemma is_ok_iff: "is_ok x \<longleftrightarrow> (\<exists>a. x = Ok a)"
  by (cases x) auto

lemma bind_o_cong [fundef_cong]: "x = y \<Longrightarrow> (\<And>a. y = Ok a \<Longrightarrow> f a = g a) \<Longrightarrow> bind_o x f = bind_o y g"
  by (cases y) auto

lemma bind_o_assoc: "bind_o (bind_o x f) g = bind_o x (\<lambda>a. bind_o (f a) g)"
  by (cases x) auto

text \<open>A call that returns or throws: what a caller with a catch-all handler survives.\<close>

definition soft :: "'a outcome \<Rightarrow> bool" where
  "soft x \<longleftrightarrow> x \<noteq> Abort \<and> x \<noteq> UB"

lemma soft_simps [simp]: "soft (Ok a)" "soft Throw" "\<not> soft Abort" "\<not> soft UB"
  by (simp_all add: soft_def)

lemma soft_bind [intro]: "soft x \<Longrightarrow> (\<And>a. x = Ok a \<Longrightarrow> soft (f a)) \<Longrightarrow> soft (bind_o x f)"
  by (cases x) simp_all

section \<open>C strings\<close>

text \<open>
  The bytes up to the first NUL: what a \<open>const char*\<close> built by \<open>c_str()\<close> denotes when
  it is read back as a string.
\<close>

definition c_str :: "string \<Rightarrow> string" where
  "c_str s = takeWhile (\<lambda>c. c \<noteq> CHR 0x00) s"

definition nul_free :: "string \<Rightarrow> bool" where
  "nul_free s \<longleftrightarrow> CHR 0x00 \<notin> set s"

lemma c_str_nul_free [simp]: "nul_free s \<Longrightarrow> c_str s = s"
  by (induction s) (auto simp: c_str_def nul_free_def)

lemma nul_free_c_str [simp]: "nul_free (c_str s)"
  by (induction s) (auto simp: c_str_def nul_free_def)

lemma c_str_idem: "c_str (c_str s) = c_str s"
  by simp

lemma c_str_Nil [simp]: "c_str [] = []"
  by (simp add: c_str_def)

lemma c_str_Cons: "c_str (c # s) = (if c = CHR 0x00 then [] else c # c_str s)"
  by (simp add: c_str_def)

lemma nul_free_Nil [simp]: "nul_free []"
  by (simp add: nul_free_def)

lemma nul_free_Cons [simp]: "nul_free (c # s) \<longleftrightarrow> c \<noteq> CHR 0x00 \<and> nul_free s"
  by (auto simp: nul_free_def)

lemma nul_free_append [simp]: "nul_free (s @ t) \<longleftrightarrow> nul_free s \<and> nul_free t"
  by (auto simp: nul_free_def)

section \<open>Decimal and hexadecimal printing\<close>

text \<open>\<open>std::isspace\<close> in the C locale.\<close>

definition isspace :: "char \<Rightarrow> bool" where
  "isspace c \<longleftrightarrow> c = CHR '' '' \<or> c \<in> {CHR 0x09, CHR 0x0A, CHR 0x0B, CHR 0x0C, CHR 0x0D}"

text \<open>\<open>std::to_string\<close> of an unsigned value, and the digits \<open>std::hex\<close> prints.\<close>

definition digit_char :: "nat \<Rightarrow> char" where
  "digit_char d = (if d < 10 then char_of (48 + d) else char_of (87 + d))"

fun show_base :: "nat \<Rightarrow> nat \<Rightarrow> string" where
  "show_base b n = (if b < 2 \<or> n < b then [digit_char n] else show_base b (n div b) @ [digit_char (n mod b)])"

declare show_base.simps [simp del]

definition to_string_nat :: "nat \<Rightarrow> string" where
  "to_string_nat n = show_base 10 n"

definition to_hex_nat :: "nat \<Rightarrow> string" where
  "to_hex_nat n = show_base 16 n"

lemma of_char_digit: "d < 16 \<Longrightarrow> (of_char (digit_char d) :: nat) = (if d < 10 then 48 + d else 87 + d)"
  by (simp add: digit_char_def)

lemma digit_char_inj: "d < 16 \<Longrightarrow> e < 16 \<Longrightarrow> digit_char d = digit_char e \<longleftrightarrow> d = e"
proof
  assume "d < 16" "e < 16" "digit_char d = digit_char e"
  then have "(if d < 10 then 48 + d else 87 + d) = (if e < 10 then 48 + e else 87 + (e::nat))"
    using of_char_digit by metis
  then show "d = e" using \<open>d < 16\<close> \<open>e < 16\<close> by (simp split: if_splits)
qed simp

lemma show_base_nonempty [simp]: "show_base b n \<noteq> []"
  by (subst show_base.simps) simp

lemma Nil_neq_show_base [simp]: "[] \<noteq> show_base b n"
  using show_base_nonempty [of b n] by metis

lemma show_base_inj:
  assumes "2 \<le> b" "b \<le> 16" "show_base b m = show_base b n"
  shows "m = n"
  using assms
proof (induction b m arbitrary: n rule: show_base.induct)
  case (1 b m)
  from "1.prems"(1,2) have small: "m mod b < 16" "n mod b < 16"
    by (auto intro: order_less_le_trans [OF mod_less_divisor])
  show ?case
  proof (cases "m < b \<or> n < b")
    case True
    then show ?thesis
      using "1.prems" digit_char_inj [of m n]
      by (auto simp: show_base.simps [of b m] show_base.simps [of b n] split: if_splits)
  next
    case False
    then have "show_base b (m div b) = show_base b (n div b)" "m mod b = n mod b"
      using "1.prems" digit_char_inj [OF small]
      by (auto simp: show_base.simps [of b m] show_base.simps [of b n])
    with False "1.IH" "1.prems" have "m div b = n div b" by auto
    with \<open>m mod b = n mod b\<close> show ?thesis by (metis div_mult_mod_eq)
  qed
qed

lemma to_string_nat_inj: "to_string_nat m = to_string_nat n \<longleftrightarrow> m = n"
  using show_base_inj [of 10 m n] by (auto simp: to_string_nat_def)

lemma to_hex_nat_inj: "to_hex_nat m = to_hex_nat n \<longleftrightarrow> m = n"
  using show_base_inj [of 16 m n] by (auto simp: to_hex_nat_def)

section \<open>Containers with a unique key, kept as lists\<close>

text \<open>
  A \<open>boost::multi_index_container\<close> with a unique ordered index is kept as the list of its
  elements. What its documentation promises of the unique index is: \<open>find\<close> returns the
  element with that key or the end, \<open>insert\<close> fails on a key that is present, \<open>erase\<close>
  removes the element with the key, \<open>modify\<close> changes an element in place.
\<close>

definition lookup_by :: "('a \<Rightarrow> 'k) \<Rightarrow> 'k \<Rightarrow> 'a list \<Rightarrow> 'a option" where
  "lookup_by f k xs = find (\<lambda>x. f x = k) xs"

definition erase_by :: "('a \<Rightarrow> 'k) \<Rightarrow> 'k \<Rightarrow> 'a list \<Rightarrow> 'a list" where
  "erase_by f k xs = filter (\<lambda>x. f x \<noteq> k) xs"

definition modify_by :: "('a \<Rightarrow> 'k) \<Rightarrow> 'k \<Rightarrow> ('a \<Rightarrow> 'a) \<Rightarrow> 'a list \<Rightarrow> 'a list" where
  "modify_by f k g xs = map (\<lambda>x. if f x = k then g x else x) xs"

definition insert_by :: "('a \<Rightarrow> 'k) \<Rightarrow> 'a \<Rightarrow> 'a list \<Rightarrow> 'a list" where
  "insert_by f x xs = (if f x \<in> f ` set xs then xs else xs @ [x])"

definition unique_by :: "('a \<Rightarrow> 'k) \<Rightarrow> 'a list \<Rightarrow> bool" where
  "unique_by f xs \<longleftrightarrow> distinct (map f xs)"

lemma lookup_by_Some_key: "lookup_by f k xs = Some x \<Longrightarrow> f x = k \<and> x \<in> set xs"
  by (induction xs) (auto simp: lookup_by_def split: if_splits)

lemma lookup_by_None: "lookup_by f k xs = None \<longleftrightarrow> k \<notin> f ` set xs"
  by (induction xs) (auto simp: lookup_by_def)

lemma lookup_by_unique: "unique_by f xs \<Longrightarrow> x \<in> set xs \<Longrightarrow> lookup_by f (f x) xs = Some x"
  by (induction xs) (auto simp: lookup_by_def unique_by_def)

lemma unique_by_inj: "unique_by f xs \<Longrightarrow> x \<in> set xs \<Longrightarrow> y \<in> set xs \<Longrightarrow> f x = f y \<Longrightarrow> x = y"
  using lookup_by_unique by (metis option.inject)

lemma lookup_by_unique_iff:
  "unique_by f xs \<Longrightarrow> lookup_by f k xs = Some x \<longleftrightarrow> x \<in> set xs \<and> f x = k"
  using lookup_by_Some_key lookup_by_unique by metis

lemma lookup_erase_by: "lookup_by f k (erase_by f k' xs) = (if k = k' then None else lookup_by f k xs)"
  by (induction xs) (auto simp: lookup_by_def erase_by_def)

lemma lookup_modify_by:
  "(\<And>x. f (g x) = f x) \<Longrightarrow>
   lookup_by f k (modify_by f k' g xs) = (if k = k' then map_option g (lookup_by f k xs) else lookup_by f k xs)"
  by (induction xs) (auto simp: lookup_by_def modify_by_def)

lemma lookup_insert_by:
  "lookup_by f k (insert_by f x xs) =
   (if k = f x \<and> lookup_by f k xs = None then Some x else lookup_by f k xs)"
proof (cases "f x \<in> f ` set xs")
  case True
  then show ?thesis by (auto simp: insert_by_def lookup_by_None)
next
  case False
  have "lookup_by f k (xs @ [x]) = (case lookup_by f k xs of None \<Rightarrow> if f x = k then Some x else None | Some y \<Rightarrow> Some y)"
    by (induction xs) (auto simp: lookup_by_def)
  with False show ?thesis by (auto simp: insert_by_def split: option.splits)
qed

lemma unique_insert_by: "unique_by f xs \<Longrightarrow> unique_by f (insert_by f x xs)"
  by (auto simp: unique_by_def insert_by_def)

lemma unique_erase_by: "unique_by f xs \<Longrightarrow> unique_by f (erase_by g k xs)"
  by (simp add: unique_by_def erase_by_def distinct_map_filter)

lemma unique_modify_by: "(\<And>x. f (g x) = f x) \<Longrightarrow> unique_by f (modify_by h k g xs) = unique_by f xs"
  by (simp add: unique_by_def modify_by_def comp_def if_distrib cong: if_cong)

lemma keys_erase_by: "f ` set (erase_by f k xs) = f ` set xs - {k}"
  by (auto simp: erase_by_def)

lemma keys_insert_by: "f ` set (insert_by f x xs) = insert (f x) (f ` set xs)"
  by (auto simp: insert_by_def)

lemma keys_modify_by:
  assumes "\<And>x. f (g x) = f x"
  shows "f ` set (modify_by h k g xs) = f ` set xs"
proof -
  have "map f (modify_by h k g xs) = map f xs"
    using assms by (simp add: modify_by_def)
  then show ?thesis by (metis set_map)
qed

lemmas keyed_simps = lookup_erase_by lookup_modify_by lookup_insert_by unique_insert_by
  unique_erase_by unique_modify_by keys_erase_by keys_insert_by keys_modify_by

text \<open>An element of maximal key exists in every non-empty list.\<close>

lemma max_key_exists:
  fixes f :: "'a \<Rightarrow> int"
  assumes "xs \<noteq> []"
  shows "\<exists>x \<in> set xs. \<forall>y \<in> set xs. f y \<le> f x"
proof -
  have "Max (f ` set xs) \<in> f ` set xs" using assms by (intro Max_in) auto
  then obtain x where "x \<in> set xs" "f x = Max (f ` set xs)" by auto
  then show ?thesis by (metis Max_ge finite_imageI finite_set imageI)
qed

text \<open>
  A non-unique index yields one of the elements of an equivalent key; which one is a choice
  function of the environment.
\<close>

definition tie_choice :: "('a list \<Rightarrow> 'a) \<Rightarrow> bool" where
  "tie_choice pick \<longleftrightarrow> (\<forall>xs. xs \<noteq> [] \<longrightarrow> pick xs \<in> set xs)"

lemma tie_choice_hd: "tie_choice hd"
  by (simp add: tie_choice_def)

section \<open>The interface of a unique-key store\<close>

text \<open>
  What the broker, the session actions and the worker rely on of their containers, whatever
  else each container also indexes: a store with keys, an insertion that keeps an element of
  the same key, a deletion by key.
\<close>

datatype ('a, 'k) store_op = Put 'a | Del 'k

primrec store_step :: "('a \<Rightarrow> 's \<Rightarrow> 's) \<Rightarrow> ('k \<Rightarrow> 's \<Rightarrow> 's) \<Rightarrow> ('a, 'k) store_op \<Rightarrow> 's \<Rightarrow> 's" where
  "store_step put del (Put x) s = put x s"
| "store_step put del (Del k) s = del k s"

text \<open>The same operation on a plain set of keys.\<close>

abbreviation set_step :: "('a \<Rightarrow> 'k) \<Rightarrow> ('a, 'k) store_op \<Rightarrow> 'k set \<Rightarrow> 'k set" where
  "set_step key \<equiv> store_step (\<lambda>x K. insert (key x) K) (\<lambda>k K. K - {k})"

text \<open>Every insertion of a run satisfies the provider's condition in the state it meets.\<close>

primrec adm_run ::
  "('a \<Rightarrow> 's \<Rightarrow> bool) \<Rightarrow> (('a, 'k) store_op \<Rightarrow> 's \<Rightarrow> 's) \<Rightarrow> ('a, 'k) store_op list \<Rightarrow> 's \<Rightarrow> bool" where
  "adm_run adm step [] s = True"
| "adm_run adm step (p # ps) s =
     ((case p of Put x \<Rightarrow> adm x s | Del k \<Rightarrow> True) \<and> adm_run adm step ps (step p s))"

locale keyed_store =
  fixes key :: "'a \<Rightarrow> 'k"
    and ok :: "'s \<Rightarrow> bool"
    and adm :: "'a \<Rightarrow> 's \<Rightarrow> bool"
    and lookup :: "'k \<Rightarrow> 's \<Rightarrow> 'a option"
    and put :: "'a \<Rightarrow> 's \<Rightarrow> 's"
    and del :: "'k \<Rightarrow> 's \<Rightarrow> 's"
  assumes lookup_key: "ok s \<Longrightarrow> lookup k s = Some x \<Longrightarrow> key x = k"
    and put_present: "ok s \<Longrightarrow> adm x s \<Longrightarrow> \<exists>y. lookup (key x) (put x s) = Some y"
    and put_other: "ok s \<Longrightarrow> adm x s \<Longrightarrow> k \<noteq> key x \<Longrightarrow> lookup k (put x s) = lookup k s"
    and del_same: "ok s \<Longrightarrow> lookup k (del k s) = None"
    and del_other: "ok s \<Longrightarrow> k \<noteq> k' \<Longrightarrow> lookup k (del k' s) = lookup k s"
    and ok_put: "ok s \<Longrightarrow> ok (put x s)"
    and ok_del: "ok s \<Longrightarrow> ok (del k s)"
begin

definition keys :: "'s \<Rightarrow> 'k set" where
  "keys s = {k. lookup k s \<noteq> None}"

lemma in_keys: "k \<in> keys s \<longleftrightarrow> (\<exists>x. lookup k s = Some x)"
  by (simp add: keys_def)

lemma keys_put: "ok s \<Longrightarrow> adm x s \<Longrightarrow> keys (put x s) = insert (key x) (keys s)"
  using put_present [of s x] put_other [of s x] by (intro set_eqI) (metis in_keys insert_iff)

lemma keys_del: "ok s \<Longrightarrow> keys (del k s) = keys s - {k}"
  using del_same [of s k] del_other [of s _ k] by (intro set_eqI) (metis in_keys Diff_iff singleton_iff option.distinct(1))

lemma store_step_ok: "ok s \<Longrightarrow> ok (store_step put del p s)"
  by (cases p) (auto simp: ok_put ok_del)

text \<open>Any admissible run refines the same run on the set of keys.\<close>

lemma ops_refine:
  "ok s \<Longrightarrow> adm_run adm (store_step put del) ps s \<Longrightarrow> ok (fold (store_step put del) ps s)
    \<and> keys (fold (store_step put del) ps s) = fold (set_step key) ps (keys s)"
proof (induction ps arbitrary: s)
  case (Cons p ps)
  have "keys (store_step put del p s) = set_step key p (keys s)"
    using Cons.prems by (cases p) (auto simp: keys_put keys_del)
  with Cons store_step_ok show ?case by simp
qed simp

lemma put_del_gone: "ok s \<Longrightarrow> lookup (key x) (del (key x) (put x s)) = None"
  using del_same ok_put by blast

end

lemma adm_run_True [simp]: "adm_run (\<lambda>_ _. True) step ps s"
  by (induction ps arbitrary: s) (simp_all split: store_op.split)

end
