(* ===== verification/Protocol.thy ===== *)
theory Protocol
  imports Cdcm_Prelude "HOL-Library.Word"
begin

text \<open>
  \<open>src/src/common/protocol/msg_types.hpp\<close>, \<open>protocol.hpp\<close> and
  \<open>src/src/common/zmq/mdp.hpp\<close>: response codes and the tables behind them, result
  messages, the JSON form of headers, requests and responses, and the MDP command bytes.
  JSON trees follow the vendored \<open>tao::json::basic_value\<close> (an object is a
  \<open>std::map\<close>, kept as its list of members in key order); the text parser
  \<open>from_string\<close> and printer \<open>to_string\<close> of that library are parameters of the
  definitions that use them.
\<close>

section \<open>Response codes (msg_types.hpp)\<close>

datatype RESP_GROUP_CODE = RG_OK | ERROR_IN_REQUEST | CDCM_INTERNAL_ERROR | ERROR_WITH_ASSET | NON_EXIST

datatype CDCM_ERROR =
    CE_OK
  | MALFORMED_MESSAGE | KEY_AND_VALUE_ARE_MANDATORY | KEY_IS_MANDATORY | BAD_PARAMETER
  | PARAM_IS_MANDATORY | PATH_IS_MANDATORY | REMOTE_AND_USERNAME_ARE_MANDATORY
  | SHARE_IS_MISSING_IN_KEY | SHARE_NAME_IS_MANDATORY
  | SESSION_NOT_FOUND | INTERNAL_ERROR | MEMORY_ALLOCATION_FAILED | PARSE_FILE_FAILED
  | READ_FILE_FAILED | OPEN_KEY_FAILED | FAILED_ADDING_NEW_SESSION
  | LIST_FAILED | GENERAL_ERROR_WITH_ASSET | VALUE_IS_EMPTY

text \<open>The underlying values of the two enumerations.\<close>

fun resp_group_value :: "RESP_GROUP_CODE \<Rightarrow> 32 word" where
  "resp_group_value RG_OK = 1"
| "resp_group_value ERROR_IN_REQUEST = 2"
| "resp_group_value CDCM_INTERNAL_ERROR = 3"
| "resp_group_value ERROR_WITH_ASSET = 4"
| "resp_group_value NON_EXIST = 5"

fun cdcm_error_value :: "CDCM_ERROR \<Rightarrow> 32 word" where
  "cdcm_error_value CE_OK = 101"
| "cdcm_error_value MALFORMED_MESSAGE = 201"
| "cdcm_error_value KEY_AND_VALUE_ARE_MANDATORY = 202"
| "cdcm_error_value KEY_IS_MANDATORY = 203"
| "cdcm_error_value BAD_PARAMETER = 204"
| "cdcm_error_value PARAM_IS_MANDATORY = 205"
| "cdcm_error_value PATH_IS_MANDATORY = 206"
| "cdcm_error_value REMOTE_AND_USERNAME_ARE_MANDATORY = 207"
| "cdcm_error_value SHARE_IS_MISSING_IN_KEY = 208"
| "cdcm_error_value SHARE_NAME_IS_MANDATORY = 209"
| "cdcm_error_value SESSION_NOT_FOUND = 301"
| "cdcm_error_value INTERNAL_ERROR = 302"
| "cdcm_error_value MEMORY_ALLOCATION_FAILED = 303"
| "cdcm_error_value PARSE_FILE_FAILED = 304"
| "cdcm_error_value READ_FILE_FAILED = 305"
| "cdcm_error_value OPEN_KEY_FAILED = 306"
| "cdcm_error_value FAILED_ADDING_NEW_SESSION = 307"
| "cdcm_error_value LIST_FAILED = 401"
| "cdcm_error_value GENERAL_ERROR_WITH_ASSET = 402"
| "cdcm_error_value VALUE_IS_EMPTY = 403"

text \<open>The two constant tables; \<open>None\<close> is a key that is absent.\<close>

fun group_code_description_mapping :: "RESP_GROUP_CODE \<Rightarrow> string option" where
  "group_code_description_mapping RG_OK = Some ''OK''"
| "group_code_description_mapping ERROR_IN_REQUEST = Some ''Error in request''"
| "group_code_description_mapping CDCM_INTERNAL_ERROR = Some ''CDCM internal error''"
| "group_code_description_mapping ERROR_WITH_ASSET = Some ''Error with asset''"
| "group_code_description_mapping NON_EXIST = None"

fun cdcm_error_mapping :: "CDCM_ERROR \<Rightarrow> (RESP_GROUP_CODE \<times> 32 word \<times> string) option" where
  "cdcm_error_mapping CE_OK = Some (RG_OK, 101, ''OK'')"
| "cdcm_error_mapping MALFORMED_MESSAGE = Some (ERROR_IN_REQUEST, 201, ''Malformed message'')"
| "cdcm_error_mapping KEY_AND_VALUE_ARE_MANDATORY = Some (ERROR_IN_REQUEST, 202, ''Key and value are mandatory'')"
| "cdcm_error_mapping KEY_IS_MANDATORY = Some (ERROR_IN_REQUEST, 203, ''Key is mandatory'')"
| "cdcm_error_mapping BAD_PARAMETER = Some (ERROR_IN_REQUEST, 204, ''Bad parameter'')"
| "cdcm_error_mapping PARAM_IS_MANDATORY = Some (ERROR_IN_REQUEST, 205, ''Param is mandatory'')"
| "cdcm_error_mapping PATH_IS_MANDATORY = Some (ERROR_IN_REQUEST, 206, ''Path is mandatory'')"
| "cdcm_error_mapping SHARE_NAME_IS_MANDATORY = Some (ERROR_IN_REQUEST, 209, ''Share name is mandatory'')"
| "cdcm_error_mapping REMOTE_AND_USERNAME_ARE_MANDATORY = Some (ERROR_IN_REQUEST, 207, ''Remote and username are mandatory'')"
| "cdcm_error_mapping SHARE_IS_MISSING_IN_KEY = Some (ERROR_IN_REQUEST, 208, ''Share is missing in the provided key'')"
| "cdcm_error_mapping SESSION_NOT_FOUND = Some (CDCM_INTERNAL_ERROR, 301, ''Session not found'')"
| "cdcm_error_mapping INTERNAL_ERROR = Some (CDCM_INTERNAL_ERROR, 302, ''Internal error'')"
| "cdcm_error_mapping MEMORY_ALLOCATION_FAILED = Some (CDCM_INTERNAL_ERROR, 303, ''Memory allocation failed'')"
| "cdcm_error_mapping PARSE_FILE_FAILED = None"
| "cdcm_error_mapping READ_FILE_FAILED = Some (CDCM_INTERNAL_ERROR, 305, ''Read file failed'')"
| "cdcm_error_mapping OPEN_KEY_FAILED = Some (CDCM_INTERNAL_ERROR, 306, ''Open key failed'')"
| "cdcm_error_mapping FAILED_ADDING_NEW_SESSION = Some (CDCM_INTERNAL_ERROR, 307, ''Failed adding new session'')"
| "cdcm_error_mapping LIST_FAILED = Some (ERROR_WITH_ASSET, 401, ''List failed'')"
| "cdcm_error_mapping GENERAL_ERROR_WITH_ASSET = Some (ERROR_WITH_ASSET, 402, ''Error with asset'')"
| "cdcm_error_mapping VALUE_IS_EMPTY = Some (ERROR_WITH_ASSET, 403, ''Value is empty'')"

text \<open>\<open>unordered_map::at\<close> throws \<open>std::out_of_range\<close> on an absent key.\<close>

primrec at_o :: "'a option \<Rightarrow> 'a outcome" where
  "at_o None = Throw"
| "at_o (Some a) = Ok a"

section \<open>JSON values\<close>

datatype json = JNull | JBool bool | JNum int | JStr string | JArr "json list" | JObj "(string \<times> json) list"
  | JOpaque

fun get_object :: "json \<Rightarrow> (string \<times> json) list outcome" where
  "get_object (JObj m) = Ok m"
| "get_object _ = Throw"

fun get_array :: "json \<Rightarrow> json list outcome" where
  "get_array (JArr xs) = Ok xs"
| "get_array _ = Throw"

fun as_string :: "json \<Rightarrow> string outcome" where
  "as_string (JStr s) = Ok s"
| "as_string _ = Throw"

definition map_at :: "(string \<times> json) list \<Rightarrow> string \<Rightarrow> json outcome" where
  "map_at m k = at_o (map_of m k)"

definition json_at :: "json \<Rightarrow> string \<Rightarrow> json outcome" where
  "json_at v k = bind_o (get_object v) (\<lambda>m. map_at m k)"

definition string_field :: "json \<Rightarrow> string \<Rightarrow> string outcome" where
  "string_field v k = bind_o (json_at v k) as_string"

text \<open>
  \<open>cbegin()->first\<close> of an object: dereferencing the end iterator of an empty map is
  undefined.
\<close>

fun first_key :: "(string \<times> json) list \<Rightarrow> string outcome" where
  "first_key [] = UB"
| "first_key ((k, v) # m) = Ok k"

lemma soft_json [simp]:
  "soft (at_o x)" "soft (get_object v)" "soft (get_array v)" "soft (as_string v)" "soft (map_at m k)"
  "soft (json_at v k)" "soft (string_field v k)"
proof -
  show "soft (at_o x)" for x :: "'b option" by (cases x) simp_all
  then show at: "soft (map_at m k)" for m k by (simp add: map_at_def)
  show "soft (get_object v)" "soft (get_array v)" "soft (as_string v)" for v by (cases v; simp)+
  with at show "soft (json_at v k)" "soft (string_field v k)"
    by (auto simp: json_at_def string_field_def intro!: soft_bind)
qed

text \<open>The actions of a request, where it has any.\<close>

definition actions_of :: "json \<Rightarrow> json list" where
  "actions_of v = (case v of JObj m \<Rightarrow> (case map_of m ''msgs'' of Some (JArr vs) \<Rightarrow> vs | _ \<Rightarrow> []) | _ \<Rightarrow> [])"

section \<open>Statuses and result messages (msg_types.hpp)\<close>

record resp_status =
  code_group :: "32 word"
  code_group_description :: string
  code :: "32 word"

definition resp_status_default :: resp_status where
  "resp_status_default = \<lparr>code_group = 0, code_group_description = [], code = 0\<rparr>"

definition set_code_group :: "RESP_GROUP_CODE \<Rightarrow> resp_status \<Rightarrow> resp_status outcome" where
  "set_code_group g r =
     bind_o (at_o (group_code_description_mapping g))
       (\<lambda>d. Ok (r\<lparr>code_group := resp_group_value g, code_group_description := d\<rparr>))"

definition set_code :: "32 word \<Rightarrow> resp_status \<Rightarrow> resp_status" where
  "set_code c r = r\<lparr>code := c\<rparr>"

definition make_resp_status :: "RESP_GROUP_CODE \<Rightarrow> 32 word \<Rightarrow> resp_status outcome" where
  "make_resp_status g c = bind_o (set_code_group g resp_status_default) (\<lambda>r. Ok (set_code c r))"

definition set_resp_status_for_cdcm_error :: "CDCM_ERROR \<Rightarrow> resp_status \<Rightarrow> resp_status outcome" where
  "set_resp_status_for_cdcm_error e r =
     bind_o (at_o (cdcm_error_mapping e)) (\<lambda>(g, c, m).
     bind_o (set_code_group g r) (\<lambda>r'. Ok (set_code c r')))"

definition get_error_message :: "CDCM_ERROR \<Rightarrow> string outcome" where
  "get_error_message e = bind_o (at_o (cdcm_error_mapping e)) (\<lambda>(g, c, m). Ok m)"

record result_msg =
  msg_id :: string
  msg_status :: resp_status
  msg_result :: json

definition result_msg_default :: result_msg where
  "result_msg_default = \<lparr>msg_id = [], msg_status = resp_status_default, msg_result = JNull\<rparr>"

definition set_id :: "string \<Rightarrow> result_msg \<Rightarrow> result_msg" where
  "set_id i r = r\<lparr>msg_id := i\<rparr>"

definition set_res :: "json \<Rightarrow> result_msg \<Rightarrow> result_msg" where
  "set_res v r = r\<lparr>msg_result := v\<rparr>"

definition set_response_for_success :: "json \<Rightarrow> result_msg \<Rightarrow> result_msg outcome" where
  "set_response_for_success v r =
     bind_o (set_resp_status_for_cdcm_error CE_OK (msg_status r))
       (\<lambda>st. Ok (set_res v (r\<lparr>msg_status := st\<rparr>)))"

definition set_response_for_error :: "CDCM_ERROR \<Rightarrow> result_msg \<Rightarrow> result_msg outcome" where
  "set_response_for_error e r =
     bind_o (set_resp_status_for_cdcm_error e (msg_status r)) (\<lambda>st.
     bind_o (get_error_message e) (\<lambda>m.
       Ok (set_res (JStr (''Error: '' @ m)) (r\<lparr>msg_status := st\<rparr>))))"

definition set_response_for_error_with_unique_code_or_msg ::
  "CDCM_ERROR \<Rightarrow> 32 word \<Rightarrow> string \<Rightarrow> result_msg \<Rightarrow> result_msg outcome" where
  "set_response_for_error_with_unique_code_or_msg e error_code err_msg r =
     bind_o (at_o (cdcm_error_mapping e)) (\<lambda>(g, c, m).
     bind_o (set_code_group g (msg_status r)) (\<lambda>st.
       let st' = set_code (if error_code \<noteq> 0 then error_code else c) st;
           txt = ''Error: '' @ (if err_msg \<noteq> [] then err_msg else m)
       in Ok (set_res (JStr txt) (r\<lparr>msg_status := st'\<rparr>))))"

section \<open>Headers, requests and responses (msg_types.hpp, protocol.hpp)\<close>

record header =
  session_id :: string

record raw_msg =
  raw_hdr :: header
  raw_msgs :: "(string \<times> json) list list"

record res_msg =
  res_hdr :: header
  res_msgs :: "result_msg list"

text \<open>
  The JSON bindings. Reading back a bound object rejects an unknown key and a missing required
  one; a duplicate key cannot occur in a \<open>std::map\<close>.
\<close>

definition header_to_json :: "header \<Rightarrow> json" where
  "header_to_json h = JObj [(''session_id'', JStr (session_id h))]"

definition json_to_header :: "json \<Rightarrow> header outcome" where
  "json_to_header v = bind_o (get_object v) (\<lambda>m.
     if \<forall>(k, x) \<in> set m. k = ''session_id'' then
       bind_o (map_at m ''session_id'') (\<lambda>s. bind_o (as_string s) (\<lambda>i. Ok \<lparr>session_id = i\<rparr>))
     else Throw)"

definition raw_msg_to_json :: "raw_msg \<Rightarrow> json" where
  "raw_msg_to_json m = JObj [(''H'', header_to_json (raw_hdr m)), (''msgs'', JArr (map JObj (raw_msgs m)))]"

definition resp_status_to_json :: "resp_status \<Rightarrow> json" where
  "resp_status_to_json r =
     JObj [(''code'', JNum (uint (code r))),
           (''code_group'', JNum (uint (code_group r))),
           (''code_group_description'', JStr (code_group_description r))]"

definition result_msg_to_json :: "result_msg \<Rightarrow> json" where
  "result_msg_to_json r =
     JObj [(''id'', JStr (msg_id r)), (''result'', msg_result r), (''status'', resp_status_to_json (msg_status r))]"

definition res_msg_to_json :: "res_msg \<Rightarrow> json" where
  "res_msg_to_json m =
     JObj [(''H'', header_to_json (res_hdr m)), (''msgs'', JArr (map result_msg_to_json (res_msgs m)))]"

section \<open>MDP (mdp.hpp)\<close>

definition MDPC_CLIENT :: string where "MDPC_CLIENT = ''MDPC01''"

definition MDPW_WORKER :: string where "MDPW_WORKER = ''MDPW01''"

definition MDPW_READY :: string where "MDPW_READY = [CHR 0x01]"

definition MDPW_REQUEST :: string where "MDPW_REQUEST = [CHR 0x02]"

definition MDPW_REPLY :: string where "MDPW_REPLY = [CHR 0x03]"

definition MDPW_HEARTBEAT :: string where "MDPW_HEARTBEAT = [CHR 0x04]"

definition MDPW_DISCONNECT :: string where "MDPW_DISCONNECT = [CHR 0x05]"

lemmas mdp_defs = MDPC_CLIENT_def MDPW_WORKER_def MDPW_READY_def MDPW_REQUEST_def MDPW_REPLY_def
  MDPW_HEARTBEAT_def MDPW_DISCONNECT_def

section \<open>Lemmas\<close>

lemma mdp_nul_free [simp]:
  "nul_free MDPC_CLIENT" "nul_free MDPW_WORKER" "nul_free MDPW_READY" "nul_free MDPW_REQUEST"
  "nul_free MDPW_REPLY" "nul_free MDPW_HEARTBEAT" "nul_free MDPW_DISCONNECT"
  by (simp_all add: mdp_defs)

lemma mdp_distinct [simp]:
  "MDPW_READY \<noteq> MDPW_REQUEST" "MDPW_READY \<noteq> MDPW_REPLY" "MDPW_READY \<noteq> MDPW_HEARTBEAT"
  "MDPW_READY \<noteq> MDPW_DISCONNECT" "MDPW_REQUEST \<noteq> MDPW_REPLY" "MDPW_REQUEST \<noteq> MDPW_HEARTBEAT"
  "MDPW_REQUEST \<noteq> MDPW_DISCONNECT" "MDPW_REPLY \<noteq> MDPW_HEARTBEAT" "MDPW_REPLY \<noteq> MDPW_DISCONNECT"
  "MDPW_HEARTBEAT \<noteq> MDPW_DISCONNECT" "MDPC_CLIENT \<noteq> MDPW_WORKER"
  by (simp_all add: mdp_defs)

lemmas mdp_distinct_sym [simp] = mdp_distinct [symmetric]

lemma set_resp_status_Ok:
  "cdcm_error_mapping e = Some (g, c, m) \<Longrightarrow> group_code_description_mapping g = Some d \<Longrightarrow>
   set_resp_status_for_cdcm_error e r = Ok \<lparr>code_group = resp_group_value g, code_group_description = d, code = c\<rparr>"
  by (simp add: set_resp_status_for_cdcm_error_def set_code_group_def set_code_def)

lemma mapping_total: "e \<noteq> PARSE_FILE_FAILED \<Longrightarrow>
  \<exists>g c m d. cdcm_error_mapping e = Some (g, c, m) \<and> group_code_description_mapping g = Some d"
  by (cases e) auto

text \<open>The responses the actions set, one rewriting rule per operation.\<close>

definition error_status :: "CDCM_ERROR \<Rightarrow> resp_status" where
  "error_status e = (case cdcm_error_mapping e of
     Some (g, c, m) \<Rightarrow> \<lparr>code_group = resp_group_value g,
        code_group_description = (case group_code_description_mapping g of Some d \<Rightarrow> d | None \<Rightarrow> []), code = c\<rparr>
   | None \<Rightarrow> resp_status_default)"

definition error_text :: "CDCM_ERROR \<Rightarrow> string" where
  "error_text e = (case cdcm_error_mapping e of Some (g, c, m) \<Rightarrow> m | None \<Rightarrow> [])"

lemma set_response_for_error_Ok [resp_simps]:
  "e \<noteq> PARSE_FILE_FAILED \<Longrightarrow>
   set_response_for_error e r = Ok (r\<lparr>msg_status := error_status e, msg_result := JStr (''Error: '' @ error_text e)\<rparr>)"
  by (cases e) (simp_all add: set_response_for_error_def set_resp_status_for_cdcm_error_def set_code_group_def
      set_code_def get_error_message_def set_res_def error_status_def error_text_def)

lemma set_response_for_success_Ok [resp_simps]:
  "set_response_for_success v r = Ok (r\<lparr>msg_status := error_status CE_OK, msg_result := v\<rparr>)"
  by (simp add: set_response_for_success_def set_resp_status_for_cdcm_error_def set_code_group_def
      set_code_def set_res_def error_status_def)

lemma set_response_unique_Ok [resp_simps]:
  "e \<noteq> PARSE_FILE_FAILED \<Longrightarrow>
   set_response_for_error_with_unique_code_or_msg e c m r =
     Ok (r\<lparr>msg_status := (error_status e)\<lparr>code := (if c \<noteq> 0 then c else code (error_status e))\<rparr>,
           msg_result := JStr (''Error: '' @ (if m \<noteq> [] then m else error_text e))\<rparr>)"
  by (cases e) (simp_all add: set_response_for_error_with_unique_code_or_msg_def set_code_group_def set_code_def
      set_res_def error_status_def error_text_def)

lemma soft_header [simp]: "soft (json_to_header v)"
  by (auto simp: json_to_header_def intro!: soft_bind)

lemma json_to_header_roundtrip [simp]: "json_to_header (header_to_json h) = Ok h"
  by (simp add: json_to_header_def header_to_json_def map_at_def)

section \<open>Properties\<close>

text \<open>
  Error responses: for every error of the enumeration but one, the response carries the
  error's numeric code, the group that is the code's hundreds digit, and a text that starts
  with \<open>Error: \<close>; the one error without a row in the table, \<open>PARSE_FILE_FAILED\<close>, makes the
  call throw.
\<close>

theorem error_response_matches_code:
  "case set_response_for_error e r of
     Ok r' \<Rightarrow> code (msg_status r') = cdcm_error_value e
       \<and> code_group (msg_status r') = cdcm_error_value e div 100
       \<and> (\<exists>m. msg_result r' = JStr (''Error: '' @ m)) \<and> msg_id r' = msg_id r
   | Throw \<Rightarrow> e = PARSE_FILE_FAILED
   | Abort \<Rightarrow> False
   | UB \<Rightarrow> False"
  by (cases e) (simp_all add: set_response_for_error_def set_resp_status_for_cdcm_error_def set_code_group_def
      set_code_def get_error_message_def set_res_def)

end
