(* ===== verification/Zmq_Message.thy ===== *)
theory Zmq_Message
  imports Protocol
begin

text \<open>
  \<open>src/src/common/zmq/zmq_message.cpp\<close>: the multipart message \<open>zmsg\<close>. A message is the
  list of its parts, a part (\<open>std::basic_string<unsigned char>\<close>) the list of its bytes. The
  socket is the sequence of frames it delivers and accepts. A part pushed through a
  \<open>const char*\<close> ends at its first NUL.
\<close>

type_synonym zmsg = "string list"

section \<open>UUID frames\<close>

definition hex_char :: "nat \<Rightarrow> char" where
  "hex_char n = ''0123456789ABCDEF'' ! n"

text \<open>The table of 128 entries: the digits, \<open>A..F\<close> and \<open>a..f\<close>, everything else -1.\<close>

definition hex_to_bin :: "nat \<Rightarrow> int" where
  "hex_to_bin i =
     (if 48 \<le> i \<and> i \<le> 57 then int i - 48
      else if 65 \<le> i \<and> i \<le> 70 then int i - 55
      else if 97 \<le> i \<and> i \<le> 102 then int i - 87
      else -1)"

definition uuid_str_len :: nat where "uuid_str_len = 17"

definition uuid_binary_len :: nat where "uuid_binary_len = 34"

definition hex_pair :: "char \<Rightarrow> string" where
  "hex_pair c = [hex_char (of_char c div 16), hex_char (of_char c mod 16)]"

definition unhex_pair :: "char \<Rightarrow> char \<Rightarrow> char" where
  "unhex_pair a b =
     char_of (nat ((hex_to_bin (of_char a mod 128) * 16 + hex_to_bin (of_char b mod 128)) mod 256))"

text \<open>\<open>assert(data[0] == 0)\<close>; 33 characters and the terminating NUL.\<close>

definition encode_uuid :: "string \<Rightarrow> string outcome" where
  "encode_uuid d =
     (if d ! 0 \<noteq> CHR 0x00 then Abort
      else Ok (CHR ''@'' # concat (map (\<lambda>i. hex_pair (d ! (i + 1))) [0..<16]) @ [CHR 0x00]))"

definition decode_uuid :: "string \<Rightarrow> string outcome" where
  "decode_uuid s =
     (if length (c_str s) \<noteq> uuid_binary_len - 1 then Abort
      else if s ! 0 \<noteq> CHR ''@'' then Abort
      else Ok (CHR 0x00 # map (\<lambda>i. unhex_pair (s ! (i * 2 + 1)) (s ! (i * 2 + 2))) [0..<16]))"

section \<open>Receiving and sending\<close>

text \<open>
  What \<open>socket.recv\<close> yields, call by call: a frame with its \<open>more\<close> flag, or a failure
  (a \<open>false\<close> result or a caught \<open>zmq::error_t\<close>).
\<close>

datatype recv_event = Frame string bool | Recv_Failed

definition recv_part :: "string \<Rightarrow> string outcome" where
  "recv_part d =
     (if length d = uuid_str_len \<and> d ! 0 = CHR 0x00
      then bind_o (encode_uuid d) (\<lambda>u. Ok (c_str u))
      else Ok d)"

text \<open>
  \<open>None\<close>: the call is still waiting for a frame. The parts read so far stay in the message
  when the call fails.
\<close>

fun recv_loop :: "zmsg \<Rightarrow> recv_event list \<Rightarrow> (bool \<times> zmsg) outcome option" where
  "recv_loop m [] = None"
| "recv_loop m (Recv_Failed # es) = Some (Ok (False, m))"
| "recv_loop m (Frame d mr # es) =
     (case recv_part d of
        Ok p \<Rightarrow> (if mr then recv_loop (m @ [p]) es else Some (Ok (True, m @ [p])))
      | Throw \<Rightarrow> Some Throw | Abort \<Rightarrow> Some Abort | UB \<Rightarrow> Some UB)"

definition recv :: "recv_event list \<Rightarrow> (bool \<times> zmsg) outcome option" where
  "recv es = recv_loop [] es"

definition send_part :: "string \<Rightarrow> string outcome" where
  "send_part d =
     (if length d = uuid_binary_len - 1 \<and> d ! 0 = CHR ''@'' then decode_uuid d else Ok d)"

text \<open>\<open>send\<close>: the frames handed to the socket; the message is empty afterwards.\<close>

fun send :: "zmsg \<Rightarrow> string list outcome" where
  "send [] = Ok []"
| "send (d # m) = bind_o (send_part d) (\<lambda>f. bind_o (send m) (\<lambda>fs. Ok (f # fs)))"

section \<open>Parts\<close>

definition parts :: "zmsg \<Rightarrow> nat" where
  "parts m = length m"

definition emplace_back :: "string \<Rightarrow> zmsg \<Rightarrow> zmsg" where
  "emplace_back p m = m @ [c_str p]"

definition body_set :: "string \<Rightarrow> zmsg \<Rightarrow> zmsg" where
  "body_set b m = emplace_back b (if m \<noteq> [] then butlast m else m)"

definition zmsg_of_body :: "string \<Rightarrow> zmsg" where
  "zmsg_of_body b = body_set b []"

text \<open>\<open>nullptr\<close> for a message without parts, else a C string.\<close>

definition body :: "zmsg \<Rightarrow> string option" where
  "body m = (if m \<noteq> [] then Some (c_str (last m)) else None)"

definition push_front :: "string \<Rightarrow> zmsg \<Rightarrow> zmsg" where
  "push_front p m = c_str p # m"

fun pop_front :: "zmsg \<Rightarrow> string \<times> zmsg" where
  "pop_front [] = ([], [])"
| "pop_front (p # m) = (p, m)"

definition append :: "string option \<Rightarrow> zmsg \<Rightarrow> zmsg outcome" where
  "append p m = (case p of None \<Rightarrow> Abort | Some s \<Rightarrow> Ok (emplace_back s m))"

definition address :: "zmsg \<Rightarrow> string option" where
  "address m = (case m of [] \<Rightarrow> None | p # _ \<Rightarrow> Some (c_str p))"

definition wrap :: "string \<Rightarrow> string option \<Rightarrow> zmsg \<Rightarrow> zmsg" where
  "wrap addr delim m = push_front addr (case delim of None \<Rightarrow> m | Some d \<Rightarrow> push_front d m)"

definition unwrap :: "zmsg \<Rightarrow> string \<times> zmsg" where
  "unwrap m =
     (if m = [] then ([], [])
      else let (p, m') = pop_front m in
        (c_str p, if address m' \<noteq> None \<and> address m' = Some [] then snd (pop_front m') else m'))"

section \<open>Printing\<close>

definition pad :: "nat \<Rightarrow> string \<Rightarrow> string" where
  "pad w s = replicate (w - length s) (CHR ''0'') @ s"

definition check_is_text :: "string \<Rightarrow> bool" where
  "check_is_text d = list_all (\<lambda>c. 32 \<le> (of_char c :: nat) \<and> (of_char c :: nat) \<le> 127) d"

text \<open>
  The stream keeps \<open>std::hex\<close> once it is set. \<open>for_each_n\<close> over more elements than the
  part has reads past its end.
\<close>

definition part_print :: "bool \<Rightarrow> bool \<Rightarrow> string \<Rightarrow> (string \<times> bool) outcome" where
  "part_print full hex d =
     (let is_text = check_is_text d;
          n = (if full then length d else max 30 (length d));
          size = (if hex then to_hex_nat (length d) else to_string_nat (length d));
          out = (if is_text then d else concat (map (\<lambda>c. pad 2 (to_hex_nat (of_char c))) d))
      in if n > length d then UB
         else Ok (''['' @ pad 3 size @ ''] '' @ out @ [CHR 0x0A], hex \<or> \<not> is_text))"

fun print_parts :: "bool \<Rightarrow> bool \<Rightarrow> zmsg \<Rightarrow> (string \<times> bool) outcome" where
  "print_parts full hex [] = Ok ([], hex)"
| "print_parts full hex (d # m) =
     bind_o (part_print full hex d) (\<lambda>(s, hex').
     bind_o (print_parts full hex' m) (\<lambda>(t, hex''). Ok (s @ t, hex'')))"

definition to_str :: "bool \<Rightarrow> bool \<Rightarrow> bool \<Rightarrow> zmsg \<Rightarrow> string outcome" where
  "to_str with_header with_body full m =
     (if \<not> with_header \<and> \<not> with_body \<and> \<not> full then Ok []
      else bind_o (if with_header then (if m = [] then UB else print_parts full False (butlast m)) else Ok ([], False))
        (\<lambda>(s, hex).
      bind_o (if with_body then (if m = [] then UB else part_print full hex (last m)) else Ok ([], hex))
        (\<lambda>(t, hex'). Ok (s @ t))))"

section \<open>Lemmas\<close>

lemma hex_to_bin_hex_char: "k < 16 \<Longrightarrow> hex_to_bin (of_char (hex_char k) mod 128) = int k"
proof -
  have "\<forall>k \<in> set [0..<16]. hex_to_bin (of_char (hex_char k) mod 128) = int k" by code_simp
  then show "k < 16 \<Longrightarrow> ?thesis" by simp
qed

lemma hex_char_neq_NUL: "k < 16 \<Longrightarrow> hex_char k \<noteq> CHR 0x00"
proof -
  have "\<forall>k \<in> set [0..<16]. hex_char k \<noteq> CHR 0x00" by code_simp
  then show "k < 16 \<Longrightarrow> ?thesis" by simp
qed

lemma unhex_hex_pair:
  "unhex_pair (hex_char (of_char c div 16)) (hex_char (of_char c mod 16)) = c"
proof -
  let ?n = "of_char c :: nat"
  have "?n div 16 < 16" using nat_of_char_less_256 [of c] by (simp add: less_mult_imp_div_less)
  then have "(hex_to_bin (of_char (hex_char (?n div 16)) mod 128) * 16
      + hex_to_bin (of_char (hex_char (?n mod 16)) mod 128)) mod 256 = int ?n mod 256"
    by (simp add: hex_to_bin_hex_char) (metis div_mult_mod_eq of_nat_add of_nat_mult of_nat_numeral)
  then show ?thesis
    by (simp add: unhex_pair_def nat_mod_distrib)
qed

lemma nul_free_hex_pair [simp]: "nul_free (hex_pair c)"
  using hex_char_neq_NUL nat_of_char_less_256 [of c]
  by (simp add: hex_pair_def less_mult_imp_div_less)

lemma nul_free_concat: "(\<And>x. x \<in> set xs \<Longrightarrow> nul_free (f x)) \<Longrightarrow> nul_free (concat (map f xs))"
  by (induction xs) auto

lemma concat_pairs_nth:
  "(\<And>i. length (f i) = 2) \<Longrightarrow> i < n \<Longrightarrow>
   concat (map f [0..<n]) ! (i * 2) = f i ! 0 \<and> concat (map f [0..<n]) ! (i * 2 + 1) = f i ! 1"
proof (induction n)
  case (Suc n)
  have len: "length (concat (map f [0..<m])) = m * 2" for m
    using Suc.prems(1) by (induction m) auto
  show ?case
  proof (cases "i < n")
    case True
    with Suc.IH [OF Suc.prems(1)] len [of n] show ?thesis
      by (auto simp: nth_append)
  next
    case False
    with Suc.prems(2) have "i = n" by simp
    with len [of n] show ?thesis by (simp add: nth_append)
  qed
qed simp

lemma c_str_snoc_NUL [simp]: "nul_free s \<Longrightarrow> c_str (s @ [CHR 0x00]) = s"
  by (induction s) (auto simp: c_str_Cons)

lemma c_str_encode:
  "encode_uuid d = Ok u \<Longrightarrow> c_str u = CHR ''@'' # concat (map (\<lambda>i. hex_pair (d ! (i + 1))) [0..<16])"
proof -
  let ?h = "concat (map (\<lambda>i. hex_pair (d ! (i + 1))) [0..<16])"
  assume "encode_uuid d = Ok u"
  then have "u = (CHR ''@'' # ?h) @ [CHR 0x00]"
    by (auto simp: encode_uuid_def simp del: upt_rec_numeral upt_conv_Cons split: if_splits)
  moreover have "nul_free (CHR ''@'' # ?h)"
    by (simp add: nul_free_concat del: upt_rec_numeral)
  ultimately show "c_str u = CHR ''@'' # ?h" by (simp only: c_str_snoc_NUL)
qed

lemma length_hex_pairs: "length (concat (map (\<lambda>i. hex_pair (f i)) [0..<n])) = n * 2"
  by (induction n) (auto simp: hex_pair_def)

text \<open>A binary UUID frame is received as its 33 printable characters and sent back unchanged.\<close>

lemma uuid_part_roundtrip:
  assumes "length d = uuid_str_len" "d ! 0 = CHR 0x00"
  shows "\<exists>p. recv_part d = Ok p \<and> nul_free p \<and> length p = uuid_binary_len - 1 \<and> send_part p = Ok d"
proof -
  let ?h = "concat (map (\<lambda>i. hex_pair (d ! (i + 1))) [0..<16])"
  let ?p = "CHR ''@'' # ?h"
  have r: "recv_part d = Ok ?p"
    using assms c_str_encode [of d "CHR ''@'' # ?h @ [CHR 0x00]"]
    by (simp add: recv_part_def encode_uuid_def del: upt_rec_numeral)
  have nf: "nul_free ?p" by (simp add: nul_free_concat del: upt_rec_numeral)
  have len: "length ?p = 33" using length_hex_pairs [of "\<lambda>i. d ! (i + 1)" 16] by simp
  have pair: "unhex_pair (?p ! (i * 2 + 1)) (?p ! (i * 2 + 2)) = d ! (i + 1)" if "i < 16" for i
    using concat_pairs_nth [of "\<lambda>i. hex_pair (d ! (i + 1))" i 16] that unhex_hex_pair
    by (simp add: hex_pair_def del: upt_rec_numeral)
  have "map (\<lambda>i. unhex_pair (?p ! (i * 2 + 1)) (?p ! (i * 2 + 2))) [0..<16] = map (\<lambda>i. d ! (i + 1)) [0..<16]"
    using pair by (intro map_cong) auto
  also have "CHR 0x00 # \<dots> = d"
    using assms by (intro nth_equalityI) (auto simp: uuid_str_len_def nth_Cons split: nat.splits simp del: upt_rec_numeral)
  finally have "decode_uuid ?p = Ok d"
    using nf len by (simp add: decode_uuid_def uuid_binary_len_def del: upt_rec_numeral)
  then have "send_part ?p = Ok d"
    using len by (simp add: send_part_def uuid_binary_len_def del: upt_rec_numeral)
  moreover have "length ?p = uuid_binary_len - 1" using len by (simp only: uuid_binary_len_def)
  ultimately show ?thesis using r nf by blast
qed

lemma recv_part_Ok: "\<exists>p. recv_part d = Ok p"
proof (cases "length d = uuid_str_len \<and> d ! 0 = CHR 0x00")
  case True
  then show ?thesis using uuid_part_roundtrip by blast
next
  case False
  then have "recv_part d = Ok d" unfolding recv_part_def by (simp only: if_False)
  then show ?thesis by blast
qed

text \<open>
  Frames a peer can send that come back unchanged: every frame but one that looks like a printed
  UUID.
\<close>

definition printed_uuid :: "string \<Rightarrow> bool" where
  "printed_uuid d \<longleftrightarrow> length d = uuid_binary_len - 1 \<and> d ! 0 = CHR ''@''"

lemma send_recv_part: "\<not> printed_uuid d \<Longrightarrow> recv_part d = Ok p \<Longrightarrow> send_part p = Ok d"
proof (cases "length d = uuid_str_len \<and> d ! 0 = CHR 0x00")
  case True
  then show "recv_part d = Ok p \<Longrightarrow> send_part p = Ok d" using uuid_part_roundtrip by fastforce
next
  case False
  then show "\<not> printed_uuid d \<Longrightarrow> recv_part d = Ok p \<Longrightarrow> send_part p = Ok d"
    by (auto simp: recv_part_def send_part_def printed_uuid_def)
qed

definition frames_of :: "string list \<Rightarrow> recv_event list" where
  "frames_of fs = map (\<lambda>f. Frame f True) (butlast fs) @ [Frame (last fs) False]"

lemma frames_of_Cons: "fs \<noteq> [] \<Longrightarrow> frames_of (f # fs) = Frame f True # frames_of fs"
  by (simp add: frames_of_def)

lemma recv_loop_frames:
  "fs \<noteq> [] \<Longrightarrow> (\<forall>f \<in> set fs. \<not> printed_uuid f) \<Longrightarrow>
   \<exists>m. recv_loop acc (frames_of fs) = Some (Ok (True, acc @ m)) \<and> length m = length fs \<and> send m = Ok fs"
proof (induction fs arbitrary: acc)
  case (Cons f fs)
  obtain p where p: "recv_part f = Ok p" using recv_part_Ok by blast
  with Cons.prems have sp: "send_part p = Ok f" by (auto intro: send_recv_part)
  show ?case
  proof (cases "fs = []")
    case True
    with p sp show ?thesis by (auto simp: frames_of_def)
  next
    case False
    with Cons.IH [of "acc @ [p]"] Cons.prems obtain m where
      "recv_loop (acc @ [p]) (frames_of fs) = Some (Ok (True, acc @ p # m))" "length m = length fs" "send m = Ok fs"
      by auto
    with p sp False show ?thesis
      by (intro exI [of _ "p # m"]) (simp add: frames_of_Cons)
  qed
qed simp

lemma unwrap_wrap [wire_simps]: "nul_free a \<Longrightarrow> unwrap (wrap a (Some []) m) = (a, m)"
  by (simp add: unwrap_def wrap_def push_front_def address_def)

lemma pop_push [wire_simps]: "pop_front (push_front p m) = (c_str p, m)"
  by (simp add: push_front_def)

lemma wrap_not_Nil [simp]: "wrap a d m \<noteq> []" "[] \<noteq> wrap a d m"
  by (simp_all add: wrap_def push_front_def)

lemma push_not_Nil [simp]: "push_front a m \<noteq> []" "[] \<noteq> push_front a m"
  by (simp_all add: push_front_def)

lemma body_wrap [wire_simps]: "m \<noteq> [] \<Longrightarrow> body (wrap a d m) = body m"
  by (simp add: body_def wrap_def push_front_def split: option.splits)

lemma body_push [wire_simps]: "m \<noteq> [] \<Longrightarrow> body (push_front a m) = body m"
  by (simp add: body_def push_front_def)

lemma body_body_set [wire_simps]: "body (body_set b m) = Some (c_str b)"
  by (simp add: body_def body_set_def emplace_back_def)

lemma parts_wrap [wire_simps]: "parts (wrap a (Some d) m) = parts m + 2"
  by (simp add: parts_def wrap_def push_front_def)

text \<open>A message all of whose parts are free of NUL and of printed UUIDs is sent as it is.\<close>

definition plain_part :: "string \<Rightarrow> bool" where
  "plain_part p \<longleftrightarrow> \<not> printed_uuid p"

lemma send_plain: "\<forall>p \<in> set m. plain_part p \<Longrightarrow> send m = Ok m"
  by (induction m) (auto simp: send_part_def plain_part_def printed_uuid_def)

text \<open>Sending fails only where a part looks like a printed UUID and holds a NUL.\<close>

lemma send_part_Ok: "nul_free p \<Longrightarrow> \<exists>f. send_part p = Ok f"
  by (auto simp: send_part_def decode_uuid_def)

lemma send_Ok: "\<forall>p \<in> set m. nul_free p \<Longrightarrow> \<exists>fs. send m = Ok fs \<and> length fs = length m"
proof (induction m)
  case (Cons p m)
  then obtain fs where "send m = Ok fs" "length fs = length m" by auto
  moreover obtain f where "send_part p = Ok f" using Cons.prems send_part_Ok by auto
  ultimately show ?case by simp
qed simp

section \<open>Messages without NUL\<close>

definition clean_msg :: "zmsg \<Rightarrow> bool" where
  "clean_msg m \<longleftrightarrow> (\<forall>p \<in> set m. nul_free p)"

definition sent :: "zmsg \<Rightarrow> string list" where
  "sent m = (case send m of Ok fs \<Rightarrow> fs | Throw \<Rightarrow> [] | Abort \<Rightarrow> [] | UB \<Rightarrow> [])"

lemma clean_msg_simps [simp]:
  "clean_msg []" "clean_msg (p # m) \<longleftrightarrow> nul_free p \<and> clean_msg m"
  "clean_msg (push_front p m) = clean_msg m" "clean_msg (wrap a d m) = clean_msg m"
  "clean_msg (body_set t [])"
  by (auto simp: clean_msg_def push_front_def wrap_def body_set_def emplace_back_def split: option.splits)

lemma send_clean: "clean_msg m \<Longrightarrow> send m = Ok (sent m)"
  using send_Ok [of m] by (auto simp: clean_msg_def sent_def)

lemma clean_pop: "clean_msg m \<Longrightarrow> pop_front m = (p, m') \<Longrightarrow> clean_msg m' \<and> nul_free p"
  by (cases m) auto

lemma clean_snd_pop: "clean_msg m \<Longrightarrow> clean_msg (snd (pop_front m))"
  by (cases m) auto

lemma clean_unwrap: "clean_msg m \<Longrightarrow> unwrap m = (c, m') \<Longrightarrow> clean_msg m'"
  by (cases m) (auto simp: unwrap_def Let_def clean_snd_pop split: if_splits)

text \<open>
  Frames without NUL, which excludes the binary identities a socket makes up itself, are
  received as they are.
\<close>

definition clean_frames :: "string list \<Rightarrow> bool" where
  "clean_frames fs \<longleftrightarrow> fs \<noteq> [] \<and> (\<forall>f \<in> set fs. nul_free f)"

lemma recv_clean: "clean_frames fs \<Longrightarrow> recv (frames_of fs) = Some (Ok (True, fs))"
proof -
  have one: "recv_part f = Ok f" if "nul_free f" for f
    using that by (cases f) (auto simp: recv_part_def uuid_str_len_def)
  have "fs \<noteq> [] \<Longrightarrow> \<forall>f \<in> set fs. nul_free f \<Longrightarrow> recv_loop acc (frames_of fs) = Some (Ok (True, acc @ fs))" for acc
  proof (induction fs arbitrary: acc)
    case (Cons f fs)
    then show ?case
      by (cases "fs = []") (simp_all add: one frames_of_def [of "[f]"] frames_of_Cons)
  qed simp
  then show "clean_frames fs \<Longrightarrow> ?thesis" by (simp add: recv_def clean_frames_def)
qed

lemma clean_drop: "clean_frames fs \<Longrightarrow> clean_msg (drop n fs)"
  by (auto simp: clean_frames_def clean_msg_def dest: in_set_dropD)

lemma body_drop: "clean_frames fs \<Longrightarrow> n < length fs \<Longrightarrow> body (drop n fs) = Some (last fs)"
  by (simp add: body_def clean_frames_def)

section \<open>Properties\<close>



text \<open>
  The short form of \<open>to_str\<close> (body only, not full) is the full printout for a body of at
  least 30 bytes, and reads past the end of the body for every shorter one: the bound is the
  maximum of 30 and the length where the minimum is meant.
\<close>

theorem to_str_short_form:
  "to_str False True False (m @ [d]) = (if length d < 30 then UB else to_str False True True (m @ [d]))"
  by (simp add: to_str_def part_print_def Let_def max_def)

end
