(* ===== verification/Worker_Container.thy ===== *)
theory Worker_Container
  imports Cdcm_Prelude
begin

text \<open>
  \<open>src/src/frontend/worker_container.hpp\<close>: the broker's table of workers, a
  \<open>boost::multi_index_container\<close> of shared worker objects with five indices. The model keeps
  the elements as a list. What an index yields is what its documentation promises; which one of
  several elements with an equivalent key a non-unique index yields is the parameter
  \<open>pick\<close>. Time points are milliseconds, \<open>now\<close> is \<open>system_clock::now()\<close>.
\<close>

record worker =
  identity :: string
  expiry :: int
  last_worked_session :: string
  idle :: bool

record worker_container =
  cont :: "worker list"
  heartbeat_expiry :: int

definition new_worker :: "string \<Rightarrow> worker" where
  "new_worker i = \<lparr>identity = i, expiry = 0, last_worked_session = ''N/A'', idle = True\<rparr>"

definition empty_workers :: "int \<Rightarrow> worker_container" where
  "empty_workers secs = \<lparr>cont = [], heartbeat_expiry = secs * 1000\<rparr>"

definition exists :: "string \<Rightarrow> worker_container \<Rightarrow> bool" where
  "exists i C = (lookup_by identity i (cont C) \<noteq> None)"

definition get_worker :: "string \<Rightarrow> worker_container \<Rightarrow> worker option" where
  "get_worker i C = lookup_by identity i (cont C)"

text \<open>The expiration index is ordered by \<open>std::greater\<close>: it begins with the latest expiry.\<close>

definition newest :: "worker list \<Rightarrow> worker list" where
  "newest ws = filter (\<lambda>w. list_all (\<lambda>v. expiry v \<le> expiry w) ws) ws"

definition get_next_worker :: "(worker list \<Rightarrow> worker) \<Rightarrow> worker_container \<Rightarrow> worker option" where
  "get_next_worker pick C = (if cont C = [] then None else Some (pick (newest (cont C))))"

definition get_by_last_worked_session ::
  "(worker list \<Rightarrow> worker) \<Rightarrow> string \<Rightarrow> worker_container \<Rightarrow> worker option" where
  "get_by_last_worked_session pick sid C =
     (let ws = filter (\<lambda>w. last_worked_session w = sid) (cont C)
      in if ws = [] then None else Some (pick ws))"

definition insert_worker :: "int \<Rightarrow> worker \<Rightarrow> worker_container \<Rightarrow> worker_container" where
  "insert_worker now w C = C\<lparr>cont := insert_by identity (w\<lparr>expiry := now + heartbeat_expiry C\<rparr>) (cont C)\<rparr>"

definition erase_worker :: "string \<Rightarrow> worker_container \<Rightarrow> bool \<times> worker_container" where
  "erase_worker i C =
     (if lookup_by identity i (cont C) = None then (False, C)
      else (True, C\<lparr>cont := erase_by identity i (cont C)\<rparr>))"

definition is_idle :: "string \<Rightarrow> worker_container \<Rightarrow> bool" where
  "is_idle i C = list_ex (\<lambda>w. identity w = i \<and> idle w) (cont C)"

definition is_busy :: "string \<Rightarrow> worker_container \<Rightarrow> bool" where
  "is_busy i C = (\<not> is_idle i C)"

definition modify_idle :: "string \<Rightarrow> bool \<Rightarrow> worker_container \<Rightarrow> bool \<times> worker_container" where
  "modify_idle i modify_to C =
     (if list_ex (\<lambda>w. identity w = i \<and> idle w = (\<not> modify_to)) (cont C)
      then (True, C\<lparr>cont := modify_by identity i (\<lambda>w. w\<lparr>idle := modify_to\<rparr>) (cont C)\<rparr>)
      else if lookup_by identity i (cont C) = None then (False, C)
      else (True, C))"

definition set_idle :: "string \<Rightarrow> worker_container \<Rightarrow> bool \<times> worker_container" where
  "set_idle i C = modify_idle i True C"

definition set_busy :: "string \<Rightarrow> worker_container \<Rightarrow> bool \<times> worker_container" where
  "set_busy i C = modify_idle i False C"

text \<open>\<open>modify\<close> through the end iterator of an unknown identity is undefined.\<close>

definition update_last_worked :: "string \<Rightarrow> string \<Rightarrow> worker_container \<Rightarrow> (bool \<times> worker_container) outcome" where
  "update_last_worked i sid C =
     (if lookup_by identity i (cont C) = None then UB
      else Ok (True, C\<lparr>cont := modify_by identity i (\<lambda>w. w\<lparr>last_worked_session := sid\<rparr>) (cont C)\<rparr>))"

definition idle_workers :: "worker_container \<Rightarrow> worker list" where
  "idle_workers C = filter idle (cont C)"

definition update_expiration :: "int \<Rightarrow> string \<Rightarrow> worker_container \<Rightarrow> (bool \<times> worker_container) outcome" where
  "update_expiration now i C =
     (if lookup_by identity i (cont C) = None then UB
      else Ok (True, C\<lparr>cont := modify_by identity i (\<lambda>w. w\<lparr>expiry := now + heartbeat_expiry C\<rparr>) (cont C)\<rparr>))"

section \<open>Invariant\<close>

definition workers_ok :: "worker_container \<Rightarrow> bool" where
  "workers_ok C \<longleftrightarrow> unique_by identity (cont C)"

definition known :: "worker_container \<Rightarrow> string set" where
  "known C = identity ` set (cont C)"

lemma exists_known: "exists i C \<longleftrightarrow> i \<in> known C"
  by (simp add: exists_def known_def lookup_by_None)

lemma get_worker_known: "get_worker i C \<noteq> None \<longleftrightarrow> i \<in> known C"
  by (simp add: get_worker_def known_def lookup_by_None)

lemma lookup_worker_None: "lookup_by identity i (cont C) = None \<longleftrightarrow> i \<notin> known C"
  by (simp add: known_def lookup_by_None)

lemma workers_ok_ops [simp]:
  "workers_ok (empty_workers s)"
  "workers_ok C \<Longrightarrow> workers_ok (insert_worker now w C)"
  "workers_ok C \<Longrightarrow> workers_ok (snd (erase_worker i C))"
  "workers_ok C \<Longrightarrow> workers_ok (snd (modify_idle i b C))"
  by (auto simp: workers_ok_def empty_workers_def insert_worker_def erase_worker_def modify_idle_def
      unique_insert_by unique_erase_by unique_modify_by unique_by_def [of identity "[]"] split: if_splits)

lemma workers_ok_update:
  "workers_ok C \<Longrightarrow> update_last_worked i sid C = Ok (r, C') \<Longrightarrow> workers_ok C'"
  "workers_ok C \<Longrightarrow> update_expiration now i C = Ok (r, C') \<Longrightarrow> workers_ok C'"
  by (auto simp: workers_ok_def update_last_worked_def update_expiration_def unique_modify_by split: if_splits)

lemma known_modify: "(\<And>w. identity (g w) = identity w) \<Longrightarrow>
  known (C\<lparr>cont := modify_by identity i g (cont C)\<rparr>) = known C"
  by (simp add: known_def keys_modify_by)

lemma known_empty [simp]: "known (empty_workers s) = {}"
  by (simp add: known_def empty_workers_def)

lemma known_insert [simp]: "known (insert_worker now w C) = insert (identity w) (known C)"
  by (simp add: known_def insert_worker_def keys_insert_by)

lemma known_modify_idle [simp]: "known (snd (modify_idle i b C)) = known C"
  by (simp add: modify_idle_def known_modify)

lemma known_update:
  "update_last_worked i sid C = Ok (r, C') \<Longrightarrow> known C' = known C"
  "update_expiration now i C = Ok (r, C') \<Longrightarrow> known C' = known C"
  by (auto simp: update_last_worked_def update_expiration_def known_modify split: if_splits)

lemma known_erase [simp]: "known (snd (erase_worker i C)) = known C - {i}"
  by (auto simp: erase_worker_def known_def keys_erase_by lookup_by_None)

lemma newest_nonempty: "ws \<noteq> [] \<Longrightarrow> newest ws \<noteq> []"
  using max_key_exists [of ws expiry] by (auto simp: newest_def filter_empty_conv list_all_iff)

lemma get_next_worker_in:
  assumes "tie_choice pick" "get_next_worker pick C = Some w"
  shows "w \<in> set (cont C) \<and> (\<forall>v \<in> set (cont C). expiry v \<le> expiry w)"
proof -
  from assms(2) have "cont C \<noteq> []" and w: "w = pick (newest (cont C))"
    by (auto simp: get_next_worker_def split: if_splits)
  then have "w \<in> set (newest (cont C))"
    using assms(1) newest_nonempty by (simp add: tie_choice_def)
  then show ?thesis by (simp add: newest_def list_all_iff)
qed

lemma get_by_last_worked_in:
  assumes "tie_choice pick" "get_by_last_worked_session pick sid C = Some w"
  shows "w \<in> set (cont C) \<and> last_worked_session w = sid"
proof -
  let ?ws = "filter (\<lambda>w. last_worked_session w = sid) (cont C)"
  from assms(2) have "?ws \<noteq> []" "w = pick ?ws"
    by (auto simp: get_by_last_worked_session_def Let_def split: if_splits)
  with assms(1) have "w \<in> set ?ws" unfolding tie_choice_def by blast
  then show ?thesis by simp
qed

lemma get_worker_insert:
  "get_worker i (insert_worker now w C) =
   (if i = identity w \<and> get_worker i C = None then Some (w\<lparr>expiry := now + heartbeat_expiry C\<rparr>) else get_worker i C)"
  by (auto simp: get_worker_def insert_worker_def lookup_insert_by)

lemma get_worker_erase:
  "get_worker i (snd (erase_worker j C)) = (if i = j then None else get_worker i C)"
  by (auto simp: get_worker_def erase_worker_def lookup_erase_by)

lemma get_worker_identity: "get_worker i C = Some w \<Longrightarrow> identity w = i"
  unfolding get_worker_def by (drule lookup_by_Some_key) simp

interpretation wc: keyed_store identity workers_ok "\<lambda>_ _. True" get_worker "insert_worker now" "\<lambda>i C. snd (erase_worker i C)"
  for now
  by unfold_locales (auto simp: get_worker_insert get_worker_erase dest: get_worker_identity)

lemma get_worker_modify:
  "(\<And>w. identity (g w) = identity w) \<Longrightarrow>
   get_worker i (C\<lparr>cont := modify_by identity j g (cont C)\<rparr>) =
     (if i = j then map_option g (get_worker i C) else get_worker i C)"
  by (simp add: get_worker_def lookup_modify_by)

lemma is_idle_get: "workers_ok C \<Longrightarrow> is_idle i C \<longleftrightarrow> (\<exists>w. get_worker i C = Some w \<and> idle w)"
  by (auto simp: is_idle_def workers_ok_def get_worker_def list_ex_iff lookup_by_unique_iff)

lemma get_modify_idle:
  "get_worker j (snd (modify_idle i b C)) =
   (if j = i then map_option (\<lambda>w. w\<lparr>idle := b\<rparr>) (get_worker i C) else get_worker j C)"
proof (cases "list_ex (\<lambda>w. identity w = i \<and> idle w = (\<not> b)) (cont C)")
  case True
  then have "snd (modify_idle i b C) = C\<lparr>cont := modify_by identity i (\<lambda>w. w\<lparr>idle := b\<rparr>) (cont C)\<rparr>"
    by (simp add: modify_idle_def)
  then show ?thesis by (simp add: get_worker_modify)
next
  case False
  then have same: "snd (modify_idle i b C) = C" by (simp add: modify_idle_def)
  have "w\<lparr>idle := b\<rparr> = w" if "get_worker i C = Some w" for w
  proof -
    from that have "identity w = i \<and> w \<in> set (cont C)"
      unfolding get_worker_def by (rule lookup_by_Some_key)
    with False have "idle w = b" by (auto simp: list_ex_iff)
    then show ?thesis by simp
  qed
  with same show ?thesis by (cases "get_worker i C") simp_all
qed

lemma fst_modify_idle: "fst (modify_idle i b C) = exists i C"
  by (auto simp: modify_idle_def exists_def list_ex_iff lookup_by_None)

definition container_step :: "int \<Rightarrow> (worker, string) store_op \<Rightarrow> worker_container \<Rightarrow> worker_container" where
  "container_step now = store_step (insert_worker now) (\<lambda>i C. snd (erase_worker i C))"

section \<open>Properties\<close>

text \<open>
  Setting a worker idle or busy: the call succeeds exactly for a known worker; afterwards
  that worker is in the requested state, no other worker's state changed, and the set of
  workers is the same.
\<close>

theorem modify_idle_correct:
  assumes "workers_ok C"
  shows "fst (modify_idle i b C) = exists i C
    \<and> (exists i C \<longrightarrow> is_idle i (snd (modify_idle i b C)) = b)
    \<and> (\<forall>j. j \<noteq> i \<longrightarrow> get_worker j (snd (modify_idle i b C)) = get_worker j C)
    \<and> known (snd (modify_idle i b C)) = known C"
  using assms by (auto simp: is_idle_get get_modify_idle fst_modify_idle exists_known get_worker_known [symmetric])

theorem modify_idle_correct_witness:
  "fst (modify_idle ''w1'' False \<lparr>cont = [new_worker ''w1'', new_worker ''w2''], heartbeat_expiry = 3000\<rparr>)"
  using modify_idle_correct [of "\<lparr>cont = [new_worker ''w1'', new_worker ''w2''], heartbeat_expiry = 3000\<rparr>" "''w1''" False]
  by (simp add: workers_ok_def unique_by_def new_worker_def exists_def lookup_by_def)



end
