(* ===== verification/Dispatcher.thy ===== *)
theory Dispatcher
  imports Protocol
begin

text \<open>
  \<open>src/src/common/dispatcher.hpp\<close> and \<open>action.hpp\<close>: the registry that maps a name to an
  object, and the interface of an action. The same template holds the actions
  (\<open>public_dispatcher\<close>) and the configurations (\<open>service_conf_repository\<close>).
\<close>

datatype action_status = FAILED | SUCCEEDED | POSTPONED

type_synonym 't dispatcher = "string \<rightharpoonup> 't"

definition empty_dispatcher :: "'t dispatcher" where
  "empty_dispatcher = Map.empty"

definition register1 :: "('t \<Rightarrow> string) \<Rightarrow> 't \<Rightarrow> 't dispatcher \<Rightarrow> 't dispatcher" where
  "register1 name t d = d(name t \<mapsto> t)"

definition dfind :: "string \<Rightarrow> 't dispatcher \<Rightarrow> 't option" where
  "dfind n d = (case d n of None \<Rightarrow> None | Some t \<Rightarrow> Some t)"

definition dhas :: "string \<Rightarrow> 't dispatcher \<Rightarrow> bool" where
  "dhas n d = (d n \<noteq> None)"

text \<open>\<open>find_as\<close>: the entry under the type's own name, if the dynamic cast to that type succeeds.\<close>

definition dfind_as :: "string \<Rightarrow> ('t \<Rightarrow> 'u option) \<Rightarrow> 't dispatcher \<Rightarrow> 'u option" where
  "dfind_as srv_name cast d = (case d srv_name of None \<Rightarrow> None | Some t \<Rightarrow> cast t)"

definition register_all :: "('t \<Rightarrow> string) \<Rightarrow> 't list \<Rightarrow> 't dispatcher \<Rightarrow> 't dispatcher" where
  "register_all name ts d = fold (register1 name) ts d"

lemma dfind_empty: "dfind n empty_dispatcher = None"
  by (simp add: dfind_def empty_dispatcher_def)

lemma dfind_register1: "dfind n (register1 name t d) = (if n = name t then Some t else dfind n d)"
  by (simp add: dfind_def register1_def)

lemma dhas_iff: "dhas n d \<longleftrightarrow> dfind n d \<noteq> None"
  by (auto simp: dhas_def dfind_def split: option.splits)

lemma dfind_register_all:
  "dfind n (register_all name ts d) =
     (case find (\<lambda>t. name t = n) (rev ts) of Some t \<Rightarrow> Some t | None \<Rightarrow> dfind n d)"
proof (induction ts arbitrary: d)
  case (Cons t ts)
  have snoc: "find P (xs @ [y]) = (case find P xs of Some z \<Rightarrow> Some z | None \<Rightarrow> if P y then Some y else None)"
    for P and xs :: "'a list" and y by (induction xs) auto
  from Cons.IH [of "register1 name t d"] show ?case
    by (auto simp: register_all_def dfind_register1 snoc split: option.splits)
qed (simp add: register_all_def)

lemma name_of_find: "find (\<lambda>t. name t = n) ts = Some t \<Longrightarrow> name t = n \<and> t \<in> set ts"
  by (induction ts) (auto split: if_splits)

text \<open>
  A registry whose entries sit under their own names; the interface the message loops rely on.
\<close>

definition named_ok :: "('t \<Rightarrow> string) \<Rightarrow> 't dispatcher \<Rightarrow> bool" where
  "named_ok name d \<longleftrightarrow> (\<forall>n t. d n = Some t \<longrightarrow> name t = n)"

definition unregister :: "string \<Rightarrow> 't dispatcher \<Rightarrow> 't dispatcher" where
  "unregister n d = d(n := None)"

interpretation disp: keyed_store name "named_ok name" "\<lambda>_ _. True" dfind "register1 name" unregister
  for name :: "'t \<Rightarrow> string"
  by unfold_locales (auto simp: named_ok_def dfind_def register1_def unregister_def split: option.splits if_splits)

section \<open>Properties\<close>

text \<open>
  Plugin registration: after any sequence of registrations a lookup by name returns the
  last object registered under that name, and nothing for a name never registered.
\<close>

theorem registered_last_wins:
  "dfind n (register_all name ts empty_dispatcher) = find (\<lambda>t. name t = n) (rev ts)"
  using dfind_register_all [of n name ts empty_dispatcher]
  by (simp add: empty_dispatcher_def dfind_def [of n Map.empty] split: option.splits)

end
