(* ===== verification/Action_Messages.thy ===== *)
theory Action_Messages
  imports Dispatcher
begin

text \<open>
  The request messages of the actions and their JSON readers (the \<open>traits<...>::as\<close> functions
  of the action headers). The class hierarchy below \<open>action_msg\<close> is one datatype; an action's
  \<open>dynamic_pointer_cast\<close> to its own message class is a match on the constructor.
\<close>

datatype action_msg =
    Start_session_msg string string string string string string
  | Close_session_msg string
  | Get_cdcm_info_msg string string
  | Enum_key_msg string string
  | Enumerate_registry_values_msg string string
  | Get_registry_permissions_msg string string
  | Key_exists_msg string string
  | Query_value_msg string string string
  | Value_exists_msg string string string
  | File_exists_msg string string
  | Get_file_info_msg string string
  | List_dir_msg string string string
  | Read_file_msg string string string string
  | Ntfs_file_permissions_msg string string
  | Ntfs_folder_permissions_msg string string
  | Share_permissions_msg string string
  | Enumerate_shares_msg string

fun action_id :: "action_msg \<Rightarrow> string" where
  "action_id (Start_session_msg i _ _ _ _ _) = i"
| "action_id (Close_session_msg i) = i"
| "action_id (Get_cdcm_info_msg i _) = i"
| "action_id (Enum_key_msg i _) = i"
| "action_id (Enumerate_registry_values_msg i _) = i"
| "action_id (Get_registry_permissions_msg i _) = i"
| "action_id (Key_exists_msg i _) = i"
| "action_id (Query_value_msg i _ _) = i"
| "action_id (Value_exists_msg i _ _) = i"
| "action_id (File_exists_msg i _) = i"
| "action_id (Get_file_info_msg i _) = i"
| "action_id (List_dir_msg i _ _) = i"
| "action_id (Read_file_msg i _ _ _) = i"
| "action_id (Ntfs_file_permissions_msg i _) = i"
| "action_id (Ntfs_folder_permissions_msg i _) = i"
| "action_id (Share_permissions_msg i _) = i"
| "action_id (Enumerate_shares_msg i) = i"

text \<open>The \<open>act_name\<close> of the message class.\<close>

fun action_name :: "action_msg \<Rightarrow> string" where
  "action_name (Start_session_msg _ _ _ _ _ _) = ''start_session''"
| "action_name (Close_session_msg _) = ''close_session''"
| "action_name (Get_cdcm_info_msg _ _) = ''get_cdcm_info''"
| "action_name (Enum_key_msg _ _) = ''enumerate''"
| "action_name (Enumerate_registry_values_msg _ _) = ''enumerate_registry_values''"
| "action_name (Get_registry_permissions_msg _ _) = ''get_registry_permissions''"
| "action_name (Key_exists_msg _ _) = ''key_exists''"
| "action_name (Query_value_msg _ _ _) = ''query_value''"
| "action_name (Value_exists_msg _ _ _) = ''value_exists''"
| "action_name (File_exists_msg _ _) = ''file_exists''"
| "action_name (Get_file_info_msg _ _) = ''get_file_info''"
| "action_name (List_dir_msg _ _ _) = ''list_dir''"
| "action_name (Read_file_msg _ _ _ _) = ''read_file''"
| "action_name (Ntfs_file_permissions_msg _ _) = ''get_ntfs_file_permissions''"
| "action_name (Ntfs_folder_permissions_msg _ _) = ''get_ntfs_folder_permissions''"
| "action_name (Share_permissions_msg _ _) = ''get_share_permissions''"
| "action_name (Enumerate_shares_msg _) = ''enumerate_shares''"

text \<open>The readers: the members of the action object, in the order they are read.\<close>

definition start_session_msg_as :: "json \<Rightarrow> action_msg outcome" where
  "start_session_msg_as v =
     bind_o (json_at v ''start_session'') (\<lambda>obj.
     bind_o (string_field obj ''id'') (\<lambda>id_v.
     bind_o (string_field obj ''remote'') (\<lambda>remote_v.
     bind_o (string_field obj ''domain'') (\<lambda>domain_v.
     bind_o (string_field obj ''username'') (\<lambda>username_v.
     bind_o (string_field obj ''password'') (\<lambda>password_v.
     bind_o (string_field obj ''workstation'') (\<lambda>workstation_v.
       Ok (Start_session_msg id_v remote_v domain_v username_v password_v workstation_v))))))))"

definition close_session_msg_as :: "json \<Rightarrow> action_msg outcome" where
  "close_session_msg_as v =
     bind_o (json_at v ''close_session'') (\<lambda>obj.
     bind_o (string_field obj ''id'') (\<lambda>id_v.
       Ok (Close_session_msg id_v)))"

definition get_cdcm_info_msg_as :: "json \<Rightarrow> action_msg outcome" where
  "get_cdcm_info_msg_as v =
     bind_o (json_at v ''get_cdcm_info'') (\<lambda>obj.
     bind_o (string_field obj ''id'') (\<lambda>id_v.
     bind_o (string_field obj ''what'') (\<lambda>what_v.
       Ok (Get_cdcm_info_msg id_v what_v))))"

definition enum_key_msg_as :: "json \<Rightarrow> action_msg outcome" where
  "enum_key_msg_as v =
     bind_o (json_at v ''enumerate'') (\<lambda>obj.
     bind_o (string_field obj ''id'') (\<lambda>id_v.
     bind_o (string_field obj ''key'') (\<lambda>key_v.
       Ok (Enum_key_msg id_v key_v))))"

definition enumerate_registry_values_msg_as :: "json \<Rightarrow> action_msg outcome" where
  "enumerate_registry_values_msg_as v =
     bind_o (json_at v ''enumerate_registry_values'') (\<lambda>obj.
     bind_o (string_field obj ''id'') (\<lambda>id_v.
     bind_o (string_field obj ''key'') (\<lambda>key_v.
       Ok (Enumerate_registry_values_msg id_v key_v))))"

definition get_registry_permissions_msg_as :: "json \<Rightarrow> action_msg outcome" where
  "get_registry_permissions_msg_as v =
     bind_o (json_at v ''get_registry_permissions'') (\<lambda>obj.
     bind_o (string_field obj ''id'') (\<lambda>id_v.
     bind_o (string_field obj ''key'') (\<lambda>key_v.
       Ok (Get_registry_permissions_msg id_v key_v))))"

definition key_exists_msg_as :: "json \<Rightarrow> action_msg outcome" where
  "key_exists_msg_as v =
     bind_o (json_at v ''key_exists'') (\<lambda>obj.
     bind_o (string_field obj ''id'') (\<lambda>id_v.
     bind_o (string_field obj ''key'') (\<lambda>key_v.
       Ok (Key_exists_msg id_v key_v))))"

definition query_value_msg_as :: "json \<Rightarrow> action_msg outcome" where
  "query_value_msg_as v =
     bind_o (json_at v ''query_value'') (\<lambda>obj.
     bind_o (string_field obj ''id'') (\<lambda>id_v.
     bind_o (string_field obj ''key'') (\<lambda>key_v.
     bind_o (string_field obj ''value'') (\<lambda>value_v.
       Ok (Query_value_msg id_v key_v value_v)))))"

definition value_exists_msg_as :: "json \<Rightarrow> action_msg outcome" where
  "value_exists_msg_as v =
     bind_o (json_at v ''value_exists'') (\<lambda>obj.
     bind_o (string_field obj ''id'') (\<lambda>id_v.
     bind_o (string_field obj ''key'') (\<lambda>key_v.
     bind_o (string_field obj ''value'') (\<lambda>value_v.
       Ok (Value_exists_msg id_v key_v value_v)))))"

definition file_exists_msg_as :: "json \<Rightarrow> action_msg outcome" where
  "file_exists_msg_as v =
     bind_o (json_at v ''file_exists'') (\<lambda>obj.
     bind_o (string_field obj ''id'') (\<lambda>id_v.
     bind_o (string_field obj ''path'') (\<lambda>path_v.
       Ok (File_exists_msg id_v path_v))))"

definition get_file_info_msg_as :: "json \<Rightarrow> action_msg outcome" where
  "get_file_info_msg_as v =
     bind_o (json_at v ''get_file_info'') (\<lambda>obj.
     bind_o (string_field obj ''id'') (\<lambda>id_v.
     bind_o (string_field obj ''path'') (\<lambda>path_v.
       Ok (Get_file_info_msg id_v path_v))))"

definition list_dir_msg_as :: "json \<Rightarrow> action_msg outcome" where
  "list_dir_msg_as v =
     bind_o (json_at v ''list_dir'') (\<lambda>obj.
     bind_o (string_field obj ''id'') (\<lambda>id_v.
     bind_o (string_field obj ''path'') (\<lambda>path_v.
     bind_o (string_field obj ''pattern'') (\<lambda>pattern_v.
       Ok (List_dir_msg id_v path_v pattern_v)))))"

definition read_file_msg_as :: "json \<Rightarrow> action_msg outcome" where
  "read_file_msg_as v =
     bind_o (json_at v ''read_file'') (\<lambda>obj.
     bind_o (string_field obj ''id'') (\<lambda>id_v.
     bind_o (string_field obj ''path'') (\<lambda>path_v.
     bind_o (string_field obj ''size'') (\<lambda>size_v.
     bind_o (string_field obj ''offset'') (\<lambda>offset_v.
       Ok (Read_file_msg id_v path_v size_v offset_v))))))"

definition ntfs_file_permissions_msg_as :: "json \<Rightarrow> action_msg outcome" where
  "ntfs_file_permissions_msg_as v =
     bind_o (json_at v ''get_ntfs_file_permissions'') (\<lambda>obj.
     bind_o (string_field obj ''id'') (\<lambda>id_v.
     bind_o (string_field obj ''path'') (\<lambda>path_v.
       Ok (Ntfs_file_permissions_msg id_v path_v))))"

definition ntfs_folder_permissions_msg_as :: "json \<Rightarrow> action_msg outcome" where
  "ntfs_folder_permissions_msg_as v =
     bind_o (json_at v ''get_ntfs_folder_permissions'') (\<lambda>obj.
     bind_o (string_field obj ''id'') (\<lambda>id_v.
     bind_o (string_field obj ''path'') (\<lambda>path_v.
       Ok (Ntfs_folder_permissions_msg id_v path_v))))"

definition share_permissions_msg_as :: "json \<Rightarrow> action_msg outcome" where
  "share_permissions_msg_as v =
     bind_o (json_at v ''get_share_permissions'') (\<lambda>obj.
     bind_o (string_field obj ''id'') (\<lambda>id_v.
     bind_o (string_field obj ''share_name'') (\<lambda>share_name_v.
       Ok (Share_permissions_msg id_v share_name_v))))"

definition enumerate_shares_msg_as :: "json \<Rightarrow> action_msg outcome" where
  "enumerate_shares_msg_as v =
     bind_o (json_at v ''enumerate_shares'') (\<lambda>obj.
     bind_o (string_field obj ''id'') (\<lambda>id_v.
       Ok (Enumerate_shares_msg id_v)))"

lemmas action_as_defs = start_session_msg_as_def close_session_msg_as_def get_cdcm_info_msg_as_def enum_key_msg_as_def enumerate_registry_values_msg_as_def get_registry_permissions_msg_as_def key_exists_msg_as_def query_value_msg_as_def value_exists_msg_as_def file_exists_msg_as_def get_file_info_msg_as_def list_dir_msg_as_def read_file_msg_as_def ntfs_file_permissions_msg_as_def ntfs_folder_permissions_msg_as_def share_permissions_msg_as_def enumerate_shares_msg_as_def

text \<open>
  The reader for an action name, as the action object registered under that name applies it.
\<close>

definition readers :: "(string \<times> (json \<Rightarrow> action_msg outcome)) list" where
  "readers =
    [(''start_session'', start_session_msg_as),
     (''close_session'', close_session_msg_as),
     (''get_cdcm_info'', get_cdcm_info_msg_as),
     (''enumerate'', enum_key_msg_as),
     (''enumerate_registry_values'', enumerate_registry_values_msg_as),
     (''get_registry_permissions'', get_registry_permissions_msg_as),
     (''key_exists'', key_exists_msg_as),
     (''query_value'', query_value_msg_as),
     (''value_exists'', value_exists_msg_as),
     (''file_exists'', file_exists_msg_as),
     (''get_file_info'', get_file_info_msg_as),
     (''list_dir'', list_dir_msg_as),
     (''read_file'', read_file_msg_as),
     (''get_ntfs_file_permissions'', ntfs_file_permissions_msg_as),
     (''get_ntfs_folder_permissions'', ntfs_folder_permissions_msg_as),
     (''get_share_permissions'', share_permissions_msg_as),
     (''enumerate_shares'', enumerate_shares_msg_as)]"

lemma soft_readers: "(n, rd) \<in> set readers \<Longrightarrow> soft (rd v)"
  by (auto simp: readers_def action_as_defs intro!: soft_bind)

section \<open>Properties\<close>

text \<open>
  Whatever the request, a reader that succeeds read the action's object under its own name,
  and the identifier of the message is that object's \<open>id\<close>: responses carry the identifier
  the client chose.
\<close>

theorem reader_keeps_id:
  assumes "(name, rd) \<in> set readers" and "rd v = Ok m"
  shows "\<exists>obj. json_at v name = Ok obj \<and> string_field obj ''id'' = Ok (action_id m)"
  using assms by (auto simp: readers_def action_as_defs bind_o_Ok_iff)

theorem reader_keeps_id_witness:
  "\<exists>obj. json_at (JObj [(''close_session'', JObj [(''id'', JStr ''7'')])]) ''close_session'' = Ok obj
     \<and> string_field obj ''id'' = Ok (action_id (Close_session_msg ''7''))"
  by (rule reader_keeps_id [of _ close_session_msg_as])
    (simp_all add: readers_def close_session_msg_as_def json_at_def string_field_def map_at_def)

end
