(* ===== verification/Session_Cache.thy ===== *)
theory Session_Cache
  imports Cdcm_Prelude "HOL-Library.Word"
begin

text \<open>
  \<open>src/src/common/session.*\<close>, \<open>credentials.*\<close> and
  \<open>src/src/common/sessions_cache/shared_mem_*\<close>: the sessions shared by the broker and the
  workers. The container has two unique indices (session id and remote host) and one ordered
  by expiration; the model keeps its elements as a list. The text form of a UUID and its parser
  belong to Boost and are the parameters \<open>uts\<close> and \<open>stu\<close>; a random UUID is an
  argument. An allocation that fails in the shared segment is the argument \<open>fault\<close>.
  Times are seconds; each method is one critical section here.
\<close>

section \<open>Sessions\<close>

record credentials =
  domain :: string
  username :: string
  password :: string
  workstation :: string

record session =
  uuid :: "128 word"
  remote :: string
  creds :: credentials

definition no_credentials :: credentials where
  "no_credentials = \<lparr>domain = [], username = [], password = [], workstation = []\<rparr>"

definition session_default :: session where
  "session_default = \<lparr>uuid = 0, remote = [], creds = no_credentials\<rparr>"

definition new_session :: "128 word \<Rightarrow> string \<Rightarrow> credentials \<Rightarrow> session" where
  "new_session random r c = \<lparr>uuid = random, remote = r, creds = c\<rparr>"

definition idstr :: "(128 word \<Rightarrow> string) \<Rightarrow> session \<Rightarrow> string" where
  "idstr uts s = uts (uuid s)"

definition is_nil :: "session \<Rightarrow> bool" where
  "is_nil s = (uuid s = 0)"

definition set_session_id :: "(string \<Rightarrow> 128 word option) \<Rightarrow> string \<Rightarrow> session \<Rightarrow> bool \<times> session" where
  "set_session_id stu ids s = (case stu ids of None \<Rightarrow> (False, s) | Some u \<Rightarrow> (True, s\<lparr>uuid := u\<rparr>))"

section \<open>Elements of the shared segment\<close>

record shared_mem_session =
  s_id :: string
  s_remote :: string
  s_creds :: credentials

record element =
  expiration_time :: int
  stored :: shared_mem_session

definition convert_to_shared :: "(128 word \<Rightarrow> string) \<Rightarrow> session \<Rightarrow> shared_mem_session" where
  "convert_to_shared uts s = \<lparr>s_id = idstr uts s, s_remote = remote s, s_creds = creds s\<rparr>"

definition convert_from_shared :: "(string \<Rightarrow> 128 word option) \<Rightarrow> shared_mem_session \<Rightarrow> session option" where
  "convert_from_shared stu sm =
     (let (parsed, rv) = set_session_id stu (s_id sm) session_default
      in if \<not> parsed then None else Some (rv\<lparr>remote := s_remote sm, creds := s_creds sm\<rparr>))"

definition element_id :: "element \<Rightarrow> string" where
  "element_id e = s_id (stored e)"

definition element_remote :: "element \<Rightarrow> string" where
  "element_remote e = s_remote (stored e)"

definition new_element :: "int \<Rightarrow> int \<Rightarrow> shared_mem_session \<Rightarrow> element" where
  "new_element now idle_timeout sm = \<lparr>expiration_time = now + idle_timeout, stored = sm\<rparr>"

section \<open>The cache\<close>

record sessions_cache =
  elements :: "element list"
  idle_timeout :: int

datatype add_fault = No_Fault | Fault_At_Lookup | Fault_At_Insert

text \<open>
  \<open>add\<close>: the remote is looked up by its C string and the element found is erased; the new
  element is inserted with the whole remote, unless its id or its remote is present.
\<close>

definition insert_element :: "element \<Rightarrow> element list \<Rightarrow> element list" where
  "insert_element e es =
     (if element_id e \<in> element_id ` set es \<or> element_remote e \<in> element_remote ` set es then es else es @ [e])"

definition add_shared :: "int \<Rightarrow> shared_mem_session \<Rightarrow> sessions_cache \<Rightarrow> sessions_cache" where
  "add_shared now sm C =
     C\<lparr>elements := insert_element (new_element now (idle_timeout C) sm)
                     (erase_by element_remote (c_str (s_remote sm)) (elements C))\<rparr>"

definition add ::
  "(128 word \<Rightarrow> string) \<Rightarrow> int \<Rightarrow> add_fault \<Rightarrow> session \<Rightarrow> sessions_cache \<Rightarrow> bool \<times> sessions_cache" where
  "add uts now fault sp C =
     (case fault of
        Fault_At_Lookup \<Rightarrow> (False, C)
      | Fault_At_Insert \<Rightarrow> (False, C\<lparr>elements := erase_by element_remote (c_str (remote sp)) (elements C)\<rparr>)
      | No_Fault \<Rightarrow> (True, add_shared now (convert_to_shared uts sp) C))"

text \<open>\<open>get_session_by<Tag>\<close> and \<open>touch_by<Tag>\<close>; the tag is the key of its index.\<close>

definition renew :: "(element \<Rightarrow> string) \<Rightarrow> int \<Rightarrow> string \<Rightarrow> sessions_cache \<Rightarrow> sessions_cache" where
  "renew tag now k C = C\<lparr>elements := modify_by tag k (\<lambda>e. e\<lparr>expiration_time := now + idle_timeout C\<rparr>) (elements C)\<rparr>"

definition get_session_by ::
  "(string \<Rightarrow> 128 word option) \<Rightarrow> (element \<Rightarrow> string) \<Rightarrow> int \<Rightarrow> string \<Rightarrow> sessions_cache
    \<Rightarrow> session option \<times> sessions_cache" where
  "get_session_by stu tag now kv C =
     (case lookup_by tag (c_str kv) (elements C) of
        None \<Rightarrow> (None, C)
      | Some e \<Rightarrow> (convert_from_shared stu (stored e), renew tag now (c_str kv) C))"

definition touch_by :: "(element \<Rightarrow> string) \<Rightarrow> int \<Rightarrow> string \<Rightarrow> sessions_cache \<Rightarrow> bool \<times> sessions_cache" where
  "touch_by tag now kv C =
     (case lookup_by tag (c_str kv) (elements C) of
        None \<Rightarrow> (False, C)
      | Some e \<Rightarrow> (True, renew tag now (c_str kv) C))"

definition remove_by_id :: "string \<Rightarrow> sessions_cache \<Rightarrow> bool \<times> sessions_cache" where
  "remove_by_id ids C =
     (case lookup_by element_id (c_str ids) (elements C) of
        None \<Rightarrow> (False, C)
      | Some e \<Rightarrow> (True, C\<lparr>elements := erase_by element_id (c_str ids) (elements C)\<rparr>))"

text \<open>\<open>clean\<close> erases the elements before \<open>lower_bound(now)\<close> of the expiration index.\<close>

definition clean :: "int \<Rightarrow> sessions_cache \<Rightarrow> bool \<times> sessions_cache" where
  "clean now C = (True, C\<lparr>elements := filter (\<lambda>e. now \<le> expiration_time e) (elements C)\<rparr>)"

definition flush_all_entries :: "sessions_cache \<Rightarrow> sessions_cache" where
  "flush_all_entries C = C\<lparr>elements := []\<rparr>"

text \<open>The identifiers, here in the order of the list.\<close>

definition get_sessions_id_list :: "sessions_cache \<Rightarrow> string list" where
  "get_sessions_id_list C = map element_id (elements C)"

text \<open>\<open>authenticated_scan_server::get_session\<close>: the lookup by id; a miss is only logged.\<close>

definition get_session ::
  "(string \<Rightarrow> 128 word option) \<Rightarrow> int \<Rightarrow> string \<Rightarrow> sessions_cache \<Rightarrow> session option \<times> sessions_cache" where
  "get_session stu now sid C = get_session_by stu element_id now sid C"

text \<open>The operations as data, for runs of the cache under any schedule.\<close>

datatype cache_op =
    Add int add_fault session
  | Get_By_Id int string
  | Get_By_Remote int string
  | Touch_By_Id int string
  | Remove_By_Id string
  | Clean int
  | Flush

fun cache_step ::
  "(128 word \<Rightarrow> string) \<Rightarrow> (string \<Rightarrow> 128 word option) \<Rightarrow> cache_op \<Rightarrow> sessions_cache \<Rightarrow> sessions_cache" where
  "cache_step uts stu (Add now f s) C = snd (add uts now f s C)"
| "cache_step uts stu (Get_By_Id now k) C = snd (get_session_by stu element_id now k C)"
| "cache_step uts stu (Get_By_Remote now k) C = snd (get_session_by stu element_remote now k C)"
| "cache_step uts stu (Touch_By_Id now k) C = snd (touch_by element_id now k C)"
| "cache_step uts stu (Remove_By_Id k) C = snd (remove_by_id k C)"
| "cache_step uts stu (Clean now) C = snd (clean now C)"
| "cache_step uts stu Flush C = flush_all_entries C"

section \<open>Invariant\<close>

definition cache_ok :: "sessions_cache \<Rightarrow> bool" where
  "cache_ok C \<longleftrightarrow> unique_by element_id (elements C) \<and> unique_by element_remote (elements C)"

lemma element_keys_expiration [simp]:
  "element_id (e\<lparr>expiration_time := t\<rparr>) = element_id e"
  "element_remote (e\<lparr>expiration_time := t\<rparr>) = element_remote e"
  by (simp_all add: element_id_def element_remote_def)

lemma element_keys_new [simp]:
  "element_id (new_element now t sm) = s_id sm"
  "element_remote (new_element now t sm) = s_remote sm"
  by (simp_all add: element_id_def element_remote_def new_element_def)

lemma unique_insert_element:
  "unique_by element_id es \<and> unique_by element_remote es \<Longrightarrow>
   unique_by element_id (insert_element e es) \<and> unique_by element_remote (insert_element e es)"
  by (auto simp: unique_by_def insert_element_def)

lemma unique_by_filter: "unique_by f xs \<Longrightarrow> unique_by f (filter P xs)"
  by (simp add: unique_by_def distinct_map_filter)

lemma cache_ok_add_shared [simp]: "cache_ok C \<Longrightarrow> cache_ok (add_shared now sm C)"
  by (simp add: cache_ok_def add_shared_def unique_insert_element unique_erase_by)

lemma cache_ok_renew [simp]: "cache_ok (renew tag now k C) = cache_ok C"
  by (simp add: cache_ok_def renew_def unique_modify_by)

lemma cache_ok_add [simp]: "cache_ok C \<Longrightarrow> cache_ok (snd (add uts now f s C))"
  by (cases f; simp add: add_def) (simp add: cache_ok_def unique_erase_by)

lemma cache_ok_get [simp]: "cache_ok (snd (get_session_by stu tag now k C)) = cache_ok C"
  by (simp add: get_session_by_def split: option.split)

lemma cache_ok_touch [simp]: "cache_ok (snd (touch_by tag now k C)) = cache_ok C"
  by (simp add: touch_by_def split: option.split)

lemma cache_ok_remove [simp]: "cache_ok C \<Longrightarrow> cache_ok (snd (remove_by_id k C))"
  by (simp add: remove_by_id_def cache_ok_def unique_erase_by split: option.split)

lemma cache_ok_clean [simp]: "cache_ok C \<Longrightarrow> cache_ok (snd (clean now C))"
  by (simp add: clean_def cache_ok_def unique_by_filter)

lemma cache_ok_flush [simp]: "cache_ok (flush_all_entries C)"
  by (simp add: flush_all_entries_def cache_ok_def unique_by_def)

lemma cache_ok_step: "cache_ok C \<Longrightarrow> cache_ok (cache_step uts stu p C)"
  by (cases p) simp_all

lemma cache_ok_run: "cache_ok C \<Longrightarrow> cache_ok (fold (cache_step uts stu) ps C)"
  by (induction ps arbitrary: C) (simp_all add: cache_ok_step)

section \<open>Lookups\<close>

definition find_id :: "string \<Rightarrow> sessions_cache \<Rightarrow> shared_mem_session option" where
  "find_id k C = map_option stored (lookup_by element_id k (elements C))"

definition find_remote :: "string \<Rightarrow> sessions_cache \<Rightarrow> shared_mem_session option" where
  "find_remote k C = map_option stored (lookup_by element_remote k (elements C))"

lemma find_id_key: "find_id k C = Some sm \<Longrightarrow> s_id sm = k"
  unfolding find_id_def element_id_def by (auto dest: lookup_by_Some_key)

lemma find_iff:
  assumes "cache_ok C"
  shows "find_id k C = Some sm \<longleftrightarrow> (\<exists>e \<in> set (elements C). stored e = sm \<and> s_id sm = k)"
    and "find_remote r C = Some sm \<longleftrightarrow> (\<exists>e \<in> set (elements C). stored e = sm \<and> s_remote sm = r)"
  using assms
  by (auto simp: find_id_def find_remote_def cache_ok_def lookup_by_unique_iff element_id_def element_remote_def)

lemma find_id_None: "find_id k C = None \<longleftrightarrow> k \<notin> element_id ` set (elements C)"
  by (simp add: find_id_def lookup_by_None)

lemma find_remote_None: "find_remote k C = None \<longleftrightarrow> k \<notin> element_remote ` set (elements C)"
  by (simp add: find_remote_def lookup_by_None)

lemma elements_renew: "stored ` set (elements (renew tag now k C)) = stored ` set (elements C)"
  unfolding renew_def by (simp add: keys_modify_by)

text \<open>What is stored after an insertion under a fresh id: the others with another remote, and it.\<close>

lemma stored_add_shared:
  assumes "nul_free (s_remote sm)" "find_id (s_id sm) C = None"
  shows "stored ` set (elements (add_shared now sm C)) =
     insert sm {x \<in> stored ` set (elements C). s_remote x \<noteq> s_remote sm}"
proof -
  have "s_id sm \<notin> element_id ` set (elements C)" using assms(2) by (simp add: find_id_None)
  then have "insert_element (new_element now (idle_timeout C) sm) (erase_by element_remote (s_remote sm) (elements C))
      = erase_by element_remote (s_remote sm) (elements C) @ [new_element now (idle_timeout C) sm]"
    by (auto simp: insert_element_def erase_by_def)
  then show ?thesis
    using assms(1) by (auto simp: add_shared_def erase_by_def element_remote_def new_element_def)
qed

lemma find_stored:
  "cache_ok C \<Longrightarrow> find_id k C = Some sm \<longleftrightarrow> sm \<in> stored ` set (elements C) \<and> s_id sm = k"
  "cache_ok C \<Longrightarrow> find_remote r C = Some sm \<longleftrightarrow> sm \<in> stored ` set (elements C) \<and> s_remote sm = r"
  by (auto simp: find_iff)

lemma option_eq_via_Some: "(\<And>x. a = Some x \<longleftrightarrow> b = Some x) \<Longrightarrow> a = b"
  by (cases a; cases b) auto

lemma find_id_add_shared:
  assumes "cache_ok C" "nul_free (s_remote sm)" "find_id (s_id sm) C = None"
  shows "find_id k (add_shared now sm C) =
     (if k = s_id sm then Some sm
      else case find_id k C of Some x \<Rightarrow> (if s_remote x = s_remote sm then None else Some x) | None \<Rightarrow> None)"
  (is "?l = ?r")
proof (rule option_eq_via_Some)
  fix x
  define S where "S = stored ` set (elements C)"
  have fresh: "s_id y \<noteq> s_id sm" if "y \<in> S" for y
    using that assms(3) by (force simp: S_def find_id_None element_id_def)
  have old: "find_id k C = Some y \<longleftrightarrow> y \<in> S \<and> s_id y = k" for y
    unfolding S_def using assms(1) by (rule find_stored)
  have "?l = Some x \<longleftrightarrow> x \<in> insert sm {x \<in> S. s_remote x \<noteq> s_remote sm} \<and> s_id x = k"
    unfolding S_def stored_add_shared [OF assms(2,3), of now, symmetric]
    using cache_ok_add_shared [OF assms(1)] by (rule find_stored)
  then show "?l = Some x \<longleftrightarrow> ?r = Some x"
    using fresh [of x] old [of x] by (cases "find_id k C") auto
qed

lemma find_id_erase:
  "find_id k (snd (remove_by_id ids C)) = (if k = c_str ids then None else find_id k C)"
  by (auto simp: find_id_def remove_by_id_def lookup_erase_by split: option.split)

lemma find_id_renew [simp]: "find_id k (renew tag now i C) = find_id k C"
proof -
  have "lookup_by element_id k (modify_by tag i (\<lambda>e. e\<lparr>expiration_time := t\<rparr>) es) =
      map_option (\<lambda>e. if tag e = i then e\<lparr>expiration_time := t\<rparr> else e) (lookup_by element_id k es)" for t es
    by (induction es) (auto simp: lookup_by_def modify_by_def)
  then show ?thesis by (auto simp: find_id_def renew_def option.map_comp comp_def intro!: map_option_cong)
qed

lemma get_session_by_id:
  "get_session_by stu element_id now k C =
     (case find_id (c_str k) C of None \<Rightarrow> (None, C)
      | Some sm \<Rightarrow> (convert_from_shared stu sm, renew element_id now (c_str k) C))"
  by (auto simp: get_session_by_def find_id_def split: option.split)

lemma convert_roundtrip: "stu (uts (uuid s)) = Some (uuid s) \<Longrightarrow>
  convert_from_shared stu (convert_to_shared uts s) = Some s"
  by (simp add: convert_from_shared_def convert_to_shared_def set_session_id_def idstr_def session_default_def)

lemma s_id_convert [simp]: "s_id (convert_to_shared uts s) = uts (uuid s)"
  "s_remote (convert_to_shared uts s) = remote s"
  by (simp_all add: convert_to_shared_def idstr_def)

text \<open>
  The cache is a store keyed by the session id, for insertions of a host that has no session:
  the laws the broker's session actions rely on.
\<close>

definition fresh_host :: "shared_mem_session \<Rightarrow> sessions_cache \<Rightarrow> bool" where
  "fresh_host sm C \<longleftrightarrow> nul_free (s_id sm) \<and> nul_free (s_remote sm)
     \<and> find_remote (s_remote sm) C = None \<and> find_id (s_id sm) C = None"

lemma find_id_add_fresh:
  assumes "cache_ok C" "fresh_host sm C"
  shows "find_id k (add_shared now sm C) = (if k = s_id sm then Some sm else find_id k C)"
proof -
  have "s_remote x \<noteq> s_remote sm" if "find_id k C = Some x" for x
    using that assms by (force simp: find_stored [OF assms(1)] fresh_host_def find_remote_None element_remote_def)
  then show ?thesis
    using assms by (auto simp: find_id_add_shared fresh_host_def split: option.split)
qed

definition erase_id :: "string \<Rightarrow> sessions_cache \<Rightarrow> sessions_cache" where
  "erase_id k C = C\<lparr>elements := erase_by element_id k (elements C)\<rparr>"

lemma erase_id_remove: "nul_free k \<Longrightarrow> erase_id k C = snd (remove_by_id k C)"
  by (cases C) (auto simp: erase_id_def remove_by_id_def erase_by_def lookup_by_None filter_id_conv split: option.split)

interpretation sc: keyed_store s_id cache_ok fresh_host find_id "add_shared now" erase_id
  for now
proof unfold_locales
  fix C :: sessions_cache and k k' sm
  show "cache_ok C \<Longrightarrow> find_id k (erase_id k C) = None"
    and "cache_ok C \<Longrightarrow> k \<noteq> k' \<Longrightarrow> find_id k (erase_id k' C) = find_id k C"
    by (simp_all add: erase_id_def find_id_def lookup_erase_by)
  show "cache_ok C \<Longrightarrow> cache_ok (erase_id k C)"
    by (simp add: erase_id_def cache_ok_def unique_erase_by)
qed (auto simp: find_id_add_fresh dest: find_id_key)

section \<open>Properties\<close>


text \<open>
  C10. Starting a session: with a host name without NUL, an identifier that reads back and is
  not in the cache, and no allocation fault, the addition succeeds; a lookup by the new
  identifier returns that very session; the session the host had before is gone; every other
  session is looked up as before.
\<close>

theorem add_replaces_host_session:
  assumes "cache_ok C" and "nul_free (remote s)" and "nul_free (idstr uts s)"
    and "stu (idstr uts s) = Some (uuid s)" and "find_id (idstr uts s) C = None"
  shows "fst (add uts now No_Fault s C)
    \<and> fst (get_session stu now' (idstr uts s) (snd (add uts now No_Fault s C))) = Some s
    \<and> (\<forall>k x. k \<noteq> idstr uts s \<longrightarrow> find_id k C = Some x \<longrightarrow>
         find_id k (snd (add uts now No_Fault s C)) = (if s_remote x = remote s then None else Some x))"
proof -
  let ?sm = "convert_to_shared uts s"
  from assms have "find_id k (add_shared now ?sm C) =
     (if k = idstr uts s then Some ?sm
      else case find_id k C of Some x \<Rightarrow> (if s_remote x = remote s then None else Some x) | None \<Rightarrow> None)" for k
    using find_id_add_shared [of C ?sm k now] by (simp add: idstr_def split: option.split)
  with assms show ?thesis
    by (simp add: add_def get_session_def get_session_by_id convert_roundtrip idstr_def)
qed

theorem add_replaces_host_session_witness:
  "fst (get_session (\<lambda>t. Some 7) 20 ''u7'' (snd (add (\<lambda>u. ''u7'') 10 No_Fault (new_session 7 ''host'' no_credentials)
      \<lparr>elements = [new_element 5 60 \<lparr>s_id = ''u3'', s_remote = ''host'', s_creds = no_credentials\<rparr>], idle_timeout = 60\<rparr>)))
    = Some (new_session 7 ''host'' no_credentials)"
  using add_replaces_host_session [of "\<lparr>elements = [new_element 5 60 \<lparr>s_id = ''u3'', s_remote = ''host'', s_creds = no_credentials\<rparr>], idle_timeout = 60\<rparr>"
      "new_session 7 ''host'' no_credentials" "\<lambda>u. ''u7''" "\<lambda>t. Some 7" 10 20]
  by (simp add: cache_ok_def unique_by_def idstr_def new_session_def find_id_None)

text \<open>
  Expiry: after the cache is cleaned at a time, the sessions left are exactly those whose
  expiration is not before that time, and a lookup that found a session renews it: a cleaning
  before the renewed expiration keeps it.
\<close>

theorem renewed_session_survives_clean:
  assumes "fst (touch_by element_id now k C)" and "now' \<le> now + idle_timeout C"
  shows "find_id (c_str k) (snd (clean now' (snd (touch_by element_id now k C)))) = find_id (c_str k) C
    \<and> find_id (c_str k) C \<noteq> None"
proof -
  have keep: "lookup_by f i (filter P (modify_by f i g es)) = lookup_by f i (modify_by f i g es)"
    if "\<And>e. P (g e)" "\<And>e. f (g e) = f e" for P and f :: "element \<Rightarrow> string" and i g es
    using that by (induction es) (auto simp: lookup_by_def modify_by_def)
  from assms(1) have hit: "find_id (c_str k) C \<noteq> None"
    and res: "snd (touch_by element_id now k C) = renew element_id now (c_str k) C"
    by (auto simp: touch_by_def find_id_def split: option.splits)
  have "find_id (c_str k) (snd (clean now' (renew element_id now (c_str k) C)))
      = find_id (c_str k) (renew element_id now (c_str k) C)"
    using assms(2) by (simp add: find_id_def clean_def renew_def keep)
  with hit res show ?thesis by simp
qed

theorem renewed_session_survives_clean_witness:
  "find_id (c_str ''u3'') (snd (clean 160 (snd (touch_by element_id 100 ''u3''
      \<lparr>elements = [new_element 5 60 \<lparr>s_id = ''u3'', s_remote = ''h'', s_creds = no_credentials\<rparr>], idle_timeout = 60\<rparr>)))) \<noteq> None"
  using renewed_session_survives_clean [of 100 "''u3''"
      "\<lparr>elements = [new_element 5 60 \<lparr>s_id = ''u3'', s_remote = ''h'', s_creds = no_credentials\<rparr>], idle_timeout = 60\<rparr>" 160]
  by (simp add: touch_by_def lookup_by_def c_str_Cons)

text \<open>
  A failed start of a session loses the host's old one: when the insertion cannot allocate,
  \<open>add\<close> reports failure but the session of that host has already been erased.
\<close>

theorem failed_add_drops_old_session:
  assumes "nul_free (remote s)"
  shows "\<not> fst (add uts now Fault_At_Insert s C)
    \<and> find_remote (remote s) (snd (add uts now Fault_At_Insert s C)) = None"
  using assms by (simp add: add_def find_remote_def lookup_erase_by)

theorem failed_add_drops_old_session_witness:
  "find_remote ''host'' (snd (add (\<lambda>u. ''u7'') 10 Fault_At_Insert (new_session 7 ''host'' no_credentials)
      \<lparr>elements = [new_element 5 60 \<lparr>s_id = ''u3'', s_remote = ''host'', s_creds = no_credentials\<rparr>], idle_timeout = 60\<rparr>)) = None"
  using failed_add_drops_old_session [of "new_session 7 ''host'' no_credentials" "\<lambda>u. ''u7''" 10]
  by (simp add: new_session_def)

end
