(* ===== verification/Settings.thy ===== *)
theory Settings
  imports Protocol
begin

text \<open>
  \<open>src/src/common/singleton_runner/settings.hpp\<close>: the settings object, how it is read from the
  JSON of the settings file, written to JSON and printed. A field that the file does not set keeps
  what the uninitialised object held, which is the argument \<open>c\<close>. Durations are counts in the
  unit of the field. JSON numbers are integers here; a cast to 32 bits wraps.
\<close>

record cdcm_settings =
  session_cache_size :: "32 word"
  session_idle_time :: "32 word"
  heartbeat_liveness_s :: "32 word"
  heartbeat_interval_s :: "64 word"
  reconnect :: "32 word"
  heartbeat_expiry_set :: "64 word"
  action_postpone_dur_ms :: "64 word"
  action_retries :: "32 word"
  worker_processes :: "32 word"
  broker_client_listen_ep :: string
  broker_worker_listen_ep :: string
  worker_connect_ep :: string
  downloaded_files_path :: string
  maintenance_interval :: "64 word"
  plugins_dir :: string
  cdcm_version_s :: string

fun as_int :: "json \<Rightarrow> int outcome" where
  "as_int (JNum n) = Ok n"
| "as_int _ = Throw"

text \<open>\<open>optional<T>(key)\<close> on an object, with the default that \<open>value_or\<close> gives.\<close>

definition optional_as :: "(json \<Rightarrow> 'a outcome) \<Rightarrow> json \<Rightarrow> string \<Rightarrow> 'a \<Rightarrow> 'a outcome" where
  "optional_as rd o_v key d =
     bind_o (get_object o_v) (\<lambda>m. case map_of m key of None \<Rightarrow> Ok d | Some v \<Rightarrow> rd v)"

definition as_u32 :: "json \<Rightarrow> 32 word outcome" where
  "as_u32 v = bind_o (as_int v) (\<lambda>n. Ok (word_of_int n))"

definition as_rep :: "json \<Rightarrow> 64 word outcome" where
  "as_rep v = bind_o (as_int v) (\<lambda>n. Ok (word_of_int n))"

definition settings_as :: "cdcm_settings \<Rightarrow> json \<Rightarrow> cdcm_settings outcome" where
  "settings_as c v =
     bind_o (json_at v ''cdcm'') (\<lambda>o_v.
     bind_o (optional_as as_u32 o_v ''session_cache_size'' (session_cache_size c)) (\<lambda>f1.
     bind_o (optional_as as_u32 o_v ''session_idle_time'' (session_idle_time c)) (\<lambda>f2.
     bind_o (optional_as as_u32 o_v ''heartbeat_liveness'' (heartbeat_liveness_s c)) (\<lambda>f3.
     bind_o (optional_as as_rep o_v ''heartbeat_interval'' (heartbeat_interval_s c)) (\<lambda>f4.
     bind_o (optional_as as_u32 o_v ''reconnect'' (reconnect c)) (\<lambda>f5.
     bind_o (optional_as as_rep o_v ''heartbeat_expiry'' (heartbeat_expiry_set c)) (\<lambda>f6.
     bind_o (optional_as as_rep o_v ''action_postpone_dur'' (action_postpone_dur_ms c)) (\<lambda>f7.
     bind_o (optional_as as_u32 o_v ''action_retries_on_postpone'' (action_retries c)) (\<lambda>f8.
     bind_o (optional_as as_u32 o_v ''worker_processes'' (worker_processes c)) (\<lambda>f9.
     bind_o (optional_as as_string o_v ''broker_client_listening_ep'' (broker_client_listen_ep c)) (\<lambda>f10.
     bind_o (optional_as as_string o_v ''broker_worker_listening_ep'' (broker_worker_listen_ep c)) (\<lambda>f11.
     bind_o (optional_as as_string o_v ''worker_connect_ep'' (worker_connect_ep c)) (\<lambda>f12.
     bind_o (optional_as as_string o_v ''downloaded_file_path'' (downloaded_files_path c)) (\<lambda>f13.
     bind_o (optional_as as_rep o_v ''maintenance_interval'' (maintenance_interval c)) (\<lambda>f14.
     bind_o (optional_as as_string o_v ''plugins_dir'' (plugins_dir c)) (\<lambda>f15.
     bind_o (optional_as as_string o_v ''cdcm_version'' (cdcm_version_s c)) (\<lambda>f16.
       Ok \<lparr>session_cache_size = f1, session_idle_time = f2, heartbeat_liveness_s = f3, heartbeat_interval_s = f4,
           reconnect = f5, heartbeat_expiry_set = f6, action_postpone_dur_ms = f7, action_retries = f8,
           worker_processes = f9, broker_client_listen_ep = f10, broker_worker_listen_ep = f11,
           worker_connect_ep = f12, downloaded_files_path = f13, maintenance_interval = f14, plugins_dir = f15,
           cdcm_version_s = f16\<rparr>)))))))))))))))))"

text \<open>The bindings, which write the object; durations are signed counts.\<close>

definition settings_to_json :: "cdcm_settings \<Rightarrow> json" where
  "settings_to_json c = JObj
     [(''action_postpone_dur'', JNum (sint (action_postpone_dur_ms c))),
      (''action_retries_on_postpone'', JNum (uint (action_retries c))),
      (''broker_client_listen_ep'', JStr (broker_client_listen_ep c)),
      (''broker_worker_listen_ep'', JStr (broker_worker_listen_ep c)),
      (''cdcm_version'', JStr (cdcm_version_s c)),
      (''downloaded_files_path'', JStr (downloaded_files_path c)),
      (''heartbeat_expiry'', JNum (sint (heartbeat_expiry_set c))),
      (''heartbeat_interval'', JNum (sint (heartbeat_interval_s c))),
      (''heartbeat_liveness'', JNum (uint (heartbeat_liveness_s c))),
      (''maintenance_interval'', JNum (sint (maintenance_interval c))),
      (''name'', JStr ''cdcm''),
      (''plugins_dir'', JStr (plugins_dir c)),
      (''reconnect'', JNum (uint (reconnect c))),
      (''session_cache_size'', JNum (uint (session_cache_size c))),
      (''session_idle_time'', JNum (uint (session_idle_time c))),
      (''worker_connect_ep'', JStr (worker_connect_ep c)),
      (''worker_processes'', JNum (uint (worker_processes c)))]"

text \<open>\<open>to_string\<close>: one line for each setting.\<close>

definition show_int :: "int \<Rightarrow> string" where
  "show_int i = (if i < 0 then ''-'' @ to_string_nat (nat (- i)) else to_string_nat (nat i))"

definition setting_line :: "string \<Rightarrow> string \<Rightarrow> string \<Rightarrow> string" where
  "setting_line label val unit_v = [CHR 0x09] @ label @ '':'' @ [CHR 0x09] @ val @ unit_v @ [CHR 0x0A]"

definition settings_to_string :: "cdcm_settings \<Rightarrow> string" where
  "settings_to_string c =
     [CHR 0x0A, CHR 0x09] @ ''cdcm Configuration'' @ [CHR 0x0A, CHR 0x09] @ ''==============================='' @ [CHR 0x0A] @
     setting_line ''session_cache_size          '' (to_string_nat (unat (session_cache_size c))) '' MB'' @
     setting_line ''session_idle_time           '' (to_string_nat (unat (session_idle_time c))) '' seconds'' @
     setting_line ''heartbeat_liveness          '' (to_string_nat (unat (heartbeat_liveness_s c))) [] @
     setting_line ''heartbeat_interval          '' (show_int (sint (heartbeat_interval_s c))) [] @
     setting_line ''reconnect                   '' (to_string_nat (unat (reconnect c))) '' milliseconds'' @
     setting_line ''heartbeat_expiry            '' (show_int (sint (heartbeat_expiry_set c))) '' seconds'' @
     setting_line ''action_postpone_dur         '' (show_int (sint (action_postpone_dur_ms c))) '' milliseconds'' @
     setting_line ''action_retries_on_postpone  '' (to_string_nat (unat (action_retries c))) [] @
     setting_line ''worker_processes            '' (to_string_nat (unat (worker_processes c))) [] @
     setting_line ''broker_client_listen_ep     '' (broker_client_listen_ep c) [] @
     setting_line ''broker_worker_listen_ep     '' (broker_worker_listen_ep c) [] @
     setting_line ''worker_connect_ep           '' (worker_connect_ep c) [] @
     setting_line ''downloaded_files_path       '' (downloaded_files_path c) [] @
     setting_line ''maintenance_interval        '' (show_int (sint (maintenance_interval c))) '' seconds'' @
     setting_line ''plugins_dir                 '' (plugins_dir c) [] @
     setting_line ''cdcm_version                '' (cdcm_version_s c) []"

section \<open>Properties\<close>

text \<open>
  Settings written by the bindings and read back, below the file's \<open>cdcm\<close> key, are the same
  but for three fields, which keep the uninitialised values: the two listening endpoints and the
  download directory are written under other keys than they are read from.
\<close>

theorem settings_written_and_read:
  "settings_as u (JObj [(''cdcm'', settings_to_json c)]) =
     Ok (c\<lparr>broker_client_listen_ep := broker_client_listen_ep u, broker_worker_listen_ep := broker_worker_listen_ep u,
          downloaded_files_path := downloaded_files_path u\<rparr>)"
  by (simp add: settings_as_def settings_to_json_def json_at_def map_at_def optional_as_def as_u32_def as_rep_def)

end
