(* ===== verification/Service_Configuration.thy ===== *)
theory Service_Configuration
  imports Settings Dispatcher
begin

text \<open>
  \<open>src/src/common/configurable.hpp\<close>, \<open>configuration.hpp\<close> and the service configurations of the
  samba plugins: how a client object gets its configuration. The repository
  \<open>service_conf_repository\<close> holds the settings and the configurations read so far; the files
  are the argument \<open>files\<close>, which gives what \<open>tao::json::from_file\<close> returns for a path.
\<close>

record registry_service_configuration =
  data_blob_size :: "64 word"
  reconnect_attempt_on_pipe_busy :: "64 word"

record smb_service_configuration =
  max_mem_segment :: "64 word"

datatype configuration =
    Settings_Conf cdcm_settings
  | Registry_Conf registry_service_configuration
  | Smb_Conf smb_service_configuration

fun conf_name :: "configuration \<Rightarrow> string" where
  "conf_name (Settings_Conf _) = ''cdcm''"
| "conf_name (Registry_Conf _) = ''registry''"
| "conf_name (Smb_Conf _) = ''smb''"

text \<open>\<open>dynamic_pointer_cast\<close> to the three classes.\<close>

fun as_settings :: "configuration \<Rightarrow> cdcm_settings option" where
  "as_settings (Settings_Conf c) = Some c"
| "as_settings _ = None"

fun as_registry :: "configuration \<Rightarrow> registry_service_configuration option" where
  "as_registry (Registry_Conf c) = Some c"
| "as_registry _ = None"

fun as_smb :: "configuration \<Rightarrow> smb_service_configuration option" where
  "as_smb (Smb_Conf c) = Some c"
| "as_smb _ = None"

text \<open>The readers of the two configuration files.\<close>

definition registry_conf_as :: "json \<Rightarrow> registry_service_configuration outcome" where
  "registry_conf_as v =
     bind_o (json_at v ''registry'') (\<lambda>o_v.
     bind_o (optional_as as_rep o_v ''data_blob_size'' (1024 * 1024)) (\<lambda>n.
       Ok \<lparr>data_blob_size = n, reconnect_attempt_on_pipe_busy = 1\<rparr>))"

definition smb_conf_as :: "json \<Rightarrow> smb_service_configuration outcome" where
  "smb_conf_as v =
     bind_o (json_at v ''smb'') (\<lambda>o_v.
     bind_o (optional_as as_rep o_v ''max_mem_segment'' (128 * 1024 * 1024)) (\<lambda>n. Ok \<lparr>max_mem_segment = n\<rparr>))"

text \<open>
  \<open>configurable<T>::init_conf\<close>: the result flag, the object's configuration (\<open>None\<close> is the null
  pointer) and the repository. A failure to read the file is caught and printed.
\<close>

definition init_conf ::
  "string \<Rightarrow> (configuration \<Rightarrow> 'c option) \<Rightarrow> ('c \<Rightarrow> configuration) \<Rightarrow> (json \<Rightarrow> 'c outcome) \<Rightarrow> (string \<Rightarrow> json outcome)
    \<Rightarrow> 'c option \<Rightarrow> configuration dispatcher \<Rightarrow> (bool \<times> 'c option \<times> configuration dispatcher) outcome" where
  "init_conf srv_name cast mk rd files conf repo =
     (if conf \<noteq> None then Ok (True, conf, repo)
      else if dhas srv_name repo then
        Ok (False, (case dfind srv_name repo of Some c \<Rightarrow> cast c | None \<Rightarrow> None), repo)
      else
        (case dfind_as ''cdcm'' as_settings repo of
           None \<Rightarrow> UB
         | Some settings \<Rightarrow>
             (case bind_o (files (plugins_dir settings @ ''/'' @ srv_name @ ''.json'')) rd of
                Ok c \<Rightarrow> Ok (True, Some c, register1 conf_name (mk c) repo)
              | Throw \<Rightarrow> Ok (False, None, repo)
              | Abort \<Rightarrow> Abort
              | UB \<Rightarrow> UB)))"

definition init_registry_conf ::
  "(string \<Rightarrow> json outcome) \<Rightarrow> configuration dispatcher
    \<Rightarrow> (bool \<times> registry_service_configuration option \<times> configuration dispatcher) outcome" where
  "init_registry_conf files repo = init_conf ''registry'' as_registry Registry_Conf registry_conf_as files None repo"

definition init_smb_conf ::
  "(string \<Rightarrow> json outcome) \<Rightarrow> configuration dispatcher
    \<Rightarrow> (bool \<times> smb_service_configuration option \<times> configuration dispatcher) outcome" where
  "init_smb_conf files repo = init_conf ''smb'' as_smb Smb_Conf smb_conf_as files None repo"

section \<open>Lemmas\<close>

text \<open>A repository as the server builds it: the settings are there, each entry under its own name.\<close>

definition repo_ok :: "configuration dispatcher \<Rightarrow> bool" where
  "repo_ok repo \<longleftrightarrow> named_ok conf_name repo \<and> (\<exists>c. repo ''cdcm'' = Some (Settings_Conf c))"

definition registry_conf_there :: "configuration dispatcher \<Rightarrow> bool" where
  "registry_conf_there repo \<longleftrightarrow> (\<exists>c. repo ''registry'' = Some (Registry_Conf c))"

lemma conf_name_cases:
  "conf_name c = ''cdcm'' \<longleftrightarrow> (\<exists>s. c = Settings_Conf s)"
  "conf_name c = ''registry'' \<longleftrightarrow> (\<exists>s. c = Registry_Conf s)"
  "conf_name c = ''smb'' \<longleftrightarrow> (\<exists>s. c = Smb_Conf s)"
  by (cases c; simp)+

lemma soft_optional: "(\<And>v. soft (rd v)) \<Longrightarrow> soft (optional_as rd o_v k d)"
  by (auto simp: optional_as_def intro!: soft_bind split: option.split)

lemma soft_as_rep: "soft (as_rep v)"
  by (cases v) (simp_all add: as_rep_def)

lemma soft_conf_readers [simp]: "soft (registry_conf_as v)" "soft (smb_conf_as v)"
  by (auto simp: registry_conf_as_def smb_conf_as_def intro!: soft_bind soft_optional soft_as_rep)

lemma init_registry_conf_total:
  assumes "repo_ok repo" "\<forall>p. soft (files p)"
  obtains b c repo' where "init_registry_conf files repo = Ok (b, c, repo')" "repo_ok repo'"
    "c \<noteq> None \<longrightarrow> registry_conf_there repo'"
proof (cases "repo ''registry''")
  case (Some e)
  with assms(1) have "conf_name e = ''registry''" by (auto simp: repo_ok_def named_ok_def)
  then obtain c where "e = Registry_Conf c" unfolding conf_name_cases by blast
  with Some assms(1) show ?thesis
    by (intro that [of False "Some c" repo])
      (simp_all add: init_registry_conf_def init_conf_def dhas_def dfind_def registry_conf_there_def)
next
  case None
  from assms(1) obtain s where s: "repo ''cdcm'' = Some (Settings_Conf s)" by (auto simp: repo_ok_def)
  let ?r = "bind_o (files (plugins_dir s @ ''/'' @ ''registry'' @ ''.json'')) registry_conf_as"
  have "soft ?r" using assms(2) by (intro soft_bind) auto
  then show ?thesis
    using None s assms(1) that
    by (cases ?r) (auto simp: init_registry_conf_def init_conf_def dhas_def dfind_as_def repo_ok_def named_ok_def
        register1_def registry_conf_there_def)
qed

section \<open>Properties\<close>

text \<open>
  A service configuration is read once: when a client object has got its registry
  configuration, every later object gets the same one, whatever the file has become, and the
  repository does not change any more.
\<close>

theorem configuration_read_once:
  assumes "init_registry_conf files repo = Ok (b, Some c, repo')"
  shows "init_registry_conf files' repo' = Ok (False, Some c, repo')"
  using assms
  by (auto simp: init_registry_conf_def init_conf_def dhas_def dfind_def dfind_as_def register1_def bind_o_Ok_iff
      split: if_splits option.splits outcome.splits)

theorem configuration_read_once_witness:
  "let s = Settings_Conf \<lparr>session_cache_size = 1, session_idle_time = 1, heartbeat_liveness_s = 1, heartbeat_interval_s = 1,
         reconnect = 1, heartbeat_expiry_set = 1, action_postpone_dur_ms = 1, action_retries = 1, worker_processes = 1,
         broker_client_listen_ep = [], broker_worker_listen_ep = [], worker_connect_ep = [], downloaded_files_path = [],
         maintenance_interval = 1, plugins_dir = ''/p'', cdcm_version_s = []\<rparr>;
       repo' = [''cdcm'' \<mapsto> s, ''registry'' \<mapsto> Registry_Conf \<lparr>data_blob_size = 7, reconnect_attempt_on_pipe_busy = 1\<rparr>]
   in init_registry_conf (\<lambda>_. Throw) repo' = Ok (False, Some \<lparr>data_blob_size = 7, reconnect_attempt_on_pipe_busy = 1\<rparr>, repo')"
proof -
  define s where "s = Settings_Conf \<lparr>session_cache_size = 1, session_idle_time = 1, heartbeat_liveness_s = 1, heartbeat_interval_s = 1,
         reconnect = 1, heartbeat_expiry_set = 1, action_postpone_dur_ms = 1, action_retries = 1, worker_processes = 1,
         broker_client_listen_ep = [], broker_worker_listen_ep = [], worker_connect_ep = [], downloaded_files_path = [],
         maintenance_interval = 1, plugins_dir = ''/p'', cdcm_version_s = []\<rparr>"
  define f where "f = (\<lambda>p. if p = ''/p/registry.json'' then Ok (JObj [(''registry'', JObj [(''data_blob_size'', JNum 7)])]) else Throw)"
  have "init_registry_conf f [''cdcm'' \<mapsto> s] = Ok (True, Some \<lparr>data_blob_size = 7, reconnect_attempt_on_pipe_busy = 1\<rparr>,
      [''cdcm'' \<mapsto> s, ''registry'' \<mapsto> Registry_Conf \<lparr>data_blob_size = 7, reconnect_attempt_on_pipe_busy = 1\<rparr>])"
    by (simp add: init_registry_conf_def init_conf_def dhas_def dfind_def dfind_as_def s_def f_def registry_conf_as_def
        json_at_def map_at_def optional_as_def as_rep_def register1_def)
  from configuration_read_once [OF this] show ?thesis by (simp add: s_def Let_def)
qed

end
