(* ===== verification/Frontend_Actions.thy ===== *)
theory Frontend_Actions
  imports Action_Messages Session_Cache Service_Configuration
begin

text \<open>
  \<open>src/src/frontend/actions/\<close>: the three actions the broker answers itself, and the
  \<open>Action_Base\<close> objects of \<open>common/action.hpp\<close>. What an action touches of the
  \<open>authenticated_scan_server\<close> singleton is the record \<open>server\<close>, with the
  one static variable of a plugin that matters (in \<open>registry_client2::get_sd\<close>); time stands still
  while one message is handled.
\<close>

record server_env =
  uuid_to_string :: "128 word \<Rightarrow> string"
  string_to_uuid :: "string \<Rightarrow> 128 word option"
  cdcm_version :: string

record server =
  sessions :: sessions_cache
  clock :: int
  randoms :: "nat \<Rightarrow> 128 word"
  drawn :: nat
  faults :: "nat \<Rightarrow> add_fault"
  service_conf :: "configuration dispatcher"
  get_sd_called :: bool

type_synonym act_result = "(action_status \<times> result_msg \<times> server) outcome"

record action =
  act_name :: string
  get_message :: "json \<Rightarrow> action_msg outcome"
  act :: "session option \<Rightarrow> action_msg \<Rightarrow> result_msg \<Rightarrow> server \<Rightarrow> act_result"

text \<open>\<open>set_response_for_error\<close> and the failed status most error paths end with.\<close>

definition fail_with :: "CDCM_ERROR \<Rightarrow> result_msg \<Rightarrow> server \<Rightarrow> act_result" where
  "fail_with e r s = bind_o (set_response_for_error e r) (\<lambda>r'. Ok (FAILED, r', s))"

definition start_session_act ::
  "server_env \<Rightarrow> session option \<Rightarrow> action_msg \<Rightarrow> result_msg \<Rightarrow> server \<Rightarrow> act_result" where
  "start_session_act E sess m res s =
     (case m of
        Start_session_msg i host dom_v usr pwd wst \<Rightarrow>
          if host = [] \<or> usr = [] then fail_with REMOTE_AND_USERNAME_ARE_MANDATORY res s
          else let new = new_session (randoms s (drawn s)) host
                           \<lparr>domain = dom_v, username = usr, password = pwd, workstation = wst\<rparr>;
                   (added, cache) = add (uuid_to_string E) (clock s) (faults s (drawn s)) new (sessions s);
                   s' = s\<lparr>sessions := cache, drawn := drawn s + 1\<rparr>
            in if \<not> added then fail_with FAILED_ADDING_NEW_SESSION res s'
               else bind_o (set_response_for_success (JStr (idstr (uuid_to_string E) new)) (set_id i res))
                      (\<lambda>res'. Ok (SUCCEEDED, res', s'))
      | _ \<Rightarrow> fail_with INTERNAL_ERROR res s)"

definition close_session_act ::
  "server_env \<Rightarrow> session option \<Rightarrow> action_msg \<Rightarrow> result_msg \<Rightarrow> server \<Rightarrow> act_result" where
  "close_session_act E sess m res s =
     (case sess of
        None \<Rightarrow> fail_with SESSION_NOT_FOUND res s
      | Some ss \<Rightarrow>
          if is_nil ss then fail_with SESSION_NOT_FOUND res s
          else let s' = s\<lparr>sessions := snd (remove_by_id (idstr (uuid_to_string E) ss) (sessions s))\<rparr>
            in bind_o (set_response_for_success (JStr ''Session closed'') (set_id (action_id m) res))
                 (\<lambda>res'. Ok (SUCCEEDED, res', s')))"

definition get_cdcm_info_act ::
  "server_env \<Rightarrow> session option \<Rightarrow> action_msg \<Rightarrow> result_msg \<Rightarrow> server \<Rightarrow> act_result" where
  "get_cdcm_info_act E sess m res s =
     (case m of
        Get_cdcm_info_msg i what \<Rightarrow>
          if what = ''cdcm_version''
          then bind_o (set_response_for_success (JStr (cdcm_version E)) (set_id i res)) (\<lambda>res'. Ok (SUCCEEDED, res', s))
          else fail_with BAD_PARAMETER (set_id i res) s
      | _ \<Rightarrow> fail_with INTERNAL_ERROR res s)"

definition Start_Session :: "server_env \<Rightarrow> action" where
  "Start_Session E = \<lparr>act_name = ''start_session'', get_message = start_session_msg_as, act = start_session_act E\<rparr>"

definition Close_Session :: "server_env \<Rightarrow> action" where
  "Close_Session E = \<lparr>act_name = ''close_session'', get_message = close_session_msg_as, act = close_session_act E\<rparr>"

definition Get_CDCM_Info :: "server_env \<Rightarrow> action" where
  "Get_CDCM_Info E = \<lparr>act_name = ''get_cdcm_info'', get_message = get_cdcm_info_msg_as, act = get_cdcm_info_act E\<rparr>"

text \<open>The dispatcher of the broker process: the static registrations of the three files.\<close>

definition public_dispatcher :: "server_env \<Rightarrow> action dispatcher" where
  "public_dispatcher E = register_all act_name [Start_Session E, Close_Session E, Get_CDCM_Info E] empty_dispatcher"

section \<open>Lemmas\<close>

lemma fail_with_Ok [resp_simps]:
  "e \<noteq> PARSE_FILE_FAILED \<Longrightarrow> fail_with e r s =
     Ok (FAILED, r\<lparr>msg_status := error_status e, msg_result := JStr (''Error: '' @ error_text e)\<rparr>, s)"
  by (simp add: fail_with_def resp_simps)

lemma find_public:
  "dfind n (public_dispatcher E) =
     (if n = ''start_session'' then Some (Start_Session E)
      else if n = ''close_session'' then Some (Close_Session E)
      else if n = ''get_cdcm_info'' then Some (Get_CDCM_Info E) else None)"
  by (simp add: public_dispatcher_def dfind_register_all Start_Session_def Close_Session_def Get_CDCM_Info_def
      dfind_empty)

lemma action_selectors [simp]:
  "act_name (Start_Session E) = ''start_session''" "act (Start_Session E) = start_session_act E"
  "act_name (Close_Session E) = ''close_session''" "act (Close_Session E) = close_session_act E"
  "act_name (Get_CDCM_Info E) = ''get_cdcm_info''" "act (Get_CDCM_Info E) = get_cdcm_info_act E"
  "get_message (Start_Session E) = start_session_msg_as"
  "get_message (Close_Session E) = close_session_msg_as"
  "get_message (Get_CDCM_Info E) = get_cdcm_info_msg_as"
  by (simp_all add: Start_Session_def Close_Session_def Get_CDCM_Info_def)

lemma set_id_fields [simp]: "msg_id (set_id i r) = i" "msg_status (set_id i r) = msg_status r"
  by (simp_all add: set_id_def)

text \<open>
  What every local action does, whatever message it gets: it returns, it fails exactly when it
  set an error response, and it keeps the cache's uniqueness.
\<close>

definition act_good :: "server \<Rightarrow> act_result \<Rightarrow> bool" where
  "act_good s r \<longleftrightarrow> (\<exists>st res s'. r = Ok (st, res, s') \<and> st \<noteq> POSTPONED
     \<and> (st = SUCCEEDED \<longleftrightarrow> code (msg_status res) = 101)
     \<and> (cache_ok (sessions s) \<longrightarrow> cache_ok (sessions s')))"

lemma error_status_code: "e \<noteq> PARSE_FILE_FAILED \<Longrightarrow> code (error_status e) = cdcm_error_value e"
  by (cases e) (simp_all add: error_status_def)

lemma act_good_fail: "e \<noteq> PARSE_FILE_FAILED \<Longrightarrow> e \<noteq> CE_OK \<Longrightarrow>
  (cache_ok (sessions s) \<longrightarrow> cache_ok (sessions s')) \<Longrightarrow> act_good s (fail_with e r s')"
  by (cases e) (simp_all add: act_good_def resp_simps error_status_code)

lemma act_good_success: "(cache_ok (sessions s) \<longrightarrow> cache_ok (sessions s')) \<Longrightarrow>
  act_good s (bind_o (set_response_for_success v r) (\<lambda>r'. Ok (SUCCEEDED, r', s')))"
  by (simp add: act_good_def resp_simps error_status_code)

lemma start_session_good: "act_good s (start_session_act E sess m res s)"
  by (simp add: start_session_act_def act_good_fail act_good_success Let_def case_prod_unfold split: action_msg.split)

lemma close_session_good: "act_good s (close_session_act E sess m res s)"
  by (simp add: close_session_act_def act_good_fail act_good_success Let_def split: option.split)

lemma get_cdcm_info_good: "act_good s (get_cdcm_info_act E sess m res s)"
  by (simp add: get_cdcm_info_act_def act_good_fail act_good_success split: action_msg.split)

lemma public_act_good: "dfind n (public_dispatcher E) = Some a \<Longrightarrow> act_good s (act a sess m res s)"
  by (auto simp: find_public start_session_good close_session_good get_cdcm_info_good split: if_splits)

definition start_request :: "server_env \<Rightarrow> string \<Rightarrow> string \<Rightarrow> credentials \<Rightarrow> server \<Rightarrow> act_result" where
  "start_request E i rem c s = start_session_act E None
     (Start_session_msg i rem (domain c) (username c) (password c) (workstation c)) result_msg_default s"

lemma add_No_Fault: "add uts now No_Fault sp C = (True, add_shared now (convert_to_shared uts sp) C)"
  by (simp add: add_def)

section \<open>Properties\<close>

text \<open>
  Every local action, on every message, session and server state, returns a response: it
  never throws, aborts or postpones; it reports success exactly when the status code of the
  response is 101, and it keeps the sessions cache free of duplicates.
\<close>

theorem local_actions_total:
  assumes "dfind n (public_dispatcher E) = Some a" and "cache_ok (sessions s)"
  shows "\<exists>st res' s'. act a sess m res s = Ok (st, res', s') \<and> st \<noteq> POSTPONED
    \<and> (st = SUCCEEDED \<longleftrightarrow> code (msg_status res') = 101) \<and> cache_ok (sessions s')"
  using public_act_good [OF assms(1), of s sess m res] assms(2) by (auto simp: act_good_def)

theorem local_actions_total_witness:
  "\<exists>st res' s'. start_session_act \<lparr>uuid_to_string = (\<lambda>u. ''u''), string_to_uuid = (\<lambda>t. None), cdcm_version = ''1''\<rparr> None
      (Close_session_msg ''1'') result_msg_default
      \<lparr>sessions = \<lparr>elements = [], idle_timeout = 60\<rparr>, clock = 0, randoms = (\<lambda>n. 5), drawn = 0, faults = (\<lambda>n. No_Fault), service_conf = empty_dispatcher, get_sd_called = False\<rparr>
      = Ok (st, res', s') \<and> st \<noteq> POSTPONED
    \<and> (st = SUCCEEDED \<longleftrightarrow> code (msg_status res') = 101) \<and> cache_ok (sessions s')"
  using local_actions_total [of "''start_session''" "\<lparr>uuid_to_string = (\<lambda>u. ''u''), string_to_uuid = (\<lambda>t. None), cdcm_version = ''1''\<rparr>"
      "Start_Session \<lparr>uuid_to_string = (\<lambda>u. ''u''), string_to_uuid = (\<lambda>t. None), cdcm_version = ''1''\<rparr>"
      "\<lparr>sessions = \<lparr>elements = [], idle_timeout = 60\<rparr>, clock = 0, randoms = (\<lambda>n. 5), drawn = 0, faults = (\<lambda>n. No_Fault), service_conf = empty_dispatcher, get_sd_called = False\<rparr>"
      None "Close_session_msg ''1''" result_msg_default]
  by (simp add: find_public cache_ok_def unique_by_def)

text \<open>
  C9. Life of a session: after \<open>start_session\<close> with a host and a user the response carries the
  request's id, status 101 and the new session's identifier; that identifier retrieves a session
  with the given host and credentials; \<open>close_session\<close> on the retrieved session succeeds and
  the identifier retrieves nothing any more.
\<close>

theorem session_life_cycle:
  assumes "cache_ok (sessions s)" and "rem \<noteq> []" and "username c \<noteq> []" and "nul_free rem"
    and "faults s (drawn s) = No_Fault" and "randoms s (drawn s) = u" and "u \<noteq> 0"
    and "sid = uuid_to_string E u" and "nul_free sid" and "string_to_uuid E sid = Some u"
    and "find_id sid (sessions s) = None"
  shows "\<exists>res s1 ss cache res2 s2.
      start_request E i rem c s = Ok (SUCCEEDED, res, s1)
    \<and> msg_id res = i \<and> code (msg_status res) = 101 \<and> msg_result res = JStr sid
    \<and> get_session (string_to_uuid E) now sid (sessions s1) = (Some ss, cache)
    \<and> remote ss = rem \<and> creds ss = c
    \<and> close_session_act E (Some ss) (Close_session_msg j) result_msg_default (s1\<lparr>sessions := cache\<rparr>) = Ok (SUCCEEDED, res2, s2)
    \<and> msg_id res2 = j \<and> fst (get_session (string_to_uuid E) now' sid (sessions s2)) = None"
proof -
  let ?n = "new_session u rem c"
  let ?sm = "convert_to_shared (uuid_to_string E) ?n"
  have sm: "s_id ?sm = sid" "s_remote ?sm = rem"
    using assms(8) by (simp_all add: new_session_def)
  have found: "find_id sid (add_shared (clock s) ?sm (sessions s)) = Some ?sm"
    using find_id_add_shared [of "sessions s" ?sm sid "clock s"] assms(1,4,11) sm by simp
  have conv: "convert_from_shared (string_to_uuid E) ?sm = Some ?n"
    using convert_roundtrip [of "string_to_uuid E" "uuid_to_string E" ?n] assms(8,10) by (simp add: new_session_def)
  let ?s1 = "s\<lparr>sessions := add_shared (clock s) ?sm (sessions s), drawn := drawn s + 1\<rparr>"
  let ?c1 = "renew element_id now sid (sessions ?s1)"
  let ?ok = "error_status CE_OK"
  have eta: "\<lparr>domain = domain c, username = username c, password = password c, workstation = workstation c\<rparr> = c"
    by simp
  have start: "start_request E i rem c s =
      Ok (SUCCEEDED, (set_id i result_msg_default)\<lparr>msg_status := ?ok, msg_result := JStr sid\<rparr>, ?s1)"
    unfolding start_request_def start_session_act_def eta
    using assms(2,3,5,6,8) by (simp add: eta add_No_Fault resp_simps idstr_def new_session_def)
  have got: "get_session (string_to_uuid E) now sid (sessions ?s1) = (Some ?n, ?c1)"
    using found conv assms(9) by (simp add: get_session_def get_session_by_id)
  have closed: "close_session_act E (Some ?n) (Close_session_msg j) result_msg_default (?s1\<lparr>sessions := ?c1\<rparr>) =
      Ok (SUCCEEDED, (set_id j result_msg_default)\<lparr>msg_status := ?ok, msg_result := JStr ''Session closed''\<rparr>,
          ?s1\<lparr>sessions := snd (remove_by_id sid ?c1)\<rparr>)"
    using assms(7,8) by (simp add: close_session_act_def is_nil_def new_session_def idstr_def resp_simps)
  have gone: "fst (get_session (string_to_uuid E) now' sid (snd (remove_by_id sid ?c1))) = None"
    using assms(9) by (simp add: get_session_def get_session_by_id find_id_erase)
  show ?thesis
    by (intro exI conjI, rule start, simp, simp add: error_status_code, simp, rule got,
        simp add: new_session_def, simp add: new_session_def, rule closed, simp)
      (use gone in simp)
qed

theorem session_life_cycle_witness:
  "\<exists>res s1. start_request \<lparr>uuid_to_string = (\<lambda>u. ''u5''), string_to_uuid = (\<lambda>t. Some 5), cdcm_version = ''1''\<rparr> ''1'' ''h''
      (no_credentials\<lparr>username := ''bob''\<rparr>)
      \<lparr>sessions = \<lparr>elements = [], idle_timeout = 60\<rparr>, clock = 0, randoms = (\<lambda>n. 5), drawn = 0, faults = (\<lambda>n. No_Fault), service_conf = empty_dispatcher, get_sd_called = False\<rparr>
      = Ok (SUCCEEDED, res, s1) \<and> msg_result res = JStr ''u5''"
  using session_life_cycle [of "\<lparr>sessions = \<lparr>elements = [], idle_timeout = 60\<rparr>, clock = 0, randoms = (\<lambda>n. 5), drawn = 0, faults = (\<lambda>n. No_Fault), service_conf = empty_dispatcher, get_sd_called = False\<rparr>"
      "''h''" "no_credentials\<lparr>username := ''bob''\<rparr>" 5 "''u5''"
      "\<lparr>uuid_to_string = (\<lambda>u. ''u5''), string_to_uuid = (\<lambda>t. Some 5), cdcm_version = ''1''\<rparr>" "''1''" 3 "''2''" 4]
  by (auto simp: cache_ok_def unique_by_def find_id_None)

end
