(* ===== verification/Message_Broker.thy ===== *)
theory Message_Broker
  imports Zmq_Message Worker_Container Frontend_Actions
begin

text \<open>
  \<open>src/src/frontend/message_broker.*\<close>: the broker between the clients (external ROUTER
  socket) and the workers (internal ROUTER socket). What it sends is appended to
  \<open>external_out\<close> and \<open>internal_out\<close>, one list of frames for each message; a received message
  is the list of receive events of \<open>Zmq_Message\<close>. Log calls are not modelled. The JSON text
  parser and printer, the clock and the choice among workers with an equivalent index key are
  fields of the environment.
\<close>

record broker_env =
  now_ms :: int
  pick :: "worker list \<Rightarrow> worker"
  actions :: "action dispatcher"
  uuid_parse :: "string \<Rightarrow> 128 word option"
  from_string :: "string \<Rightarrow> json outcome"
  to_text :: "json \<Rightarrow> string outcome"
  heartbeat_interval :: int

record broker =
  workers :: worker_container
  requests :: "(zmsg \<times> string) list"
  replied :: "64 word"
  internal_out :: "string list list"
  external_out :: "string list list"
  srv :: server

definition send_internal :: "zmsg \<Rightarrow> broker \<Rightarrow> broker outcome" where
  "send_internal m B = bind_o (send m) (\<lambda>fs. Ok (B\<lparr>internal_out := internal_out B @ [fs]\<rparr>))"

definition send_external :: "zmsg \<Rightarrow> broker \<Rightarrow> broker outcome" where
  "send_external m B = bind_o (send m) (\<lambda>fs. Ok (B\<lparr>external_out := external_out B @ [fs]\<rparr>))"

section \<open>Workers\<close>

text \<open>\<open>worker_send\<close>; a null message is \<open>None\<close>, the worker is used for its identity only.\<close>

definition worker_frames :: "string \<Rightarrow> string \<Rightarrow> string \<Rightarrow> zmsg option \<Rightarrow> zmsg" where
  "worker_frames wid command option msg =
     (let m = (case msg of Some m \<Rightarrow> m | None \<Rightarrow> []);
          m = (if option \<noteq> [] then push_front option m else m);
          m = push_front MDPW_WORKER (push_front command m)
      in wrap wid (Some []) m)"

definition worker_send :: "string \<Rightarrow> string \<Rightarrow> string \<Rightarrow> zmsg option \<Rightarrow> broker \<Rightarrow> broker outcome" where
  "worker_send wid command option msg B = send_internal (worker_frames wid command option msg) B"

definition worker_delete :: "string \<Rightarrow> bool \<Rightarrow> broker \<Rightarrow> broker outcome" where
  "worker_delete wid send_disconnect B =
     bind_o (if send_disconnect then worker_send wid MDPW_DISCONNECT [] None B else Ok B)
       (\<lambda>B'. Ok (B'\<lparr>workers := snd (erase_worker wid (workers B'))\<rparr>))"

definition expired_idle :: "int \<Rightarrow> worker_container \<Rightarrow> string list" where
  "expired_idle now C = map identity (filter (\<lambda>w. expiry w \<le> now) (idle_workers C))"

primrec delete_all :: "string list \<Rightarrow> broker \<Rightarrow> broker outcome" where
  "delete_all [] B = Ok B"
| "delete_all (w # ws) B = bind_o (worker_delete w False B) (delete_all ws)"

definition purge_workers :: "broker_env \<Rightarrow> broker \<Rightarrow> broker outcome" where
  "purge_workers E B = delete_all (expired_idle (now_ms E) (workers B)) B"

definition worker_require :: "broker_env \<Rightarrow> string \<Rightarrow> broker \<Rightarrow> broker outcome" where
  "worker_require E i B =
     (if i = [] then Abort
      else if exists i (workers B) then Ok B
      else Ok (B\<lparr>workers := insert_worker (now_ms E) (new_worker i) (workers B)\<rparr>))"

section \<open>Dispatching\<close>

text \<open>
  The worker for the request at the front of the queue: the one that last worked on its
  session if that one is idle, else \<open>get_next_worker\<close>.
\<close>

definition choose_worker :: "broker_env \<Rightarrow> string \<Rightarrow> worker_container \<Rightarrow> worker option" where
  "choose_worker E sid C =
     (case get_by_last_worked_session (pick E) sid C of
        Some w \<Rightarrow> (if idle w then Some w else get_next_worker (pick E) C)
      | None \<Rightarrow> get_next_worker (pick E) C)"

text \<open>
  The loop of \<open>service_dispatch\<close>: its condition on the idle workers compares two iterators
  that were taken before the loop and do not change in it; what is left of the condition is
  that the queue is not empty. \<open>sid\<close> is the argument of the call, not the session of the
  request being sent.
\<close>

primrec dispatch_loop :: "broker_env \<Rightarrow> string \<Rightarrow> (zmsg \<times> string) list \<Rightarrow> broker \<Rightarrow> broker outcome" where
  "dispatch_loop E sid [] B = Ok (B\<lparr>requests := []\<rparr>)"
| "dispatch_loop E sid (r # rs) B =
     (case choose_worker E (snd r) (workers B) of
        None \<Rightarrow> UB
      | Some w \<Rightarrow>
          bind_o (worker_send (identity w) MDPW_REQUEST [] (Some (fst r)) (B\<lparr>requests := rs\<rparr>)) (\<lambda>B1.
          bind_o (update_last_worked (identity w) sid (snd (set_busy (identity w) (workers B1)))) (\<lambda>(_, C).
            dispatch_loop E sid rs (B1\<lparr>workers := C\<rparr>))))"

definition service_dispatch :: "broker_env \<Rightarrow> zmsg option \<Rightarrow> string \<Rightarrow> broker \<Rightarrow> broker outcome" where
  "service_dispatch E msg sid B =
     (let B1 = (case msg of Some m \<Rightarrow> B\<lparr>requests := requests B @ [(m, sid)]\<rparr> | None \<Rightarrow> B)
      in bind_o (purge_workers E B1) (\<lambda>B2.
         if idle_workers (workers B2) = [] then Ok B2
         else dispatch_loop E sid (requests B2) B2))"

definition worker_waiting :: "broker_env \<Rightarrow> string \<Rightarrow> broker \<Rightarrow> broker outcome" where
  "worker_waiting E wid B =
     bind_o (update_expiration (now_ms E) wid (snd (set_idle wid (workers B)))) (\<lambda>(_, C).
       service_dispatch E None [] (B\<lparr>workers := C\<rparr>))"

definition worker_process :: "broker_env \<Rightarrow> string \<Rightarrow> zmsg \<Rightarrow> broker \<Rightarrow> broker outcome" where
  "worker_process E sender msg B =
     (if parts msg < 1 then Abort
      else let (part, m) = pop_front msg;
               command = c_str part;
               worker_ready = exists sender (workers B)
        in bind_o (worker_require E sender B) (\<lambda>B1.
          if command = MDPW_READY then
            (if worker_ready then worker_delete sender True B1 else worker_waiting E sender B1)
          else if command = MDPW_REPLY then
            (if worker_ready then
               (let (client, m') = unwrap m
                in if client \<noteq> [] then
                     bind_o (send_external (wrap client (Some []) (wrap MDPC_CLIENT (Some []) m')) B1) (\<lambda>B2.
                       worker_waiting E sender (B2\<lparr>replied := replied B2 + 1\<rparr>))
                   else Ok B1)
             else worker_delete sender True B1)
          else if command = MDPW_HEARTBEAT then
            (if worker_ready then
               bind_o (update_expiration (now_ms E) sender (workers B1)) (\<lambda>(_, C). Ok (B1\<lparr>workers := C\<rparr>))
             else worker_delete sender True B1)
          else if command = MDPW_DISCONNECT then worker_delete sender False B1
          else Ok B1))"

section \<open>Clients\<close>

definition do_act ::
  "broker_env \<Rightarrow> action_msg \<Rightarrow> session option \<Rightarrow> res_msg \<times> broker \<Rightarrow> (res_msg \<times> broker) outcome" where
  "do_act E m sess rB =
     (let (rm, B) = rB
      in case dfind (action_name m) (actions E) of
           None \<Rightarrow> UB
         | Some a \<Rightarrow>
             bind_o (act a sess m result_msg_default (srv B)) (\<lambda>(st, res, s').
               Ok (rm\<lparr>res_msgs := res_msgs rm @ [res]\<rparr>, B\<lparr>srv := s', replied := replied B + 1\<rparr>)))"

primrec do_acts ::
  "broker_env \<Rightarrow> action_msg list \<Rightarrow> session option \<Rightarrow> res_msg \<times> broker \<Rightarrow> (res_msg \<times> broker) outcome" where
  "do_acts E [] sess rB = Ok rB"
| "do_acts E (m # ms) sess rB = bind_o (do_act E m sess rB) (do_acts E ms sess)"

definition send_local_to_client :: "broker_env \<Rightarrow> res_msg \<Rightarrow> string \<Rightarrow> string \<Rightarrow> broker \<Rightarrow> broker outcome" where
  "send_local_to_client E rm sender client B =
     (if client \<noteq> [] \<and> sender \<noteq> [] then
        bind_o (to_text E (res_msg_to_json rm)) (\<lambda>res_body.
          send_external (wrap sender (Some []) (wrap MDPC_CLIENT (Some client) (body_set res_body []))) B)
      else Ok B)"

text \<open>The first loop of \<open>client_process\<close>: what it collected and how it ended.\<close>

definition classify :: "action dispatcher \<Rightarrow> json \<Rightarrow> (action_msg + (string \<times> json) list) outcome" where
  "classify D v =
     bind_o (get_object v) (\<lambda>obj.
     bind_o (first_key obj) (\<lambda>act_key.
       case dfind act_key D of
         Some a \<Rightarrow> bind_o (get_message a v) (\<lambda>m. Ok (Inl m))
       | None \<Rightarrow> Ok (Inr obj)))"

fun collect_actions ::
  "action dispatcher \<Rightarrow> json list \<Rightarrow> action_msg list \<Rightarrow> (string \<times> json) list list
    \<Rightarrow> action_msg list \<times> (string \<times> json) list list \<times> unit outcome" where
  "collect_actions D [] known_msgs unknown_msgs = (known_msgs, unknown_msgs, Ok ())"
| "collect_actions D (v # vs) known_msgs unknown_msgs =
     (case classify D v of
        Ok (Inl m) \<Rightarrow> collect_actions D vs (known_msgs @ [m]) unknown_msgs
      | Ok (Inr obj) \<Rightarrow> collect_actions D vs known_msgs (unknown_msgs @ [obj])
      | Throw \<Rightarrow> (known_msgs, unknown_msgs, Throw)
      | Abort \<Rightarrow> (known_msgs, unknown_msgs, Abort)
      | UB \<Rightarrow> (known_msgs, unknown_msgs, UB))"

definition header_default :: header where
  "header_default = \<lparr>session_id = []\<rparr>"

text \<open>The \<open>try\<close> block: the header, the known and the unknown actions, and how it was left.\<close>

definition parse_request ::
  "broker_env \<Rightarrow> string \<Rightarrow> header \<times> action_msg list \<times> (string \<times> json) list list \<times> unit outcome" where
  "parse_request E mstr =
     (case bind_o (from_string E mstr) (\<lambda>v. bind_o (get_object v) (\<lambda>obj.
             bind_o (map_at obj ''H'') (\<lambda>h. bind_o (json_to_header h) (\<lambda>hdr. Ok (obj, hdr))))) of
        Ok (obj, hdr) \<Rightarrow>
          (case bind_o (map_at obj ''msgs'') get_array of
             Ok vs \<Rightarrow> (hdr, collect_actions (actions E) vs [] [])
           | Throw \<Rightarrow> (hdr, [], [], Throw)
           | Abort \<Rightarrow> (hdr, [], [], Abort)
           | UB \<Rightarrow> (hdr, [], [], UB))
      | Throw \<Rightarrow> (header_default, [], [], Throw)
      | Abort \<Rightarrow> (header_default, [], [], Abort)
      | UB \<Rightarrow> (header_default, [], [], UB))"

definition with_session :: "broker_env \<Rightarrow> string \<Rightarrow> broker \<Rightarrow> session option \<times> broker" where
  "with_session E sid B =
     (let (sess, C) = get_session (uuid_parse E) (clock (srv B)) sid (sessions (srv B))
      in (sess, B\<lparr>srv := (srv B)\<lparr>sessions := C\<rparr>\<rparr>))"

text \<open>The \<open>catch\<close> block: it does not leave the function.\<close>

definition malformed_reply :: "broker_env \<Rightarrow> header \<Rightarrow> string \<Rightarrow> zmsg \<Rightarrow> broker \<Rightarrow> (zmsg \<times> broker) outcome" where
  "malformed_reply E hdr sender msg B =
     bind_o (set_response_for_error MALFORMED_MESSAGE (set_id ''N/A'' result_msg_default)) (\<lambda>res.
       let (client, m') = unwrap msg
       in bind_o (send_local_to_client E \<lparr>res_hdr = hdr, res_msgs = [res]\<rparr> sender client (snd (with_session E (session_id hdr) B)))
            (\<lambda>B'. Ok (m', B')))"

definition touch_session :: "header \<Rightarrow> broker \<Rightarrow> broker" where
  "touch_session hdr B =
     (if session_id hdr \<noteq> ''N/A''
      then B\<lparr>srv := (srv B)\<lparr>sessions := snd (touch_by element_id (clock (srv B)) (session_id hdr) (sessions (srv B)))\<rparr>\<rparr>
      else B)"

definition run_known ::
  "broker_env \<Rightarrow> header \<Rightarrow> action_msg list \<Rightarrow> string \<Rightarrow> zmsg \<Rightarrow> broker \<Rightarrow> broker outcome" where
  "run_known E hdr known_msgs sender msg B =
     (if known_msgs = [] then Ok B
      else let (sess, B1) = with_session E (session_id hdr) B
        in bind_o (do_acts E known_msgs sess (\<lparr>res_hdr = hdr, res_msgs = []\<rparr>, B1)) (\<lambda>(rm, B2).
             send_local_to_client E rm sender (fst (unwrap msg)) B2))"

definition forward_unknown ::
  "broker_env \<Rightarrow> header \<Rightarrow> (string \<times> json) list list \<Rightarrow> string \<Rightarrow> broker \<Rightarrow> broker outcome" where
  "forward_unknown E hdr unknown_msgs sender B =
     (if unknown_msgs = [] then Ok B
      else bind_o (to_text E (raw_msg_to_json \<lparr>raw_hdr = hdr, raw_msgs = unknown_msgs\<rparr>)) (\<lambda>text.
        service_dispatch E (Some (wrap sender (Some []) (body_set text []))) (session_id hdr) B))"

definition client_process :: "broker_env \<Rightarrow> string \<Rightarrow> zmsg \<Rightarrow> broker \<Rightarrow> broker outcome" where
  "client_process E sender msg B =
     (if parts msg < 2 then Abort
      else let (hdr, known_msgs, unknown_msgs, parsed) = parse_request E (case body msg of Some b \<Rightarrow> b | None \<Rightarrow> [])
        in bind_o (case parsed of
                     Ok _ \<Rightarrow> Ok (msg, B)
                   | Throw \<Rightarrow> malformed_reply E hdr sender msg B
                   | Abort \<Rightarrow> Abort
                   | UB \<Rightarrow> UB) (\<lambda>(m, B1).
           bind_o (run_known E hdr known_msgs sender m (touch_session hdr B1)) (\<lambda>B2.
             forward_unknown E hdr unknown_msgs sender B2)))"

section \<open>The loop\<close>

text \<open>
  \<open>handle_message\<close>. Events that do not end a message leave the call waiting; the state is then
  the same.
\<close>

definition handle_message ::
  "string \<Rightarrow> (string \<Rightarrow> zmsg \<Rightarrow> broker \<Rightarrow> broker outcome) \<Rightarrow> recv_event list \<Rightarrow> broker \<Rightarrow> broker outcome" where
  "handle_message expected_origin process_func es B =
     (case recv es of
        None \<Rightarrow> Ok B
      | Some r \<Rightarrow> bind_o r (\<lambda>(received, msg).
          if \<not> received \<or> parts msg = 0 then Ok B
          else let (p1, m1) = pop_front msg;
                   m2 = snd (pop_front m1);
                   (p3, m3) = pop_front m2
            in if c_str p3 = expected_origin then process_func (c_str p1) m3 B else Ok B))"

text \<open>
  One turn of \<open>broker_loop\<close>: what \<open>poll\<close> found on the two sockets, the time after it, and the
  timer. The heartbeats of one turn go to the workers that are idle after the purge.
\<close>

record turn =
  turn_now :: int
  internal_in :: "recv_event list option"
  external_in :: "recv_event list option"

primrec heartbeat_all :: "worker list \<Rightarrow> broker \<Rightarrow> broker outcome" where
  "heartbeat_all [] B = Ok B"
| "heartbeat_all (w # ws) B = bind_o (worker_send (identity w) MDPW_HEARTBEAT [] None B) (heartbeat_all ws)"

definition broker_turn :: "broker_env \<Rightarrow> turn \<Rightarrow> broker \<times> int \<Rightarrow> (broker \<times> int) outcome" where
  "broker_turn E0 t Bh =
     (let (B0, heartbeat_at) = Bh;
          E = E0\<lparr>now_ms := turn_now t\<rparr>;
          B = B0\<lparr>srv := (srv B0)\<lparr>clock := turn_now t div 1000\<rparr>\<rparr>
      in bind_o (case internal_in t of None \<Rightarrow> Ok B | Some es \<Rightarrow> handle_message MDPW_WORKER (worker_process E) es B) (\<lambda>B1.
         bind_o (case external_in t of None \<Rightarrow> Ok B1 | Some es \<Rightarrow> handle_message MDPC_CLIENT (client_process E) es B1) (\<lambda>B2.
         if turn_now t \<ge> heartbeat_at then
           bind_o (purge_workers E B2) (\<lambda>B3.
           bind_o (heartbeat_all (idle_workers (workers B3)) B3) (\<lambda>B4.
             Ok (B4, heartbeat_at + heartbeat_interval E)))
         else Ok (B2, heartbeat_at))))"

primrec broker_loop :: "broker_env \<Rightarrow> turn list \<Rightarrow> broker \<times> int \<Rightarrow> (broker \<times> int) outcome" where
  "broker_loop E [] Bh = Ok Bh"
| "broker_loop E (t # ts) Bh = bind_o (broker_turn E t Bh) (broker_loop E ts)"

definition new_broker :: "int \<Rightarrow> server \<Rightarrow> broker" where
  "new_broker heartbeat_expiry_s s =
     \<lparr>workers = empty_workers heartbeat_expiry_s, requests = [], replied = 0,
       internal_out = [], external_out = [], srv = s\<rparr>"

section \<open>Sending\<close>

lemma send_internal_clean:
  "clean_msg m \<Longrightarrow> send_internal m B = Ok (B\<lparr>internal_out := internal_out B @ [sent m]\<rparr>)"
  by (simp add: send_internal_def send_clean)

lemma send_external_clean:
  "clean_msg m \<Longrightarrow> send_external m B = Ok (B\<lparr>external_out := external_out B @ [sent m]\<rparr>)"
  by (simp add: send_external_def send_clean)

lemma clean_worker_frames [simp]: "clean_msg (worker_frames w c option msg) = (case msg of None \<Rightarrow> True | Some m \<Rightarrow> clean_msg m)"
  by (simp add: worker_frames_def Let_def split: option.split)

lemma worker_send_clean:
  "(case msg of None \<Rightarrow> True | Some m \<Rightarrow> clean_msg m) \<Longrightarrow>
   worker_send w c option msg B = Ok (B\<lparr>internal_out := internal_out B @ [sent (worker_frames w c option msg)]\<rparr>)"
  by (simp add: worker_send_def send_internal_clean)

section \<open>Invariant of the broker\<close>

definition ids_ok :: "worker_container \<Rightarrow> bool" where
  "ids_ok C \<longleftrightarrow> workers_ok C \<and> [] \<notin> known C"

definition broker_ok :: "broker \<Rightarrow> bool" where
  "broker_ok B \<longleftrightarrow> ids_ok (workers B) \<and> (\<forall>r \<in> set (requests B). clean_msg (fst r)) \<and> cache_ok (sessions (srv B))"

definition erase_all :: "string list \<Rightarrow> worker_container \<Rightarrow> worker_container" where
  "erase_all ids C = fold (\<lambda>i C. snd (erase_worker i C)) ids C"

lemma delete_all_eq: "delete_all ids B = Ok (B\<lparr>workers := erase_all ids (workers B)\<rparr>)"
  by (induction ids arbitrary: B) (simp_all add: erase_all_def worker_delete_def)

definition purged :: "int \<Rightarrow> worker_container \<Rightarrow> worker_container" where
  "purged now C = erase_all (expired_idle now C) C"

lemma purge_eq: "purge_workers E B = Ok (B\<lparr>workers := purged (now_ms E) (workers B)\<rparr>)"
  by (simp add: purge_workers_def delete_all_eq purged_def)

lemma get_worker_erase_all: "get_worker j (erase_all ids C) = (if j \<in> set ids then None else get_worker j C)"
  by (induction ids arbitrary: C) (simp_all add: erase_all_def get_worker_erase)

lemma known_erase_all: "known (erase_all ids C) = known C - set ids"
  by (induction ids arbitrary: C) (auto simp: erase_all_def)

lemma workers_ok_erase_all: "workers_ok C \<Longrightarrow> workers_ok (erase_all ids C)"
  by (induction ids arbitrary: C) (simp_all add: erase_all_def)

lemma set_expired_idle: "workers_ok C \<Longrightarrow>
  j \<in> set (expired_idle now C) \<longleftrightarrow> (\<exists>w. get_worker j C = Some w \<and> idle w \<and> expiry w \<le> now)"
  by (auto simp: expired_idle_def idle_workers_def workers_ok_def get_worker_def lookup_by_unique_iff)

lemma get_worker_purged: "workers_ok C \<Longrightarrow> get_worker j (purged now C) =
  (case get_worker j C of Some w \<Rightarrow> (if idle w \<and> expiry w \<le> now then None else Some w) | None \<Rightarrow> None)"
  by (auto simp: purged_def get_worker_erase_all set_expired_idle split: option.split)

lemma ids_ok_purged: "ids_ok C \<Longrightarrow> ids_ok (purged now C)"
  by (simp add: ids_ok_def purged_def workers_ok_erase_all known_erase_all)

lemma heartbeat_expiry_erase_all [simp]: "heartbeat_expiry (erase_all ids C) = heartbeat_expiry C"
  by (induction ids arbitrary: C) (simp_all add: erase_all_def erase_worker_def)

lemma known_purged_subset: "known (purged now C) \<subseteq> known C"
  by (auto simp: purged_def known_erase_all)

section \<open>Dispatching\<close>

lemma choose_worker_in:
  assumes "tie_choice (pick E)" "cont C \<noteq> []"
  shows "\<exists>w. choose_worker E sid C = Some w \<and> w \<in> set (cont C)"
proof -
  have "\<exists>w. get_next_worker (pick E) C = Some w \<and> w \<in> set (cont C)"
    using get_next_worker_in [OF assms(1)] assms(2) by (auto simp: get_next_worker_def)
  then show ?thesis
    using get_by_last_worked_in [OF assms(1), of sid C]
    by (auto simp: choose_worker_def split: option.split)
qed

lemma set_busy_facts: "workers_ok C \<Longrightarrow> workers_ok (snd (set_busy i C))" "known (snd (set_busy i C)) = known C"
  "get_worker j (snd (set_busy i C)) = (if j = i then map_option (\<lambda>w. w\<lparr>idle := False\<rparr>) (get_worker i C) else get_worker j C)"
  by (simp_all add: set_busy_def get_modify_idle)

lemma update_last_worked_known:
  assumes "i \<in> known C"
  shows "\<exists>C'. update_last_worked i sid C = Ok (True, C') \<and> known C' = known C \<and> (workers_ok C \<longrightarrow> workers_ok C')
    \<and> (\<forall>j. get_worker j C' = (if j = i then map_option (\<lambda>w. w\<lparr>last_worked_session := sid\<rparr>) (get_worker i C) else get_worker j C))"
  using assms
  by (auto simp: update_last_worked_def lookup_worker_None known_modify get_worker_modify workers_ok_def unique_modify_by)

lemma update_expiration_known:
  assumes "i \<in> known C"
  shows "\<exists>C'. update_expiration now i C = Ok (True, C') \<and> known C' = known C \<and> (workers_ok C \<longrightarrow> workers_ok C')
    \<and> (\<forall>j. get_worker j C' = (if j = i then map_option (\<lambda>w. w\<lparr>expiry := now + heartbeat_expiry C\<rparr>) (get_worker i C) else get_worker j C))"
  using assms
  by (auto simp: update_expiration_def lookup_worker_None known_modify get_worker_modify workers_ok_def unique_modify_by)

text \<open>
  The dispatch loop: it returns, it empties the queue, and it sends the queued messages in
  order, each to one of the known workers, which is busy afterwards.
\<close>

definition request_frames :: "string \<Rightarrow> zmsg \<times> string \<Rightarrow> string list" where
  "request_frames w r = sent (worker_frames w MDPW_REQUEST [] (Some (fst r)))"

lemma cont_known: "cont C = [] \<longleftrightarrow> known C = {}"
  by (simp add: known_def)

lemma dispatch_loop_Ok:
  assumes "tie_choice (pick E)" "workers_ok (workers B)" "known (workers B) \<noteq> {}" "\<forall>r \<in> set rs. clean_msg (fst r)"
  shows "\<exists>ws C. dispatch_loop E sid rs B =
      Ok (B\<lparr>requests := [], workers := C, internal_out := internal_out B @ map2 request_frames ws rs\<rparr>)
    \<and> length ws = length rs \<and> set ws \<subseteq> known (workers B) \<and> workers_ok C \<and> known C = known (workers B)
    \<and> (\<forall>w \<in> set ws. \<not> is_idle w C) \<and> (\<forall>j. is_idle j C \<longrightarrow> is_idle j (workers B))"
  using assms(2-)
proof (induction rs arbitrary: B)
  case Nil
  then show ?case by (intro exI [of _ "[]"] exI [of _ "workers B"]) simp
next
  case (Cons r rs)
  obtain w where w: "choose_worker E (snd r) (workers B) = Some w" "w \<in> set (cont (workers B))"
    using choose_worker_in [OF assms(1)] Cons.prems(2) by (metis cont_known)
  let ?i = "identity w" and ?b = "snd (set_busy (identity w) (workers B))"
  have i: "?i \<in> known (workers B)" using w(2) by (simp add: known_def)
  then have "?i \<in> known ?b" by (simp add: set_busy_facts)
  from update_last_worked_known [OF this, of sid] obtain C1 where
    C1: "update_last_worked ?i sid ?b = Ok (True, C1)" "known C1 = known (workers B)" "workers_ok C1"
      "\<And>j. get_worker j C1 = (if j = ?i then map_option (\<lambda>w. w\<lparr>last_worked_session := sid\<rparr>) (get_worker ?i ?b) else get_worker j ?b)"
    using Cons.prems(1) by (auto simp: set_busy_facts)
  have idle1: "is_idle j C1 \<longleftrightarrow> j \<noteq> ?i \<and> is_idle j (workers B)" for j
    using C1(3,4) Cons.prems(1) by (auto simp: is_idle_get set_busy_facts)
  let ?B1 = "B\<lparr>requests := rs, internal_out := internal_out B @ [request_frames ?i r], workers := C1\<rparr>"
  have "known (workers ?B1) \<noteq> {}" "workers_ok (workers ?B1)" "\<forall>r \<in> set rs. clean_msg (fst r)"
    using C1 Cons.prems by auto
  from Cons.IH [OF this(2) this(1) this(3)] obtain ws C where
    IH: "dispatch_loop E sid rs ?B1 =
        Ok (?B1\<lparr>requests := [], workers := C, internal_out := internal_out ?B1 @ map2 request_frames ws rs\<rparr>)"
      "length ws = length rs" "set ws \<subseteq> known (workers B)" "workers_ok C" "known C = known (workers B)"
      "\<forall>w \<in> set ws. \<not> is_idle w C" "\<forall>j. is_idle j C \<longrightarrow> j \<noteq> ?i \<and> is_idle j (workers B)"
    using C1(2) idle1 by auto
  have "dispatch_loop E sid (r # rs) B = dispatch_loop E sid rs ?B1"
    using w(1) C1(1) Cons.prems(3) by (simp add: worker_send_clean request_frames_def)
  with IH i show ?case by (intro exI [of _ "?i # ws"] exI [of _ C]) auto
qed

lemma service_dispatch_Ok:
  fixes sid :: string
  assumes "tie_choice (pick E)" "broker_ok B" "case msg of None \<Rightarrow> True | Some m \<Rightarrow> clean_msg m"
  defines "q \<equiv> requests B @ (case msg of None \<Rightarrow> [] | Some m \<Rightarrow> [(m, sid)])"
  shows "if idle_workers (purged (now_ms E) (workers B)) = []
    then service_dispatch E msg sid B = Ok (B\<lparr>requests := q, workers := purged (now_ms E) (workers B)\<rparr>)
    else \<exists>ws C. service_dispatch E msg sid B =
        Ok (B\<lparr>requests := [], workers := C, internal_out := internal_out B @ map2 request_frames ws q\<rparr>)
      \<and> length ws = length q \<and> set ws \<subseteq> known C \<and> ids_ok C \<and> known C \<subseteq> known (workers B)
      \<and> (\<forall>w \<in> set ws. \<not> is_idle w C)"
proof -
  let ?P = "purged (now_ms E) (workers B)" and ?B1 = "B\<lparr>requests := q\<rparr>"
  have eq: "service_dispatch E msg sid B =
     (if idle_workers ?P = [] then Ok (?B1\<lparr>workers := ?P\<rparr>) else dispatch_loop E sid q (?B1\<lparr>workers := ?P\<rparr>))"
    by (cases msg) (simp_all add: service_dispatch_def purge_eq q_def)
  have "\<forall>r \<in> set q. clean_msg (fst r)" and P: "ids_ok ?P"
    using assms(2,3) by (auto simp: q_def broker_ok_def ids_ok_purged split: option.splits)
  moreover have "idle_workers ?P \<noteq> [] \<Longrightarrow> known ?P \<noteq> {}"
    by (auto simp: idle_workers_def known_def filter_empty_conv)
  ultimately show ?thesis
  proof (cases "idle_workers ?P = []")
    case False
    then obtain ws C where
      "dispatch_loop E sid q (?B1\<lparr>workers := ?P\<rparr>) =
        Ok (B\<lparr>requests := [], workers := C, internal_out := internal_out B @ map2 request_frames ws q\<rparr>)"
      "length ws = length q" "set ws \<subseteq> known C" "ids_ok C" "known C = known ?P" "\<forall>w \<in> set ws. \<not> is_idle w C"
      using dispatch_loop_Ok [OF assms(1), of "?B1\<lparr>workers := ?P\<rparr>" q sid] P \<open>\<forall>r \<in> set q. clean_msg (fst r)\<close>
        \<open>idle_workers ?P \<noteq> [] \<Longrightarrow> known ?P \<noteq> {}\<close>
      by (auto simp: ids_ok_def)
    with False show ?thesis
      using known_purged_subset [of "now_ms E" "workers B"] by (simp add: eq) blast
  qed (simp add: eq)
qed

lemma service_dispatch_ok:
  assumes "tie_choice (pick E)" "broker_ok B" "case msg of None \<Rightarrow> True | Some m \<Rightarrow> clean_msg m"
  shows "\<exists>B'. service_dispatch E msg sid B = Ok B' \<and> broker_ok B' \<and> external_out B' = external_out B \<and> srv B' = srv B"
proof -
  have "broker_ok (B\<lparr>requests := requests B @ (case msg of None \<Rightarrow> [] | Some m \<Rightarrow> [(m, sid)]),
      workers := purged (now_ms E) (workers B)\<rparr>)"
    using assms(2,3) by (auto simp: broker_ok_def ids_ok_purged split: option.splits)
  then show ?thesis
    using service_dispatch_Ok [OF assms, of sid] assms(2)
    by (auto simp: broker_ok_def split: if_splits)
qed

section \<open>Messages of workers\<close>

lemma set_idle_facts: "workers_ok C \<Longrightarrow> workers_ok (snd (set_idle i C))" "known (snd (set_idle i C)) = known C"
  "heartbeat_expiry (snd (set_idle i C)) = heartbeat_expiry C"
  "get_worker j (snd (set_idle i C)) = (if j = i then map_option (\<lambda>w. w\<lparr>idle := True\<rparr>) (get_worker i C) else get_worker j C)"
  by (simp_all add: set_idle_def get_modify_idle) (simp add: modify_idle_def)

definition unchanged_out :: "broker \<Rightarrow> broker \<Rightarrow> bool" where
  "unchanged_out B B' \<longleftrightarrow> external_out B' = external_out B \<and> srv B' = srv B \<and> replied B' = replied B"

lemma service_dispatch_none_ok:
  assumes "tie_choice (pick E)" "broker_ok B"
  shows "\<exists>B'. service_dispatch E None sid B = Ok B' \<and> broker_ok B' \<and> unchanged_out B B'"
  using service_dispatch_Ok [OF assms, of None sid] assms(2)
  by (auto simp: broker_ok_def unchanged_out_def ids_ok_purged split: if_splits)

lemma worker_waiting_ok:
  assumes "tie_choice (pick E)" "broker_ok B" "wid \<in> known (workers B)"
  shows "\<exists>B'. worker_waiting E wid B = Ok B' \<and> broker_ok B' \<and> unchanged_out B B'"
proof -
  have "wid \<in> known (snd (set_idle wid (workers B)))" using assms(3) by (simp add: set_idle_facts)
  from update_expiration_known [OF this, of "now_ms E"] obtain C where
    C: "update_expiration (now_ms E) wid (snd (set_idle wid (workers B))) = Ok (True, C)"
      "known C = known (workers B)" "workers_ok C"
    using assms(2) by (auto simp: set_idle_facts broker_ok_def ids_ok_def)
  then have "broker_ok (B\<lparr>workers := C\<rparr>)" using assms(2) by (simp add: broker_ok_def ids_ok_def)
  from service_dispatch_none_ok [OF assms(1) this, of "[]"] C(1) show ?thesis
    by (simp add: worker_waiting_def unchanged_out_def)
qed

lemma worker_delete_ok:
  "broker_ok B \<Longrightarrow> \<exists>B'. worker_delete i d B = Ok B' \<and> broker_ok B' \<and> workers B' = snd (erase_worker i (workers B))"
  by (cases d) (auto simp: worker_delete_def worker_send_clean broker_ok_def ids_ok_def)

lemma worker_require_ok:
  assumes "broker_ok B" "i \<noteq> []"
  shows "\<exists>B'. worker_require E i B = Ok B' \<and> broker_ok B' \<and> known (workers B') = insert i (known (workers B))
    \<and> (i \<in> known (workers B) \<longrightarrow> B' = B)"
  using assms by (auto simp: worker_require_def exists_known broker_ok_def ids_ok_def new_worker_def)

lemma worker_process_ok:
  assumes "tie_choice (pick E)" "broker_ok B" "sender \<noteq> []" "msg \<noteq> []" "clean_msg msg"
  shows "\<exists>B'. worker_process E sender msg B = Ok B' \<and> broker_ok B'"
proof -
  obtain p m where msg: "msg = p # m" "nul_free p" "clean_msg m" using assms(4,5) by (cases msg) auto
  obtain c m' where un: "unwrap m = (c, m')" by (cases "unwrap m")
  have m': "clean_msg m'" using clean_unwrap [OF msg(3) un] .
  obtain B1 where B1: "worker_require E sender B = Ok B1" "broker_ok B1" "sender \<in> known (workers B1)"
    using worker_require_ok [OF assms(2,3)] by blast
  have "\<exists>B'. worker_delete sender d B1 = Ok B' \<and> broker_ok B'" for d
    using worker_delete_ok [OF B1(2)] by blast
  moreover have "\<exists>B'. worker_waiting E sender B1 = Ok B' \<and> broker_ok B'"
    using worker_waiting_ok [OF assms(1) B1(2,3)] by blast
  moreover have "\<exists>B'. worker_waiting E sender (B1\<lparr>external_out := xs, replied := n\<rparr>) = Ok B' \<and> broker_ok B'" for xs n
    using worker_waiting_ok [OF assms(1), of "B1\<lparr>external_out := xs, replied := n\<rparr>" sender] B1
    by (auto simp: broker_ok_def)
  moreover obtain C where "update_expiration (now_ms E) sender (workers B1) = Ok (True, C)" "broker_ok (B1\<lparr>workers := C\<rparr>)"
    using update_expiration_known [OF B1(3), of "now_ms E"] B1(2) by (auto simp: broker_ok_def ids_ok_def)
  ultimately show ?thesis
    using B1 m' un msg by (simp add: worker_process_def parts_def send_external_clean Let_def)
qed

section \<open>Messages of clients\<close>

text \<open>
  What the broker's environment has to provide: the three local actions, a choice among tied
  workers, a JSON printer that returns, a JSON parser that returns or throws.
\<close>

definition env_ok :: "broker_env \<Rightarrow> server_env \<Rightarrow> bool" where
  "env_ok E S \<longleftrightarrow> tie_choice (pick E) \<and> actions E = public_dispatcher S \<and> (\<forall>v. is_ok (to_text E v))
     \<and> (\<forall>t. from_string E t \<noteq> Abort \<and> from_string E t \<noteq> UB)"

lemma public_names:
  "dfind n (public_dispatcher S) = Some a \<Longrightarrow> get_message a v = Ok m \<Longrightarrow> action_name m = n"
  by (auto simp: find_public action_as_defs bind_o_Ok_iff split: if_splits)

lemma classify_local: "classify (public_dispatcher S) v = Ok (Inl m) \<Longrightarrow> dhas (action_name m) (public_dispatcher S)"
  by (auto simp: classify_def bind_o_Ok_iff dhas_iff dest: public_names split: option.splits)

lemma collect_local:
  "collect_actions (public_dispatcher S) vs ks us = (ks', us', r) \<Longrightarrow>
   \<forall>m \<in> set ks. dhas (action_name m) (public_dispatcher S) \<Longrightarrow>
   \<forall>m \<in> set ks'. dhas (action_name m) (public_dispatcher S)"
proof (induction vs arbitrary: ks us)
  case (Cons v vs)
  show ?case
  proof (cases "classify (public_dispatcher S) v")
    case (Ok x)
    show ?thesis
    proof (cases x)
      case (Inl m)
      with Ok Cons.prems have "collect_actions (public_dispatcher S) vs (ks @ [m]) us = (ks', us', r)" by simp
      from Cons.IH [OF this] classify_local [of S v m] Ok Inl Cons.prems(2) show ?thesis by simp
    next
      case (Inr obj)
      with Ok Cons.prems have "collect_actions (public_dispatcher S) vs ks (us @ [obj]) = (ks', us', r)" by simp
      from Cons.IH [OF this] Cons.prems(2) show ?thesis by simp
    qed
  qed (use Cons.prems in simp_all)
qed simp

lemma parse_shape:
  "parse_request E t = (hdr, ks, us, r) \<Longrightarrow> ks = [] \<or> (\<exists>vs. collect_actions (actions E) vs [] [] = (ks, us, r))"
  unfolding parse_request_def by (auto split: outcome.split_asm prod.split_asm)

lemma parse_local:
  "actions E = public_dispatcher S \<Longrightarrow> parse_request E t = (hdr, ks, us, r) \<Longrightarrow>
   \<forall>m \<in> set ks. dhas (action_name m) (public_dispatcher S)"
  using parse_shape [of E t hdr ks us r] collect_local [of S _ "[]" "[]" ks us r] by auto

lemma do_acts_ok:
  assumes "actions E = public_dispatcher S" "cache_ok (sessions (srv B))"
    "\<forall>m \<in> set ms. dhas (action_name m) (public_dispatcher S)"
  shows "\<exists>rs s'. do_acts E ms sess (rm, B) = Ok (rm\<lparr>res_msgs := res_msgs rm @ rs\<rparr>,
        B\<lparr>srv := s', replied := replied B + of_nat (length ms)\<rparr>)
      \<and> length rs = length ms \<and> cache_ok (sessions s')"
  using assms(2-)
proof (induction ms arbitrary: rm B)
  case Nil
  then show ?case by (intro exI [of _ "[]"] exI [of _ "srv B"]) simp
next
  case (Cons m ms)
  from Cons.prems(2) obtain a where a: "dfind (action_name m) (public_dispatcher S) = Some a"
    by (auto simp: dhas_iff)
  from public_act_good [OF a, of "srv B" sess m result_msg_default] Cons.prems(1) obtain st res s1 where
    r: "act a sess m result_msg_default (srv B) = Ok (st, res, s1)" "cache_ok (sessions s1)"
    by (auto simp: act_good_def)
  let ?rm = "rm\<lparr>res_msgs := res_msgs rm @ [res]\<rparr>" and ?B = "B\<lparr>srv := s1, replied := replied B + 1\<rparr>"
  obtain rs s' where "do_acts E ms sess (?rm, ?B) = Ok (?rm\<lparr>res_msgs := res_msgs ?rm @ rs\<rparr>,
        ?B\<lparr>srv := s', replied := replied ?B + of_nat (length ms)\<rparr>)" "length rs = length ms" "cache_ok (sessions s')"
    using Cons.IH [of ?B ?rm] Cons.prems r(2) by auto
  with a r(1) assms(1) show ?case
    by (intro exI [of _ "res # rs"] exI [of _ s']) (simp add: do_act_def ac_simps)
qed

lemma with_session_ok:
  "\<exists>sess s'. with_session E sid B = (sess, B\<lparr>srv := s'\<rparr>) \<and> cache_ok (sessions s') = cache_ok (sessions (srv B))"
  using cache_ok_get [of "uuid_parse E" element_id "clock (srv B)" sid "sessions (srv B)"]
  by (auto simp: with_session_def get_session_def case_prod_unfold Let_def)

lemma touch_session_ok: "\<exists>s'. touch_session hdr B = B\<lparr>srv := s'\<rparr> \<and> cache_ok (sessions s') = cache_ok (sessions (srv B))"
proof (cases "session_id hdr = ''N/A''")
  case True
  then have "touch_session hdr B = B\<lparr>srv := srv B\<rparr>" by (simp add: touch_session_def)
  then show ?thesis by metis
qed (auto simp: touch_session_def)

definition local_reply :: "string \<Rightarrow> string \<Rightarrow> string \<Rightarrow> zmsg" where
  "local_reply sender client text = wrap sender (Some []) (wrap MDPC_CLIENT (Some client) (body_set text []))"

lemma send_local_eq:
  assumes "\<forall>v. is_ok (to_text E v)"
  shows "\<exists>text. to_text E (res_msg_to_json rm) = Ok text \<and> send_local_to_client E rm sender client B =
     Ok (if client \<noteq> [] \<and> sender \<noteq> [] then B\<lparr>external_out := external_out B @ [sent (local_reply sender client text)]\<rparr> else B)"
proof -
  obtain t where "to_text E (res_msg_to_json rm) = Ok t" using assms by (metis is_ok_iff)
  then show ?thesis by (simp add: send_local_to_client_def local_reply_def send_external_clean)
qed

text \<open>
  A request without an empty action object \<open>{}\<close>: then the \<open>try\<close> block returns or throws.
\<close>

definition request_wf :: "broker_env \<Rightarrow> string \<Rightarrow> bool" where
  "request_wf E t \<longleftrightarrow> (case from_string E t of Ok v \<Rightarrow> JObj [] \<notin> set (actions_of v) | _ \<Rightarrow> True)"

lemma soft_public: "dfind n (public_dispatcher S) = Some a \<Longrightarrow> soft (get_message a v)"
  by (auto simp: find_public action_as_defs intro!: soft_bind split: if_splits)

lemma soft_classify: "v \<noteq> JObj [] \<Longrightarrow> soft (classify (public_dispatcher S) v)"
proof -
  assume "v \<noteq> JObj []"
  then have "soft (first_key obj)" if "get_object v = Ok obj" for obj
    using that by (cases v; cases obj) auto
  then show ?thesis
    by (auto simp: classify_def intro!: soft_bind soft_public split: option.split)
qed

lemma soft_collect:
  "JObj [] \<notin> set vs \<Longrightarrow> soft (snd (snd (collect_actions (public_dispatcher S) vs ks us)))"
proof (induction vs arbitrary: ks us)
  case (Cons v vs)
  then have "soft (classify (public_dispatcher S) v)" by (intro soft_classify) auto
  with Cons show ?case by (auto split: outcome.split sum.split)
qed simp

lemma soft_parse:
  assumes "env_ok E S" "request_wf E t"
  shows "soft (snd (snd (snd (parse_request E t))))"
proof (cases "from_string E t")
  case (Ok v)
  show ?thesis
  proof (cases "\<exists>obj h hdr. get_object v = Ok obj \<and> map_at obj ''H'' = Ok h \<and> json_to_header h = Ok hdr")
    case True
    then obtain obj h hdr where o: "get_object v = Ok obj" "map_at obj ''H'' = Ok h" "json_to_header h = Ok hdr" by blast
    then have v: "v = JObj obj" by (cases v) simp_all
    have "JObj [] \<notin> set vs" if "bind_o (map_at obj ''msgs'') get_array = Ok vs" for vs
    proof -
      from that obtain x where "map_of obj ''msgs'' = Some x" "get_array x = Ok vs"
        by (cases "map_of obj ''msgs''") (auto simp: map_at_def)
      then have "actions_of v = vs" by (cases x) (simp_all add: v actions_of_def)
      with assms(2) Ok show ?thesis by (simp add: request_wf_def)
    qed
    moreover have "soft (bind_o (map_at obj ''msgs'') get_array)" by (auto intro!: soft_bind)
    ultimately show ?thesis
      using Ok o assms(1) by (auto simp: parse_request_def env_ok_def intro!: soft_collect split: outcome.split)
  next
    case False
    let ?x = "bind_o (from_string E t) (\<lambda>v. bind_o (get_object v) (\<lambda>obj.
             bind_o (map_at obj ''H'') (\<lambda>h. bind_o (json_to_header h) (\<lambda>hdr. Ok (obj, hdr)))))"
    have "soft ?x" using Ok by (auto intro!: soft_bind)
    moreover have "\<not> is_ok ?x" using Ok False by (auto simp: is_ok_iff bind_o_Ok_iff)
    ultimately have "?x = Throw" by (cases ?x) simp_all
    then show ?thesis by (simp add: parse_request_def)
  qed
qed (use assms in \<open>simp_all add: parse_request_def env_ok_def\<close>)

lemma broker_ok_srv: "broker_ok (B\<lparr>srv := s\<rparr>) \<longleftrightarrow>
  ids_ok (workers B) \<and> (\<forall>r \<in> set (requests B). clean_msg (fst r)) \<and> cache_ok (sessions s)"
  by (simp add: broker_ok_def)

lemma send_local_ok:
  assumes "env_ok E S" "broker_ok B"
  shows "\<exists>B'. send_local_to_client E rm sender client B = Ok B' \<and> broker_ok B'"
proof -
  have "\<forall>v. is_ok (to_text E v)" using assms(1) by (simp add: env_ok_def)
  from send_local_eq [OF this, of rm sender client B] assms(2) show ?thesis
    by (auto simp: broker_ok_def)
qed

lemma malformed_reply_ok:
  assumes "env_ok E S" "broker_ok B"
  shows "\<exists>B'. malformed_reply E hdr sender msg B = Ok (snd (unwrap msg), B') \<and> broker_ok B'"
proof -
  obtain sess s' where w: "with_session E (session_id hdr) B = (sess, B\<lparr>srv := s'\<rparr>)" "cache_ok (sessions s')"
    using with_session_ok [of E "session_id hdr" B] assms(2) by (auto simp: broker_ok_def)
  then have "broker_ok (B\<lparr>srv := s'\<rparr>)" using assms(2) by (simp add: broker_ok_def)
  with w send_local_ok [OF assms(1) this] show ?thesis
    by (simp add: malformed_reply_def resp_simps case_prod_unfold)
      (metis (no_types, lifting) bind_o.simps(1))
qed

lemma run_known_ok:
  assumes "env_ok E S" "broker_ok B" "\<forall>m \<in> set ks. dhas (action_name m) (public_dispatcher S)"
  shows "\<exists>B'. run_known E hdr ks sender msg B = Ok B' \<and> broker_ok B'"
proof -
  obtain sess s' where w: "with_session E (session_id hdr) B = (sess, B\<lparr>srv := s'\<rparr>)" "cache_ok (sessions s')"
    using with_session_ok [of E "session_id hdr" B] assms(2) by (auto simp: broker_ok_def)
  obtain rm s1 n where "do_acts E ks sess (\<lparr>res_hdr = hdr, res_msgs = []\<rparr>, B\<lparr>srv := s'\<rparr>) = Ok (rm, B\<lparr>srv := s1, replied := n\<rparr>)"
    "cache_ok (sessions s1)"
    using do_acts_ok [of E S "B\<lparr>srv := s'\<rparr>" ks sess "\<lparr>res_hdr = hdr, res_msgs = []\<rparr>"] assms(1,3) w(2)
    by (auto simp: env_ok_def)
  moreover from this(2) have "broker_ok (B\<lparr>srv := s1, replied := n\<rparr>)" using assms(2) by (simp add: broker_ok_def)
  ultimately show ?thesis
    using w(1) send_local_ok [OF assms(1), of "B\<lparr>srv := s1, replied := n\<rparr>"] assms(2) by (simp add: run_known_def)
qed

lemma forward_unknown_ok:
  assumes "env_ok E S" "broker_ok B"
  shows "\<exists>B'. forward_unknown E hdr us sender B = Ok B' \<and> broker_ok B'"
proof -
  obtain t where "to_text E (raw_msg_to_json \<lparr>raw_hdr = hdr, raw_msgs = us\<rparr>) = Ok t"
    using assms(1) by (auto simp: env_ok_def is_ok_iff)
  moreover have "tie_choice (pick E)" using assms(1) by (simp add: env_ok_def)
  ultimately show ?thesis
    using service_dispatch_ok [of E B "Some (wrap sender (Some []) (body_set t []))" "session_id hdr"] assms(2)
    by (auto simp: forward_unknown_def)
qed

lemma client_process_ok:
  assumes "env_ok E S" "broker_ok B" "2 \<le> parts msg" "request_wf E (the (body msg))"
  shows "\<exists>B'. client_process E sender msg B = Ok B' \<and> broker_ok B'"
proof -
  have body: "(case body msg of Some b \<Rightarrow> b | None \<Rightarrow> []) = the (body msg)"
    using assms(3) by (cases "body msg") (auto simp: body_def parts_def split: if_splits)
  obtain hdr ks us r where p: "parse_request E (the (body msg)) = (hdr, ks, us, r)" by (metis prod_cases4)
  have soft: "soft r" using soft_parse [OF assms(1,4)] p by simp
  have ks: "\<forall>m \<in> set ks. dhas (action_name m) (public_dispatcher S)"
    using parse_local [OF _ p] assms(1) by (simp add: env_ok_def)
  obtain m B1 where B1: "(case r of Ok _ \<Rightarrow> Ok (msg, B) | Throw \<Rightarrow> malformed_reply E hdr sender msg B
      | Abort \<Rightarrow> Abort | UB \<Rightarrow> UB) = Ok (m, B1)" "broker_ok B1"
    using soft malformed_reply_ok [OF assms(1,2), of hdr sender msg] assms(2) by (cases r) auto
  obtain s' where "touch_session hdr B1 = B1\<lparr>srv := s'\<rparr>" "cache_ok (sessions s')"
    using touch_session_ok [of hdr B1] B1(2) by (auto simp: broker_ok_def)
  then have "broker_ok (touch_session hdr B1)" using B1(2) by (simp add: broker_ok_def)
  from run_known_ok [OF assms(1) this ks] obtain B2 where
    B2: "run_known E hdr ks sender m (touch_session hdr B1) = Ok B2" "broker_ok B2" by blast
  from forward_unknown_ok [OF assms(1) B2(2), of hdr us sender] show ?thesis
    using assms(3) B1(1) B2(1) by (simp add: client_process_def body p)
qed

section \<open>The loop\<close>

text \<open>
  Frames the peers send: a ROUTER socket puts the peer's identity first; then the empty
  delimiter, the protocol header and what follows it. No frame holds a NUL, which excludes
  the binary identities that the socket makes up itself.
\<close>

definition worker_frames_ok :: "string list \<Rightarrow> bool" where
  "worker_frames_ok fs \<longleftrightarrow> clean_frames fs \<and> fs ! 0 \<noteq> [] \<and> (3 \<le> length fs \<and> fs ! 2 = MDPW_WORKER \<longrightarrow> 4 \<le> length fs)"

definition client_frames_ok :: "broker_env \<Rightarrow> string list \<Rightarrow> bool" where
  "client_frames_ok E fs \<longleftrightarrow> clean_frames fs
     \<and> (3 \<le> length fs \<and> fs ! 2 = MDPC_CLIENT \<longrightarrow> 5 \<le> length fs \<and> request_wf E (last fs))"

lemma handle_clean:
  assumes "clean_frames fs" "x \<noteq> []"
  shows "handle_message x P (frames_of fs) B = (if 3 \<le> length fs \<and> fs ! 2 = x then P (fs ! 0) (drop 3 fs) B else Ok B)"
proof -
  have nul: "nul_free (fs ! i)" if "i < length fs" for i
    using assms(1) that by (simp add: clean_frames_def)
  consider a where "fs = [a]" | a b where "fs = [a, b]" | a b c m where "fs = a # b # c # m"
    using assms(1) by (auto simp: clean_frames_def) (metis list.exhaust)
  then show ?thesis
    using recv_clean [OF assms(1)] assms(2) nul [of 0] nul [of 2]
    by cases (auto simp: handle_message_def parts_def)
qed

definition turn_ok :: "broker_env \<Rightarrow> turn \<Rightarrow> bool" where
  "turn_ok E t \<longleftrightarrow>
     (case internal_in t of None \<Rightarrow> True | Some es \<Rightarrow> \<exists>fs. es = frames_of fs \<and> worker_frames_ok fs)
   \<and> (case external_in t of None \<Rightarrow> True | Some es \<Rightarrow> \<exists>fs. es = frames_of fs \<and> client_frames_ok E fs)"

lemma turn_okI:
  "internal_in t = Some (frames_of fs) \<Longrightarrow> external_in t = Some (frames_of gs) \<Longrightarrow>
   worker_frames_ok fs \<Longrightarrow> client_frames_ok E gs \<Longrightarrow> turn_ok E t"
  by (auto simp: turn_ok_def)

lemma env_ok_now [simp]: "env_ok (E\<lparr>now_ms := n\<rparr>) S = env_ok E S"
  by (simp add: env_ok_def)

lemma request_wf_now [simp]: "request_wf (E\<lparr>now_ms := n\<rparr>) = request_wf E"
  by (simp add: request_wf_def fun_eq_iff)

lemma handle_worker_ok:
  assumes "tie_choice (pick E)" "broker_ok B" "worker_frames_ok fs"
  shows "\<exists>B'. handle_message MDPW_WORKER (worker_process E) (frames_of fs) B = Ok B' \<and> broker_ok B'"
proof -
  have fs: "clean_frames fs" "fs ! 0 \<noteq> []" using assms(3) by (simp_all add: worker_frames_ok_def)
  have "MDPW_WORKER \<noteq> []" by (simp add: mdp_defs)
  moreover have "\<exists>B'. worker_process E (fs ! 0) (drop 3 fs) B = Ok B' \<and> broker_ok B'" if "3 \<le> length fs \<and> fs ! 2 = MDPW_WORKER"
    using worker_process_ok [OF assms(1,2) fs(2), of "drop 3 fs"] clean_drop [OF fs(1)] that assms(3)
    by (auto simp: worker_frames_ok_def)
  ultimately show ?thesis using handle_clean [OF fs(1)] assms(2) by auto
qed

lemma handle_client_ok:
  assumes "env_ok E S" "broker_ok B" "client_frames_ok E fs"
  shows "\<exists>B'. handle_message MDPC_CLIENT (client_process E) (frames_of fs) B = Ok B' \<and> broker_ok B'"
proof -
  have fs: "clean_frames fs" using assms(3) by (simp add: client_frames_ok_def)
  have "MDPC_CLIENT \<noteq> []" by (simp add: mdp_defs)
  moreover have "\<exists>B'. client_process E (fs ! 0) (drop 3 fs) B = Ok B' \<and> broker_ok B'" if "3 \<le> length fs \<and> fs ! 2 = MDPC_CLIENT"
    using client_process_ok [OF assms(1,2), of "drop 3 fs"] body_drop [OF fs, of 3] that assms(3)
    by (auto simp: client_frames_ok_def parts_def)
  ultimately show ?thesis using handle_clean [OF fs] assms(2) by auto
qed

lemma heartbeat_all_eq:
  "heartbeat_all ws B = Ok (B\<lparr>internal_out := internal_out B @
     map (\<lambda>w. sent (worker_frames (identity w) MDPW_HEARTBEAT [] None)) ws\<rparr>)"
  by (induction ws arbitrary: B) (simp_all add: worker_send_clean)

lemma broker_turn_ok:
  assumes "env_ok E S" "broker_ok B" "turn_ok E t"
  shows "\<exists>B' h'. broker_turn E t (B, h) = Ok (B', h') \<and> broker_ok B'"
proof -
  let ?E = "E\<lparr>now_ms := turn_now t\<rparr>" and ?B = "B\<lparr>srv := (srv B)\<lparr>clock := turn_now t div 1000\<rparr>\<rparr>"
  have E: "env_ok ?E S" "tie_choice (pick ?E)" using assms(1) by (simp_all add: env_ok_def)
  have B: "broker_ok ?B" using assms(2) by (simp add: broker_ok_def)
  obtain B1 where B1: "(case internal_in t of None \<Rightarrow> Ok ?B
      | Some es \<Rightarrow> handle_message MDPW_WORKER (worker_process ?E) es ?B) = Ok B1" "broker_ok B1"
    using handle_worker_ok [OF E(2) B] B assms(3) by (cases "internal_in t") (auto simp: turn_ok_def)
  obtain B2 where B2: "(case external_in t of None \<Rightarrow> Ok B1
      | Some es \<Rightarrow> handle_message MDPC_CLIENT (client_process ?E) es B1) = Ok B2" "broker_ok B2"
    using handle_client_ok [OF E(1) B1(2)] B1(2) assms(3)
    by (cases "external_in t") (auto simp: turn_ok_def client_frames_ok_def)
  have "broker_ok (B2\<lparr>workers := purged n (workers B2), internal_out := xs\<rparr>)" for n xs
    using B2(2) by (simp add: broker_ok_def ids_ok_purged)
  with B1 B2 show ?thesis
    by (simp add: broker_turn_def Let_def purge_eq heartbeat_all_eq)
qed

section \<open>A sample broker\<close>

text \<open>Concrete values for the witnesses: an environment, and a broker with two workers.\<close>

definition sample_server_env :: server_env where
  "sample_server_env = \<lparr>uuid_to_string = (\<lambda>u. ''u''), string_to_uuid = (\<lambda>t. None), cdcm_version = ''1''\<rparr>"

definition sample_server :: server where
  "sample_server = \<lparr>sessions = \<lparr>elements = [], idle_timeout = 60\<rparr>, clock = 0, randoms = (\<lambda>n. 5), drawn = 0,
     faults = (\<lambda>n. No_Fault), service_conf = empty_dispatcher, get_sd_called = False\<rparr>"

definition sample_env :: "json outcome \<Rightarrow> broker_env" where
  "sample_env req = \<lparr>now_ms = 0, pick = hd, actions = public_dispatcher sample_server_env,
     uuid_parse = (\<lambda>t. None), from_string = (\<lambda>t. req), to_text = (\<lambda>v. Ok ''{}''), heartbeat_interval = 5\<rparr>"

definition sample_broker :: broker where
  "sample_broker = (new_broker 3 sample_server)\<lparr>workers := \<lparr>cont =
       [\<lparr>identity = ''a'', expiry = 10, last_worked_session = ''s1'', idle = True\<rparr>,
        \<lparr>identity = ''b'', expiry = 20, last_worked_session = ''s2'', idle = False\<rparr>], heartbeat_expiry = 3000\<rparr>\<rparr>"

definition sample_request :: json where
  "sample_request = JObj [(''H'', JObj [(''session_id'', JStr ''s1'')]), (''msgs'', JArr [JObj [(''x'', JNull)]])]"

lemmas sample_defs = sample_server_env_def sample_server_def sample_env_def sample_broker_def new_broker_def

lemma sample_env_ok: "soft req \<Longrightarrow> env_ok (sample_env req) sample_server_env"
  by (simp add: env_ok_def sample_defs tie_choice_hd soft_def)

lemma sample_broker_ok: "broker_ok sample_broker" "broker_ok (new_broker 3 sample_server)"
  by (simp_all add: broker_ok_def sample_defs ids_ok_def cache_ok_def unique_by_def known_def workers_ok_def empty_workers_def)

lemma sample_tie: "tie_choice (pick (sample_env req))"
  by (simp add: sample_defs tie_choice_hd)

section \<open>Routing\<close>

lemma reply_to_client:
  assumes "tie_choice (pick E)" and "broker_ok B" and "w \<in> known (workers B)"
    and "client \<noteq> []" and "nul_free client" and "clean_msg payload"
  shows "\<exists>B'. worker_process E w (MDPW_REPLY # client # [] # payload) B = Ok B'
    \<and> external_out B' = external_out B @ [sent ([client, [], MDPC_CLIENT, []] @ payload)]
    \<and> replied B' = replied B + 1 \<and> broker_ok B'"
proof -
  have un: "unwrap (client # [] # payload) = (client, payload)"
    using assms(5) by (simp add: unwrap_def address_def)
  have "w \<noteq> []" using assms(2,3) by (auto simp: broker_ok_def ids_ok_def)
  then have req: "worker_require E w B = Ok B" using assms(3) by (simp add: worker_require_def exists_known)
  let ?out = "wrap client (Some []) (wrap MDPC_CLIENT (Some []) payload)"
  let ?B1 = "B\<lparr>external_out := external_out B @ [sent ?out], replied := replied B + 1\<rparr>"
  have out: "?out = [client, [], MDPC_CLIENT, []] @ payload"
    using assms(5) by (simp add: wrap_def push_front_def)
  obtain B' where "worker_waiting E w ?B1 = Ok B'" "broker_ok B'" "unchanged_out ?B1 B'"
    using worker_waiting_ok [OF assms(1), of ?B1 w] assms(2,3) by (auto simp: broker_ok_def)
  then show ?thesis
    using req un assms(3-6) out
    by (simp add: worker_process_def parts_def exists_known send_external_clean unchanged_out_def Let_def)
qed

lemma dispatch_to_last_worker:
  assumes "tie_choice (pick E)" and "broker_ok B" and "requests B = []" and "clean_msg m"
    and "get_worker w (workers B) = Some x" and "idle x" and "now_ms E < expiry x" and "last_worked_session x = sid"
    and "\<forall>v y. get_worker v (workers B) = Some y \<longrightarrow> last_worked_session y = sid \<longrightarrow> v = w"
  shows "\<exists>C. service_dispatch E (Some m) sid B =
      Ok (B\<lparr>workers := C, internal_out := internal_out B @ [request_frames w (m, sid)]\<rparr>) \<and> \<not> is_idle w C \<and> w \<in> known C"
proof -
  let ?P = "purged (now_ms E) (workers B)"
  have ok: "workers_ok (workers B)" "workers_ok ?P"
    using assms(2) ids_ok_purged [of "workers B" "now_ms E"] by (auto simp: broker_ok_def ids_ok_def)
  have x: "get_worker w ?P = Some x" using assms(5,7) ok by (simp add: get_worker_purged)
  have x_in: "x \<in> set (cont ?P)" "identity x = w"
    using x lookup_by_Some_key [of identity w "cont ?P" x] by (auto simp: get_worker_def)
  have only: "v = x" if "v \<in> set (cont ?P)" "last_worked_session v = sid" for v
  proof -
    from that(1) ok(2) have v: "get_worker (identity v) ?P = Some v"
      by (simp add: get_worker_def workers_ok_def lookup_by_unique)
    then have "get_worker (identity v) (workers B) = Some v"
      using ok(1) by (auto simp: get_worker_purged split: option.splits if_splits)
    then have "identity v = w" using assms(9) that(2) by blast
    with v x show ?thesis by simp
  qed
  have idle: "idle_workers ?P \<noteq> []"
    using x_in assms(6) by (auto simp: idle_workers_def filter_empty_conv)
  have "filter (\<lambda>w. last_worked_session w = sid) (cont ?P) \<noteq> []"
    using x_in(1) assms(8) by (auto simp: filter_empty_conv)
  then obtain v where v: "get_by_last_worked_session (pick E) sid ?P = Some v"
    by (simp add: get_by_last_worked_session_def Let_def)
  with only get_by_last_worked_in [OF assms(1) this] have "v = x" by blast
  with v assms(6) have choice: "choose_worker E sid ?P = Some x" by (simp add: choose_worker_def)
  have "w \<in> known (snd (set_busy w ?P))" unfolding set_busy_facts(2) using x_in by (auto simp: known_def)
  from update_last_worked_known [OF this, of sid] obtain C where
    C: "update_last_worked w sid (snd (set_busy w ?P)) = Ok (True, C)" "workers_ok C" "known C = known ?P"
      "get_worker w C = map_option (\<lambda>w. w\<lparr>last_worked_session := sid\<rparr>) (get_worker w (snd (set_busy w ?P)))"
    using ok(2) by (auto simp: set_busy_facts)
  have "service_dispatch E (Some m) sid B =
      Ok (B\<lparr>workers := C, internal_out := internal_out B @ [request_frames w (m, sid)], requests := []\<rparr>)"
    using assms(3,4) idle choice C(1) x_in(2)
    by (simp add: service_dispatch_def purge_eq worker_send_clean request_frames_def)
  moreover have "\<not> is_idle w C" using C(2,4) x by (simp add: is_idle_get set_busy_facts)
  moreover have "w \<in> known C" using C(3) x_in by (auto simp: known_def)
  ultimately show ?thesis using assms(3) by (intro exI [of _ C]) simp
qed

section \<open>Properties\<close>



text \<open>
  C5. Delivery of queued requests: when a worker is idle after the purge, one call of
  \<open>service_dispatch\<close> sends every queued request and the new one exactly once, in the order of
  the queue, each to a known worker that is busy afterwards, and leaves the queue empty; when
  none is idle nothing is sent and the request is queued behind the others.
\<close>

theorem service_dispatch_delivers:
  assumes "tie_choice (pick E)" and "broker_ok B" and "clean_msg m"
  shows "if idle_workers (purged (now_ms E) (workers B)) = []
    then service_dispatch E (Some m) sid B =
      Ok (B\<lparr>requests := requests B @ [(m, sid)], workers := purged (now_ms E) (workers B)\<rparr>)
    else \<exists>ws C. service_dispatch E (Some m) sid B =
        Ok (B\<lparr>requests := [], workers := C,
              internal_out := internal_out B @ map2 request_frames ws (requests B @ [(m, sid)])\<rparr>)
      \<and> length ws = length (requests B) + 1 \<and> set ws \<subseteq> known C \<and> known C \<subseteq> known (workers B)
      \<and> (\<forall>w \<in> set ws. \<not> is_idle w C)"
  using service_dispatch_Ok [OF assms(1,2), of "Some m" sid] assms(3)
  by (cases "idle_workers (purged (now_ms E) (workers B)) = []") auto

theorem service_dispatch_delivers_witness:
  "\<exists>ws C. service_dispatch (sample_env Throw) (Some [''{}'']) ''s2'' sample_broker =
        Ok (sample_broker\<lparr>requests := [], workers := C,
              internal_out := internal_out sample_broker @ map2 request_frames ws (requests sample_broker @ [([''{}''], ''s2'')])\<rparr>)
      \<and> length ws = 1"
proof -
  have "idle_workers (purged (now_ms (sample_env Throw)) (workers sample_broker)) \<noteq> []"
    by (simp add: purged_def expired_idle_def idle_workers_def erase_all_def sample_defs)
  with service_dispatch_delivers [OF sample_tie sample_broker_ok(1), of "[''{}'']" Throw "''s2''"] show ?thesis
    by (auto simp: sample_defs)
qed

text \<open>
  C6. The reply of a worker reaches the client it names: the broker sends one message on the
  client socket, addressed to the client frame of the reply, with the MDP client header and
  the worker's payload unchanged, and counts it.
\<close>

theorem worker_reply_reaches_client:
  assumes "tie_choice (pick E)" and "broker_ok B" and "w \<in> known (workers B)"
    and "client \<noteq> []" and "nul_free client" and "clean_msg payload"
  shows "\<exists>B'. worker_process E w (MDPW_REPLY # client # [] # payload) B = Ok B'
    \<and> external_out B' = external_out B @ [sent ([client, [], MDPC_CLIENT, []] @ payload)]
    \<and> replied B' = replied B + 1 \<and> broker_ok B'"
  using reply_to_client [OF assms] .

theorem worker_reply_reaches_client_witness:
  "\<exists>B'. worker_process (sample_env Throw) ''b'' [MDPW_REPLY, ''c1'', [], ''{}''] sample_broker = Ok B'
    \<and> external_out B' = [sent [''c1'', [], MDPC_CLIENT, [], ''{}'']]"
  using worker_reply_reaches_client [OF sample_tie sample_broker_ok(1), of "''b''" "''c1''" "[''{}'']"]
  by (auto simp: sample_defs known_def)

text \<open>
  C8. One request, one answer: a request whose actions are all the broker's own and whose
  objects read back is answered at once with a single message to the client that sent it, in
  the MDP client envelope, holding one result for each action, with the header of the request;
  nothing goes to the workers and nothing is queued.
\<close>

theorem local_request_answered:
  assumes "env_ok E S" and "broker_ok B" and "sender \<noteq> []" and "client \<noteq> []" and "nul_free client"
    and "parse_request E (c_str req) = (hdr, ms, [], Ok ())" and "ms \<noteq> []"
  shows "\<exists>rs t B'. client_process E sender [client, [], req] B = Ok B'
    \<and> to_text E (res_msg_to_json \<lparr>res_hdr = hdr, res_msgs = rs\<rparr>) = Ok t
    \<and> external_out B' = external_out B @ [sent (local_reply sender client t)]
    \<and> length rs = length ms
    \<and> internal_out B' = internal_out B \<and> requests B' = requests B \<and> workers B' = workers B"
proof -
  have body: "body [client, [], req] = Some (c_str req)" by (simp add: body_def)
  have un: "fst (unwrap [client, [], req]) = client"
    using assms(5) by (simp add: unwrap_def address_def)
  have ks: "\<forall>m \<in> set ms. dhas (action_name m) (public_dispatcher S)"
    using parse_local [OF _ assms(6)] assms(1) by (simp add: env_ok_def)
  obtain s1 where s1: "touch_session hdr B = B\<lparr>srv := s1\<rparr>" "cache_ok (sessions s1)"
    using touch_session_ok [of hdr B] assms(2) by (auto simp: broker_ok_def)
  obtain sess s2 where s2: "with_session E (session_id hdr) (B\<lparr>srv := s1\<rparr>) = (sess, B\<lparr>srv := s2\<rparr>)" "cache_ok (sessions s2)"
    using with_session_ok [of E "session_id hdr" "B\<lparr>srv := s1\<rparr>"] s1(2) by auto
  obtain rs s3 n where d: "do_acts E ms sess (\<lparr>res_hdr = hdr, res_msgs = []\<rparr>, B\<lparr>srv := s2\<rparr>) =
      Ok (\<lparr>res_hdr = hdr, res_msgs = rs\<rparr>, B\<lparr>srv := s3, replied := n\<rparr>)" "length rs = length ms"
    using do_acts_ok [of E S "B\<lparr>srv := s2\<rparr>" ms sess "\<lparr>res_hdr = hdr, res_msgs = []\<rparr>"] ks assms(1) s2(2)
    by (auto simp: env_ok_def)
  obtain t where t: "to_text E (res_msg_to_json \<lparr>res_hdr = hdr, res_msgs = rs\<rparr>) = Ok t"
    "send_local_to_client E \<lparr>res_hdr = hdr, res_msgs = rs\<rparr> sender client (B\<lparr>srv := s3, replied := n\<rparr>) =
     Ok (B\<lparr>srv := s3, replied := n, external_out := external_out B @ [sent (local_reply sender client t)]\<rparr>)"
    using send_local_eq [of E "\<lparr>res_hdr = hdr, res_msgs = rs\<rparr>" sender client "B\<lparr>srv := s3, replied := n\<rparr>"] assms(1,3,4)
    by (auto simp: env_ok_def)
  have "client_process E sender [client, [], req] B =
     Ok (B\<lparr>srv := s3, replied := n, external_out := external_out B @ [sent (local_reply sender client t)]\<rparr>)"
    using s1(1) s2(1) d(1) t(2) un assms(6,7)
    by (simp add: client_process_def parts_def body run_known_def forward_unknown_def)
  with t(1) d(2) show ?thesis by auto
qed

theorem local_request_answered_witness:
  "\<exists>B'. client_process (sample_env (Ok (JObj [(''H'', JObj [(''session_id'', JStr ''N/A'')]),
        (''msgs'', JArr [JObj [(''close_session'', JObj [(''id'', JStr ''7'')])]])]))) ''c1'' [''c1'', [], ''{..}''] sample_broker = Ok B'
     \<and> length (external_out B') = 1"
  using local_request_answered [OF sample_env_ok [of "Ok (JObj [(''H'', JObj [(''session_id'', JStr ''N/A'')]),
        (''msgs'', JArr [JObj [(''close_session'', JObj [(''id'', JStr ''7'')])]])])"] sample_broker_ok(1), of "''c1''" "''c1''" "''{..}''"
      "\<lparr>session_id = ''N/A''\<rparr>" "[Close_session_msg ''7'']"]
  by (auto simp: sample_env_def sample_broker_def new_broker_def parse_request_def map_at_def json_to_header_def classify_def
      find_public close_session_msg_as_def json_at_def string_field_def)

text \<open>
  Session affinity: with an empty queue, a request of a session goes to the worker that
  last worked on that session whenever that worker is idle and not expired, and the worker is
  then busy.
\<close>

theorem idle_worker_keeps_session:
  assumes "tie_choice (pick E)" and "broker_ok B" and "requests B = []" and "clean_msg m"
    and "get_worker w (workers B) = Some x" and "idle x" and "now_ms E < expiry x" and "last_worked_session x = sid"
    and "\<forall>v y. get_worker v (workers B) = Some y \<longrightarrow> last_worked_session y = sid \<longrightarrow> v = w"
  shows "\<exists>C. service_dispatch E (Some m) sid B =
      Ok (B\<lparr>workers := C, internal_out := internal_out B @ [request_frames w (m, sid)]\<rparr>) \<and> \<not> is_idle w C"
  using dispatch_to_last_worker [OF assms] by blast

theorem idle_worker_keeps_session_witness:
  "\<exists>C. service_dispatch (sample_env Throw) (Some [''{}'']) ''s1'' sample_broker =
      Ok (sample_broker\<lparr>workers := C, internal_out := internal_out sample_broker @ [request_frames ''a'' ([''{}''], ''s1'')]\<rparr>)
    \<and> \<not> is_idle ''a'' C"
  by (rule idle_worker_keeps_session [OF sample_tie sample_broker_ok(1), of _ _
        "\<lparr>identity = ''a'', expiry = 10, last_worked_session = ''s1'', idle = True\<rparr>"])
    (auto simp: sample_defs get_worker_def lookup_by_def split: if_splits)


text \<open>
  A message that ends after its protocol header stops the broker: with three frames on the
  worker socket, or four on the client socket, the handler reaches a failed assertion.
\<close>

theorem short_message_aborts:
  assumes "nul_free sender" and "nul_free d" and "nul_free x"
  shows "handle_message MDPW_WORKER (worker_process E) (frames_of [sender, d, MDPW_WORKER]) B = Abort
    \<and> handle_message MDPC_CLIENT (client_process E) (frames_of [sender, d, MDPC_CLIENT, x]) B = Abort"
proof -
  have ne: "MDPW_WORKER \<noteq> []" "MDPC_CLIENT \<noteq> []" by (simp_all add: mdp_defs)
  from assms show ?thesis
    using handle_clean [of "[sender, d, MDPW_WORKER]", OF _ ne(1)] handle_clean [of "[sender, d, MDPC_CLIENT, x]", OF _ ne(2)]
    by (simp add: clean_frames_def worker_process_def client_process_def parts_def)
qed

theorem short_message_aborts_witness:
  "handle_message MDPW_WORKER (worker_process (sample_env Throw)) (frames_of [''w'', [], MDPW_WORKER]) sample_broker = Abort"
  by (rule short_message_aborts [of _ _ "[]", THEN conjunct1]) simp_all

text \<open>
  Purging is exact: an idle worker whose expiry has passed is removed, every other worker
  stays with its record unchanged, and nothing is sent.
\<close>

theorem purge_exact:
  assumes "workers_ok (workers B)"
  shows "\<exists>C. purge_workers E B = Ok (B\<lparr>workers := C\<rparr>)
    \<and> (\<forall>i. get_worker i C = (case get_worker i (workers B) of
          Some w \<Rightarrow> (if idle w \<and> expiry w \<le> now_ms E then None else Some w) | None \<Rightarrow> None))"
  using get_worker_purged [OF assms] by (auto simp: purge_eq)

theorem purge_exact_witness:
  "\<exists>C. purge_workers ((sample_env Throw)\<lparr>now_ms := 30\<rparr>) sample_broker = Ok (sample_broker\<lparr>workers := C\<rparr>)
     \<and> get_worker ''a'' C = None \<and> get_worker ''b'' C \<noteq> None"
proof -
  have "workers_ok (workers sample_broker)" using sample_broker_ok(1) by (simp add: broker_ok_def ids_ok_def)
  from purge_exact [OF this, of "(sample_env Throw)\<lparr>now_ms := 30\<rparr>"] show ?thesis
    by (auto simp: sample_defs get_worker_def [of _ "\<lparr>cont = _, heartbeat_expiry = _\<rparr>"] lookup_by_def)
qed

end
