(* ===== verification/Broker_Liveness.thy ===== *)
theory Broker_Liveness
  imports Message_Broker
begin

text \<open>
  What happens to a request for which no worker is there (frontend/message_broker.cpp): it
  stays in the queue of the service, in order, and the next worker that says it is ready is
  given the whole queue.
\<close>

section \<open>A worker that becomes ready empties the queue\<close>

lemma expired_idle_none: "known C = {} \<Longrightarrow> idle_workers (purged now C) = []"
  using known_purged_subset [of now C] by (simp add: idle_workers_def known_def)

lemma dispatch_without_workers:
  assumes "tie_choice (pick E)" and "broker_ok B" and "clean_msg m" and "known (workers B) = {}"
  shows "\<exists>C. service_dispatch E (Some m) sid B = Ok (B\<lparr>requests := requests B @ [(m, sid)], workers := C\<rparr>)
    \<and> known C = {} \<and> heartbeat_expiry C = heartbeat_expiry (workers B) \<and> ids_ok C"
proof -
  let ?P = "purged (now_ms E) (workers B)"
  have "service_dispatch E (Some m) sid B = Ok (B\<lparr>requests := requests B @ [(m, sid)], workers := ?P\<rparr>)"
    using service_dispatch_Ok [OF assms(1,2), of "Some m" sid] assms(3,4) by (simp add: expired_idle_none)
  moreover have "known ?P = {}" using known_purged_subset [of "now_ms E" "workers B"] assms(4) by simp
  moreover have "heartbeat_expiry ?P = heartbeat_expiry (workers B)" by (simp add: purged_def)
  moreover have "ids_ok ?P" using assms(2) by (simp add: broker_ok_def ids_ok_purged)
  ultimately show ?thesis by blast
qed

text \<open>A request for one worker only: all of a queue goes to it.\<close>

lemma only_worker: "set ws \<subseteq> {w} \<Longrightarrow> length ws = length q \<Longrightarrow> map2 f ws q = map (f w) q"
  by (induction ws q rule: list_induct2') auto

lemma known_iff_get: "i \<in> known C \<longleftrightarrow> (\<exists>x. get_worker i C = Some x)"
  using get_worker_known [of i C] by auto

lemma ready_drains:
  assumes "tie_choice (pick E)" and "broker_ok B" and "w \<noteq> []" and "w \<notin> known (workers B)"
    and "0 < heartbeat_expiry (workers B)"
  shows "\<exists>B' ws. worker_process E w [MDPW_READY] B = Ok B' \<and> requests B' = []
    \<and> internal_out B' = internal_out B @ map2 request_frames ws (requests B) \<and> length ws = length (requests B)
    \<and> set ws \<subseteq> insert w (known (workers B)) \<and> broker_ok B'"
proof -
  let ?now = "now_ms E"
  let ?I = "insert_worker ?now (new_worker w) (workers B)"
  have ok: "workers_ok ?I" "ids_ok (workers B)" using assms(2) by (simp_all add: broker_ok_def ids_ok_def)
  have kI: "known ?I = insert w (known (workers B))" by (simp add: new_worker_def)
  have he: "heartbeat_expiry ?I = heartbeat_expiry (workers B)" by (simp add: insert_worker_def Let_def)
  have req: "worker_require E w B = Ok (B\<lparr>workers := ?I\<rparr>)" "\<not> exists w (workers B)"
    using assms(3,4) by (simp_all add: worker_require_def exists_known)
  let ?S = "snd (set_idle w ?I)"
  have S: "known ?S = insert w (known (workers B))" "workers_ok ?S" using kI ok by (simp_all add: set_idle_facts)
  then have "w \<in> known ?S" by simp
  from update_expiration_known [OF this, of ?now] obtain C where
    C: "update_expiration ?now w ?S = Ok (True, C)" "known C = known ?S" "workers_ok C"
      "get_worker w C = map_option (\<lambda>x. x\<lparr>expiry := ?now + heartbeat_expiry ?S\<rparr>) (get_worker w ?S)"
    using S by auto
  obtain y where y: "get_worker w ?I = Some y" using kI known_iff_get [of w ?I] by auto
  have x: "get_worker w C = Some (y\<lparr>idle := True, expiry := ?now + heartbeat_expiry (workers B)\<rparr>)"
    using C(4) y ok by (simp add: set_idle_facts he)
  let ?B1 = "B\<lparr>workers := C\<rparr>"
  have B1: "broker_ok ?B1" using assms(2,3) C S ok by (auto simp: broker_ok_def ids_ok_def)
  have "get_worker w (purged ?now C) = get_worker w C"
    using x assms(5) C(3) by (simp add: get_worker_purged)
  then have "get_worker w (purged ?now C) \<noteq> None" "is_idle w (purged ?now C)"
    using x B1 ids_ok_purged [of C ?now] by (auto simp: is_idle_get broker_ok_def ids_ok_def)
  then have idle: "idle_workers (purged ?now C) \<noteq> []"
    using x \<open>get_worker w (purged ?now C) = get_worker w C\<close>
      lookup_by_Some_key [of identity w "cont (purged ?now C)"]
    by (fastforce simp: idle_workers_def filter_empty_conv get_worker_def)
  from service_dispatch_Ok [OF assms(1) B1, of None "[]"] idle obtain ws D where
    D: "service_dispatch E None [] ?B1 =
        Ok (?B1\<lparr>requests := [], workers := D, internal_out := internal_out B @ map2 request_frames ws (requests B)\<rparr>)"
      "length ws = length (requests B)" "set ws \<subseteq> known D" "ids_ok D" "known D \<subseteq> known C"
    by auto
  let ?B2 = "B\<lparr>requests := [], workers := D, internal_out := internal_out B @ map2 request_frames ws (requests B)\<rparr>"
  have "worker_process E w [MDPW_READY] B = Ok ?B2"
    using req C(1) D(1) by (simp add: worker_process_def parts_def worker_waiting_def mdp_defs Let_def)
  moreover have "broker_ok ?B2" using D(4) assms(2) by (simp add: broker_ok_def)
  ultimately show ?thesis
    using D(2,3,5) C(2) S(1) by (intro exI [of _ ?B2] exI [of _ ws]) auto
qed

section \<open>Property\<close>

text \<open>
  C4. No request is lost for want of a worker: a client's request whose actions are all a
  worker's, received while no worker is known, is put at the end of the queue and nothing is
  sent; and the first worker that says it is ready, however much later, is sent every queued
  request, in the order of their arrival, that one last, after which the queue is empty.
\<close>

theorem request_waits_for_worker:
  assumes "env_ok E S" and "broker_ok B" and "known (workers B) = {}" and "0 < heartbeat_expiry (workers B)"
    and "parse_request E (c_str req) = (hdr, [], us, Ok ())" and "us \<noteq> []" and "w \<noteq> []"
  shows "\<exists>t B1 B2. to_text E (raw_msg_to_json \<lparr>raw_hdr = hdr, raw_msgs = us\<rparr>) = Ok t
    \<and> client_process E sender [client, [], req] B = Ok B1
    \<and> requests B1 = requests B @ [(wrap sender (Some []) (body_set t []), session_id hdr)]
    \<and> internal_out B1 = internal_out B \<and> external_out B1 = external_out B
    \<and> worker_process (E\<lparr>now_ms := later\<rparr>) w [MDPW_READY] B1 = Ok B2
    \<and> requests B2 = [] \<and> internal_out B2 = internal_out B @ map (request_frames w) (requests B1)"
proof -
  obtain t where t: "to_text E (raw_msg_to_json \<lparr>raw_hdr = hdr, raw_msgs = us\<rparr>) = Ok t"
    using assms(1) by (auto simp: env_ok_def is_ok_iff)
  let ?m = "wrap sender (Some []) (body_set t [])" and ?sid = "session_id hdr" and ?E = "E\<lparr>now_ms := later\<rparr>"
  obtain s1 where s1: "touch_session hdr B = B\<lparr>srv := s1\<rparr>" "cache_ok (sessions s1)"
    using touch_session_ok [of hdr B] assms(2) by (auto simp: broker_ok_def)
  have tie: "tie_choice (pick E)" "tie_choice (pick ?E)" using assms(1) by (simp_all add: env_ok_def)
  have B': "broker_ok (B\<lparr>srv := s1\<rparr>)" using s1(2) assms(2) by (simp add: broker_ok_def)
  have m: "clean_msg ?m" by simp
  from dispatch_without_workers [OF tie(1) B' m, of ?sid] assms(3) obtain C where
    C: "service_dispatch E (Some ?m) ?sid (B\<lparr>srv := s1\<rparr>) =
        Ok (B\<lparr>srv := s1, requests := requests B @ [(?m, ?sid)], workers := C\<rparr>)"
      "known C = {}" "heartbeat_expiry C = heartbeat_expiry (workers B)" "ids_ok C"
    by auto
  let ?B1 = "B\<lparr>srv := s1, requests := requests B @ [(?m, ?sid)], workers := C\<rparr>"
  have B1: "client_process E sender [client, [], req] B = Ok ?B1"
    using assms(5,6) s1(1) t C(1) by (simp add: client_process_def parts_def body_def run_known_def forward_unknown_def)
  have "broker_ok ?B1" using C(4) s1(2) assms(2) by (auto simp: broker_ok_def)
  from ready_drains [OF tie(2) this assms(7)] C(2,3) assms(4) obtain B2 ws where
    B2: "worker_process ?E w [MDPW_READY] ?B1 = Ok B2" "requests B2 = []"
      "internal_out B2 = internal_out B @ map2 request_frames ws (requests ?B1)" "length ws = length (requests ?B1)"
      "set ws \<subseteq> {w}"
    by auto
  have "map2 request_frames ws (requests ?B1) = map (request_frames w) (requests ?B1)"
    by (rule only_worker [OF B2(5,4)])
  with t B1 B2(1-3) show ?thesis by (intro exI [of _ t] exI [of _ ?B1] exI [of _ B2]) simp
qed

theorem request_waits_for_worker_witness:
  "\<exists>t B1 B2. client_process (sample_env (Ok sample_request)) ''c1'' [''c1'', [], ''{..}''] (new_broker 3 sample_server) = Ok B1
    \<and> requests B1 = [(wrap ''c1'' (Some []) (body_set t []), ''s1'')] \<and> internal_out B1 = []
    \<and> worker_process ((sample_env (Ok sample_request))\<lparr>now_ms := 70\<rparr>) ''a'' [MDPW_READY] B1 = Ok B2
    \<and> requests B2 = [] \<and> internal_out B2 = map (request_frames ''a'') (requests B1)"
proof -
  let ?E = "sample_env (Ok sample_request)" and ?B = "new_broker 3 sample_server"
  have "env_ok ?E sample_server_env" by (rule sample_env_ok) (simp add: soft_def)
  moreover have "known (workers ?B) = {}" "0 < heartbeat_expiry (workers ?B)" "requests ?B = []" "internal_out ?B = []"
    by (simp_all add: new_broker_def empty_workers_def known_def)
  moreover have "parse_request ?E (c_str ''{..}'') = (\<lparr>session_id = ''s1''\<rparr>, [], [[(''x'', JNull)]], Ok ())"
    by (simp add: parse_request_def sample_env_def sample_request_def map_at_def json_to_header_def classify_def find_public)
  ultimately show ?thesis
    using request_waits_for_worker [of ?E sample_server_env ?B "''{..}''" "\<lparr>session_id = ''s1''\<rparr>" "[[(''x'', JNull)]]" "''a''" "''c1''" "''c1''" 70]
      sample_broker_ok(2) by auto
qed

end
