(* ===== verification/Postponed_Actions.thy ===== *)
theory Postponed_Actions
  imports Protocol
begin

text \<open>
  \<open>src/src/backend/utils/postponed_actions.hpp\<close>: the worker's queue of actions that asked to be
  run again, unique by action id and ordered by the time they are due. Times are seconds. The
  runs left are an 8-bit counter although the setting they come from has 32 bits.
\<close>

record postponed_action =
  action_message :: json
  pa_reply_to :: string
  pa_id :: string
  remaining_runs :: "8 word"
  due :: int
  pa_header :: header

type_synonym postponed_queue = "postponed_action list"

text \<open>The constructor: the number of runs is an \<open>u_int8_t\<close> parameter, the argument 32 bits wide.\<close>

definition new_postponed ::
  "json \<Rightarrow> string \<Rightarrow> string \<Rightarrow> 32 word \<Rightarrow> int \<Rightarrow> header \<Rightarrow> postponed_action" where
  "new_postponed msg rt i runs t h =
     \<lparr>action_message = msg, pa_reply_to = rt, pa_id = i, remaining_runs = ucast runs, due = t, pa_header = h\<rparr>"

definition decrement_runs :: "postponed_action \<Rightarrow> postponed_action" where
  "decrement_runs pa = pa\<lparr>remaining_runs := remaining_runs pa - 1\<rparr>"

definition decrement_runs_and_update_expiration ::
  "int \<Rightarrow> string \<Rightarrow> postponed_queue \<Rightarrow> bool \<times> postponed_queue" where
  "decrement_runs_and_update_expiration now ids q =
     (if lookup_by pa_id ids q = None then (False, q)
      else (True, modify_by pa_id ids (\<lambda>x. decrement_runs (x\<lparr>due := now + 1\<rparr>)) q))"

definition remove_postponed :: "string \<Rightarrow> postponed_queue \<Rightarrow> bool \<times> postponed_queue" where
  "remove_postponed ids q =
     (if lookup_by pa_id ids q = None then (False, q) else (True, erase_by pa_id ids q))"

definition add_postponed :: "postponed_action \<Rightarrow> postponed_queue \<Rightarrow> bool \<times> postponed_queue" where
  "add_postponed pa q = (lookup_by pa_id (pa_id pa) q = None, insert_by pa_id pa q)"

text \<open>\<open>top\<close>: the first of the expiration index; dereferencing it on an empty queue is undefined.\<close>

definition earliest :: "postponed_queue \<Rightarrow> postponed_queue" where
  "earliest q = filter (\<lambda>x. list_all (\<lambda>y. due x \<le> due y) q) q"

definition top_postponed :: "(postponed_queue \<Rightarrow> postponed_action) \<Rightarrow> postponed_queue \<Rightarrow> postponed_action outcome" where
  "top_postponed pk q = (if q = [] then UB else Ok (pk (earliest q)))"

definition empty_postponed :: "postponed_queue \<Rightarrow> bool" where
  "empty_postponed q = (q = [])"

section \<open>Lemmas\<close>

definition queue_ok :: "postponed_queue \<Rightarrow> bool" where
  "queue_ok q \<longleftrightarrow> unique_by pa_id q"

definition queued :: "string \<Rightarrow> postponed_queue \<Rightarrow> postponed_action option" where
  "queued i q = lookup_by pa_id i q"

lemma pa_id_decrement [simp]: "pa_id (decrement_runs pa) = pa_id pa"
  by (simp add: decrement_runs_def)

lemma queue_ok_ops [simp]:
  "queue_ok q \<Longrightarrow> queue_ok (snd (decrement_runs_and_update_expiration now i q))"
  "queue_ok q \<Longrightarrow> queue_ok (snd (remove_postponed i q))"
  "queue_ok q \<Longrightarrow> queue_ok (snd (add_postponed pa q))"
  by (simp_all add: queue_ok_def decrement_runs_and_update_expiration_def remove_postponed_def add_postponed_def
      unique_modify_by unique_erase_by unique_insert_by)

lemma queued_ops:
  "queued j (snd (add_postponed pa q)) = (if j = pa_id pa \<and> queued j q = None then Some pa else queued j q)"
  "queued j (snd (remove_postponed i q)) = (if j = i then None else queued j q)"
  "queued j (snd (decrement_runs_and_update_expiration now i q)) =
     (if j = i then map_option (\<lambda>x. decrement_runs (x\<lparr>due := now + 1\<rparr>)) (queued j q) else queued j q)"
  by (auto simp: queued_def add_postponed_def remove_postponed_def decrement_runs_and_update_expiration_def
      lookup_insert_by lookup_erase_by lookup_modify_by)

lemma queued_id: "queued i q = Some pa \<Longrightarrow> pa_id pa = i"
  unfolding queued_def by (drule lookup_by_Some_key) simp

interpretation pq: keyed_store pa_id queue_ok "\<lambda>_ _. True" queued "\<lambda>pa q. snd (add_postponed pa q)"
  "\<lambda>i q. snd (remove_postponed i q)"
  by unfold_locales (auto simp: queued_ops dest: queued_id)

lemma top_in:
  assumes "tie_choice pk" "q \<noteq> []"
  shows "\<exists>pa. top_postponed pk q = Ok pa \<and> pa \<in> set q \<and> (\<forall>x \<in> set q. due pa \<le> due x)"
proof -
  have "earliest q \<noteq> []"
    using max_key_exists [of q "\<lambda>x. - due x"] assms(2) by (auto simp: earliest_def filter_empty_conv list_all_iff)
  then have "pk (earliest q) \<in> set (earliest q)" using assms(1) by (simp add: tie_choice_def)
  then show ?thesis using assms(2) by (auto simp: top_postponed_def earliest_def list_all_iff)
qed

text \<open>The elements that are due at a time: the measure of the worker's loop over the queue.\<close>

definition due_count :: "int \<Rightarrow> postponed_queue \<Rightarrow> nat" where
  "due_count now q = length (filter (\<lambda>x. due x \<le> now) q)"

lemma due_count_erase:
  "pa \<in> set q \<Longrightarrow> due pa \<le> now \<Longrightarrow> due_count now (erase_by pa_id (pa_id pa) q) < due_count now q"
proof (induction q)
  case (Cons x q)
  have "due_count now (erase_by pa_id i q) \<le> due_count now q" for i
    by (induction q) (auto simp: due_count_def erase_by_def)
  then have "due_count now (erase_by pa_id (pa_id pa) q) \<le> due_count now q" .
  with Cons show ?case by (auto simp: due_count_def erase_by_def)
qed simp

lemma due_count_renew:
  assumes "pa \<in> set q" "due pa \<le> now" "\<And>x. due (g x) > now" "\<And>x. pa_id (g x) = pa_id x"
  shows "due_count now (modify_by pa_id (pa_id pa) g q) < due_count now q"
proof -
  have "due_count now (modify_by pa_id i g q) = due_count now (erase_by pa_id i q)" for i
    using assms(3) by (induction q) (auto simp: due_count_def modify_by_def erase_by_def not_le)
  with due_count_erase [OF assms(1,2)] show ?thesis by simp
qed

section \<open>Properties\<close>

text \<open>
  One action per id: while an action with some id is in the queue, adding another with the
  same id fails and leaves the queue as it is, whoever sent it; so the second never runs again
  and is never answered.
\<close>

theorem same_id_not_queued:
  assumes "queued (pa_id pa) q = Some old"
  shows "add_postponed pa q = (False, q)"
  using assms lookup_by_None [of pa_id "pa_id pa" q] by (simp add: queued_def add_postponed_def insert_by_def)

theorem same_id_not_queued_witness:
  "add_postponed (new_postponed JNull ''client2'' ''1'' 3 10 \<lparr>session_id = ''s''\<rparr>)
     [new_postponed JNull ''client1'' ''1'' 3 10 \<lparr>session_id = ''t''\<rparr>]
   = (False, [new_postponed JNull ''client1'' ''1'' 3 10 \<lparr>session_id = ''t''\<rparr>])"
  by (rule same_id_not_queued [of _ _ "new_postponed JNull ''client1'' ''1'' 3 10 \<lparr>session_id = ''t''\<rparr>"])
    (simp add: queued_def lookup_by_def new_postponed_def)

end
