(* ===== verification/Message_Worker.thy ===== *)
theory Message_Worker
  imports Zmq_Message Postponed_Actions Frontend_Actions
begin

text \<open>
  \<open>src/src/backend/message_worker.*\<close>: the worker process. It is connected to the broker by a
  DEALER socket; what it sends is appended to \<open>to_broker\<close>. The actions of its plugins are the
  dispatcher of the environment; an action may read and change the server state, whose counter
  \<open>drawn\<close> lets its outcome differ from one call to the next. Each turn of the receive loop gets
  its time and what \<open>poll\<close> found on the socket. Log calls are not modelled.
\<close>

record worker_env =
  w_now :: int
  first_due :: "postponed_queue \<Rightarrow> postponed_action"
  w_actions :: "action dispatcher"
  w_uuid_parse :: "string \<Rightarrow> 128 word option"
  w_from_string :: "string \<Rightarrow> json outcome"
  w_to_string :: "json \<Rightarrow> string outcome"
  w_heartbeat :: int
  heartbeat_liveness :: "64 word"
  action_postpone_dur :: int
  action_retries_on_postpone :: "32 word"

record message_worker =
  heartbeat_at :: int
  liveness :: "64 word"
  expect_reply :: bool
  reply_to :: string
  postponed :: postponed_queue
  w_replied :: "64 word"
  pending :: "zmsg option"
  to_broker :: "string list list"
  w_srv :: server

definition new_message_worker :: "worker_env \<Rightarrow> server \<Rightarrow> message_worker" where
  "new_message_worker E s = \<lparr>heartbeat_at = 0, liveness = heartbeat_liveness E, expect_reply = False, reply_to = [],
     postponed = [], w_replied = 0, pending = None, to_broker = [], w_srv = s\<rparr>"

definition now_s :: "worker_env \<Rightarrow> int" where
  "now_s E = w_now E div 1000"

section \<open>Sending\<close>

definition broker_frames :: "string \<Rightarrow> string \<Rightarrow> zmsg option \<Rightarrow> zmsg" where
  "broker_frames command option msg =
     (let m = (case msg of Some m \<Rightarrow> m | None \<Rightarrow> []);
          m = (if option \<noteq> [] then push_front option m else m)
      in push_front [] (push_front MDPW_WORKER (push_front command m)))"

definition send_to_broker :: "string \<Rightarrow> string \<Rightarrow> zmsg option \<Rightarrow> message_worker \<Rightarrow> message_worker outcome" where
  "send_to_broker command option msg W =
     bind_o (send (broker_frames command option msg)) (\<lambda>fs. Ok (W\<lparr>to_broker := to_broker W @ [fs]\<rparr>))"

definition connect_to_broker :: "worker_env \<Rightarrow> message_worker \<Rightarrow> message_worker outcome" where
  "connect_to_broker E W =
     bind_o (send_to_broker MDPW_READY [] None W) (\<lambda>W'.
       Ok (W'\<lparr>liveness := heartbeat_liveness E, heartbeat_at := w_now E + w_heartbeat E\<rparr>))"

section \<open>Running actions\<close>

definition fetch_session :: "worker_env \<Rightarrow> string \<Rightarrow> message_worker \<Rightarrow> session option \<times> message_worker" where
  "fetch_session E sid W =
     (let (sess, C) = get_session (w_uuid_parse E) (now_s E) sid (sessions (w_srv W))
      in (sess, W\<lparr>w_srv := (w_srv W)\<lparr>sessions := C\<rparr>\<rparr>))"

text \<open>
  The part the request loop and the postponed loop share: read the message of an action object,
  fetch the session, act. It gives the id, the status and the result.
\<close>

definition perform ::
  "worker_env \<Rightarrow> action \<Rightarrow> json \<Rightarrow> string \<Rightarrow> message_worker
    \<Rightarrow> (string \<times> action_status \<times> result_msg \<times> message_worker) outcome" where
  "perform E a v sid W =
     bind_o (get_message a v) (\<lambda>m.
       let (sess, W1) = fetch_session E sid W
       in bind_o (act a sess m (set_id (action_id m) result_msg_default) (w_srv W1)) (\<lambda>(st, res, s').
            Ok (action_id m, st, res, W1\<lparr>w_srv := s'\<rparr>)))"

text \<open>
  One turn of the loop in \<open>handle_postponed_actions\<close>, on the action at the top. An action whose
  plugin is not found leaves everything as it is.
\<close>

definition run_postponed :: "worker_env \<Rightarrow> postponed_action \<Rightarrow> message_worker \<Rightarrow> message_worker outcome" where
  "run_postponed E pa W =
     bind_o (get_object (action_message pa)) (\<lambda>obj.
     bind_o (first_key obj) (\<lambda>act_key.
       case dfind act_key (w_actions E) of
         None \<Rightarrow> Ok W
       | Some a \<Rightarrow>
           bind_o (perform E a (action_message pa) (session_id (pa_header pa)) W) (\<lambda>(i, st, res, W1).
             if st = POSTPONED \<and> remaining_runs pa > 0 then
               Ok (W1\<lparr>postponed := snd (decrement_runs_and_update_expiration (now_s E) i (postponed W1))\<rparr>)
             else
               bind_o (w_to_string E (res_msg_to_json \<lparr>res_hdr = pa_header pa, res_msgs = [res]\<rparr>)) (\<lambda>reply_str.
               bind_o (send_to_broker MDPW_REPLY [] (Some (wrap (pa_reply_to pa) (Some []) (emplace_back reply_str []))) W1)
                 (\<lambda>W2. Ok (W2\<lparr>postponed := snd (remove_postponed i (postponed W2)), w_replied := w_replied W2 + 1\<rparr>))))))"

text \<open>The loop itself, with fuel: \<open>None\<close> is a run that has not ended.\<close>

primrec handle_postponed :: "nat \<Rightarrow> worker_env \<Rightarrow> message_worker \<Rightarrow> message_worker outcome option" where
  "handle_postponed 0 E W = None"
| "handle_postponed (Suc n) E W =
     (if empty_postponed (postponed W) then Some (Ok W)
      else case top_postponed (first_due E) (postponed W) of
             Ok pa \<Rightarrow>
               (if due pa \<le> now_s E then
                  (case run_postponed E pa W of
                     Ok W' \<Rightarrow> handle_postponed n E W'
                   | Throw \<Rightarrow> Some Throw | Abort \<Rightarrow> Some Abort | UB \<Rightarrow> Some UB)
                else Some (Ok W))
           | Throw \<Rightarrow> Some Throw | Abort \<Rightarrow> Some Abort | UB \<Rightarrow> Some UB)"

text \<open>
  The loop of \<open>worker_loop\<close> over the actions of one request: the results so far, the state, and
  how it was left.
\<close>

definition run_action ::
  "worker_env \<Rightarrow> header \<Rightarrow> json \<Rightarrow> message_worker \<Rightarrow> (result_msg list \<times> message_worker) outcome" where
  "run_action E hdr v W =
     bind_o (get_object v) (\<lambda>obj.
     bind_o (first_key obj) (\<lambda>act_key.
       case dfind act_key (w_actions E) of
         Some a \<Rightarrow>
           bind_o (perform E a v (session_id hdr) W) (\<lambda>(i, st, res, W1).
             if st = POSTPONED then
               Ok ([], W1\<lparr>postponed := snd (add_postponed (new_postponed v (reply_to W1) i (action_retries_on_postpone E)
                              ((w_now E + action_postpone_dur E) div 1000) hdr) (postponed W1))\<rparr>)
             else Ok ([res], W1))
       | None \<Rightarrow>
           (let i = (case bind_o (json_at (snd (hd obj)) ''id'') as_string of Ok e \<Rightarrow> e | _ \<Rightarrow> ''unknown'')
            in bind_o (set_response_for_error MALFORMED_MESSAGE (set_id i result_msg_default)) (\<lambda>res. Ok ([res], W)))))"

fun run_actions ::
  "worker_env \<Rightarrow> header \<Rightarrow> json list \<Rightarrow> result_msg list \<Rightarrow> message_worker
    \<Rightarrow> result_msg list \<times> message_worker \<times> unit outcome" where
  "run_actions E hdr [] rs W = (rs, W, Ok ())"
| "run_actions E hdr (v # vs) rs W =
     (case run_action E hdr v W of
        Ok (r, W') \<Rightarrow> run_actions E hdr vs (rs @ r) W'
      | Throw \<Rightarrow> (rs, W, Throw)
      | Abort \<Rightarrow> (rs, W, Abort)
      | UB \<Rightarrow> (rs, W, UB))"

text \<open>The header and the actions of a request body, read before any action runs.\<close>

definition request_parts :: "worker_env \<Rightarrow> string \<Rightarrow> (header \<times> json list) outcome" where
  "request_parts E mstr =
     bind_o (w_from_string E mstr) (\<lambda>v.
     bind_o (get_object v) (\<lambda>obj.
     bind_o (map_at obj ''H'') (\<lambda>h.
     bind_o (json_to_header h) (\<lambda>hdr.
     bind_o (map_at obj ''msgs'') (\<lambda>ms.
     bind_o (get_array ms) (\<lambda>vs. Ok (hdr, vs)))))))"

definition malformed_result :: result_msg where
  "malformed_result = (set_id ''unknown'' result_msg_default)
     \<lparr>msg_status := error_status MALFORMED_MESSAGE, msg_result := JStr (''Error: '' @ error_text MALFORMED_MESSAGE)\<rparr>"

text \<open>
  The body of \<open>worker_loop\<close> after a request was received: the two \<open>try\<close> blocks. The reply
  pointer is the field \<open>pending\<close>. A message without parts has a null body.
\<close>

definition answer :: "worker_env \<Rightarrow> header \<Rightarrow> result_msg list \<Rightarrow> message_worker \<Rightarrow> message_worker outcome" where
  "answer E hdr rs W =
     (if rs \<noteq> [] then
        (case w_to_string E (res_msg_to_json \<lparr>res_hdr = hdr, res_msgs = rs\<rparr>) of
           Ok reply_str \<Rightarrow> Ok (W\<lparr>pending := Some (emplace_back reply_str [])\<rparr>)
         | Throw \<Rightarrow> Ok W
         | Abort \<Rightarrow> Abort
         | UB \<Rightarrow> UB)
      else Ok (W\<lparr>expect_reply := False, reply_to := []\<rparr>))"

definition process_request :: "worker_env \<Rightarrow> zmsg \<Rightarrow> message_worker \<Rightarrow> message_worker outcome" where
  "process_request E request W =
     (case body request of
        None \<Rightarrow> UB
      | Some mstr \<Rightarrow>
          (case request_parts E mstr of
             Ok (hdr, vs) \<Rightarrow>
               (let (rs, W1, ended) = run_actions E hdr vs [] W
                in case ended of
                     Ok _ \<Rightarrow> answer E hdr rs W1
                   | Throw \<Rightarrow> answer E hdr (rs @ [malformed_result]) W1
                   | Abort \<Rightarrow> Abort
                   | UB \<Rightarrow> UB)
           | Throw \<Rightarrow> answer E \<lparr>session_id = []\<rparr> [malformed_result] W
           | Abort \<Rightarrow> Abort
           | UB \<Rightarrow> UB))"

section \<open>Receiving\<close>

text \<open>The entry of \<open>recv\<close>: the reply of the last request, if any, is sent.\<close>

definition recv_entry :: "message_worker \<Rightarrow> message_worker outcome" where
  "recv_entry W =
     (if pending W = None \<and> expect_reply W then Abort
      else bind_o (case pending W of
             Some m \<Rightarrow>
               (if reply_to W \<noteq> [] then
                  bind_o (send_to_broker MDPW_REPLY [] (Some (wrap (reply_to W) (Some []) m)) (W\<lparr>reply_to := []\<rparr>))
                    (\<lambda>W'. Ok (W'\<lparr>w_replied := w_replied W' + 1, pending := None\<rparr>))
                else Ok W)
           | None \<Rightarrow> Ok W) (\<lambda>W'. Ok (W'\<lparr>expect_reply := True\<rparr>)))"

text \<open>A message of the broker: a request to process, or nothing.\<close>

definition broker_message :: "worker_env \<Rightarrow> zmsg \<Rightarrow> message_worker \<Rightarrow> (zmsg option \<times> message_worker) outcome" where
  "broker_message E msg W0 =
     (let W = W0\<lparr>liveness := heartbeat_liveness E\<rparr>
      in if parts msg < 3 then Abort
         else let (empty_part, m1) = pop_front msg; (header_part, m2) = pop_front m1; (command_part, m3) = pop_front m2;
                  command = c_str command_part
         in if empty_part \<noteq> [] \<or> header_part \<noteq> MDPW_WORKER then Abort
            else if command = MDPW_REQUEST then
              (let (addr, m4) = unwrap m3 in Ok (Some m4, W\<lparr>reply_to := addr\<rparr>))
            else if command = MDPW_HEARTBEAT then Ok (None, W)
            else if command = MDPW_DISCONNECT then bind_o (connect_to_broker E W) (\<lambda>W'. Ok (None, W'))
            else Ok (None, W))"

record worker_turn =
  w_turn_now :: int
  w_polled :: "recv_event list option"

definition worker_heartbeat :: "worker_env \<Rightarrow> message_worker \<Rightarrow> message_worker outcome" where
  "worker_heartbeat E W =
     (if w_now E \<ge> heartbeat_at W then
        bind_o (send_to_broker MDPW_HEARTBEAT [] None W) (\<lambda>W'. Ok (W'\<lparr>heartbeat_at := heartbeat_at W' + w_heartbeat E\<rparr>))
      else Ok W)"

text \<open>
  What \<open>recv\<close> does after \<open>poll\<close>: with input it reads a message; without input it counts down
  and reconnects at zero. A request ends the call before the heartbeat.
\<close>

definition after_poll ::
  "worker_env \<Rightarrow> recv_event list option \<Rightarrow> message_worker \<Rightarrow> (zmsg option \<times> message_worker) outcome" where
  "after_poll E polled W =
     bind_o (case polled of
        Some es \<Rightarrow>
          (case recv es of
             None \<Rightarrow> Ok (None, W)
           | Some r \<Rightarrow> bind_o r (\<lambda>(received, msg). if received then broker_message E msg W else Ok (None, W)))
      | None \<Rightarrow>
          (let W1 = W\<lparr>liveness := liveness W - 1\<rparr>
           in if liveness W1 = 0 then bind_o (connect_to_broker E W1) (\<lambda>W'. Ok (None, W')) else Ok (None, W1)))
     (\<lambda>(req, W2).
        if req = None then bind_o (worker_heartbeat E W2) (\<lambda>W3. Ok (None, W3)) else Ok (req, W2))"

text \<open>
  One turn of the loop of \<open>recv\<close> and, when it returns a request, the processing and the entry
  of the next \<open>recv\<close>.
\<close>

definition worker_step :: "nat \<Rightarrow> worker_env \<Rightarrow> worker_turn \<Rightarrow> message_worker \<Rightarrow> message_worker outcome option" where
  "worker_step fuel E0 t W =
     (let E = E0\<lparr>w_now := w_turn_now t\<rparr>
      in case handle_postponed fuel E W of
           None \<Rightarrow> None
         | Some r \<Rightarrow> Some (bind_o r (\<lambda>W1.
             bind_o (after_poll E (w_polled t) W1) (\<lambda>(req, W2).
               case req of
                 None \<Rightarrow> Ok W2
               | Some m \<Rightarrow> bind_o (process_request E m W2) recv_entry))))"

primrec worker_run :: "nat \<Rightarrow> worker_env \<Rightarrow> worker_turn list \<Rightarrow> message_worker \<Rightarrow> message_worker outcome option" where
  "worker_run fuel E [] W = Some (Ok W)"
| "worker_run fuel E (t # ts) W =
     (case worker_step fuel E t W of
        Some (Ok W') \<Rightarrow> worker_run fuel E ts W'
      | Some Throw \<Rightarrow> Some Throw | Some Abort \<Rightarrow> Some Abort | Some UB \<Rightarrow> Some UB
      | None \<Rightarrow> None)"

definition worker_loop :: "nat \<Rightarrow> worker_env \<Rightarrow> server \<Rightarrow> worker_turn list \<Rightarrow> message_worker outcome option" where
  "worker_loop fuel E s ts =
     (case bind_o (connect_to_broker E (new_message_worker E s)) recv_entry of
        Ok W \<Rightarrow> worker_run fuel E ts W
      | Throw \<Rightarrow> Some Throw | Abort \<Rightarrow> Some Abort | UB \<Rightarrow> Some UB)"

section \<open>Sending\<close>

lemma clean_broker_frames [simp]:
  "clean_msg (broker_frames c option msg) = (case msg of None \<Rightarrow> True | Some m \<Rightarrow> clean_msg m)"
  by (simp add: broker_frames_def Let_def split: option.split)

lemma send_to_broker_clean:
  "(case msg of None \<Rightarrow> True | Some m \<Rightarrow> clean_msg m) \<Longrightarrow>
   send_to_broker c option msg W = Ok (W\<lparr>to_broker := to_broker W @ [sent (broker_frames c option msg)]\<rparr>)"
  by (simp add: send_to_broker_def send_clean)

lemma clean_emplace [simp]: "clean_msg (emplace_back s []) "
  by (simp add: emplace_back_def)

lemma connect_eq: "connect_to_broker E W = Ok (W\<lparr>to_broker := to_broker W @ [sent (broker_frames MDPW_READY [] None)],
    liveness := heartbeat_liveness E, heartbeat_at := w_now E + w_heartbeat E\<rparr>)"
  by (simp add: connect_to_broker_def send_to_broker_clean)

section \<open>Environment and invariant\<close>

text \<open>
  What the plugins and the JSON library have to provide: actions that return, readers and a
  parser that return or throw, a printer that returns, and a queue index that yields one of its
  earliest elements.
\<close>

definition plugins_ok :: "action dispatcher \<Rightarrow> bool" where
  "plugins_ok D \<longleftrightarrow> (\<forall>n a. dfind n D = Some a \<longrightarrow>
     (\<forall>v. soft (get_message a v)) \<and> (\<forall>sess m r s. is_ok (act a sess m r s)))"

definition wenv_ok :: "worker_env \<Rightarrow> bool" where
  "wenv_ok E \<longleftrightarrow> plugins_ok (w_actions E) \<and> tie_choice (first_due E) \<and> (\<forall>v. is_ok (w_to_string E v))
     \<and> (\<forall>t. soft (w_from_string E t))"

text \<open>A queued action can be run again: its plugin is there and reads the id it is queued under.\<close>

definition runnable :: "action dispatcher \<Rightarrow> postponed_action \<Rightarrow> bool" where
  "runnable D pa \<longleftrightarrow> (\<exists>obj key a m. get_object (action_message pa) = Ok obj \<and> first_key obj = Ok key
     \<and> dfind key D = Some a \<and> get_message a (action_message pa) = Ok m \<and> action_id m = pa_id pa)"

definition worker_queue_ok :: "worker_env \<Rightarrow> postponed_queue \<Rightarrow> bool" where
  "worker_queue_ok E q \<longleftrightarrow> queue_ok q \<and> (\<forall>pa \<in> set q. runnable (w_actions E) pa)"

lemma runnable_decrement [simp]: "runnable D (decrement_runs (pa\<lparr>due := t\<rparr>)) = runnable D pa"
  by (simp add: runnable_def decrement_runs_def)

lemma set_queue_ops:
  "set (snd (decrement_runs_and_update_expiration now i q)) \<subseteq> set q \<union> (\<lambda>x. decrement_runs (x\<lparr>due := now + 1\<rparr>)) ` set q"
  "set (snd (remove_postponed i q)) \<subseteq> set q"
  "set (snd (add_postponed pa q)) \<subseteq> insert pa (set q)"
  by (auto simp: decrement_runs_and_update_expiration_def modify_by_def remove_postponed_def erase_by_def
      add_postponed_def insert_by_def)

lemma worker_queue_ops:
  assumes "worker_queue_ok E q"
  shows "worker_queue_ok E (snd (decrement_runs_and_update_expiration now i q))"
    and "worker_queue_ok E (snd (remove_postponed i q))"
    and "runnable (w_actions E) pa \<Longrightarrow> worker_queue_ok E (snd (add_postponed pa q))"
proof -
  from assms have q: "queue_ok q" "\<And>x. x \<in> set q \<Longrightarrow> runnable (w_actions E) x"
    by (auto simp: worker_queue_ok_def)
  have "runnable (w_actions E) x" if "x \<in> set (snd (decrement_runs_and_update_expiration now i q))" for x
  proof -
    from subsetD [OF set_queue_ops(1) that] consider "x \<in> set q"
      | y where "y \<in> set q" "x = decrement_runs (y\<lparr>due := now + 1\<rparr>)" by blast
    then show ?thesis by cases (simp_all add: q(2))
  qed
  then show "worker_queue_ok E (snd (decrement_runs_and_update_expiration now i q))"
    using q(1) by (simp add: worker_queue_ok_def)
  have "runnable (w_actions E) x" if "x \<in> set (snd (remove_postponed i q))" for x
    using subsetD [OF set_queue_ops(2) that] q(2) by blast
  then show "worker_queue_ok E (snd (remove_postponed i q))"
    using q(1) by (simp add: worker_queue_ok_def)
  assume pa: "runnable (w_actions E) pa"
  have "runnable (w_actions E) x" if "x \<in> set (snd (add_postponed pa q))" for x
    using subsetD [OF set_queue_ops(3) that] q(2) pa by blast
  then show "worker_queue_ok E (snd (add_postponed pa q))"
    using q(1) by (simp add: worker_queue_ok_def)
qed

lemma fetch_session_eq: "\<exists>sess s'. fetch_session E sid W = (sess, W\<lparr>w_srv := s'\<rparr>)"
  by (auto simp: fetch_session_def case_prod_unfold Let_def)

lemma perform_ok:
  assumes "plugins_ok D" "dfind n D = Some a" "get_message a v = Ok m"
  shows "\<exists>st res s'. perform E a v sid W = Ok (action_id m, st, res, W\<lparr>w_srv := s'\<rparr>)"
proof -
  obtain sess s1 where "fetch_session E sid W = (sess, W\<lparr>w_srv := s1\<rparr>)"
    using fetch_session_eq by blast
  moreover obtain st res s' where "act a sess m (set_id (action_id m) result_msg_default) s1 = Ok (st, res, s')"
    using assms(1,2) by (metis is_ok_iff plugins_ok_def prod_cases3)
  ultimately show ?thesis using assms(3) by (auto simp: perform_def)
qed

lemma perform_soft:
  assumes "plugins_ok D" "dfind n D = Some a"
  shows "perform E a v sid W = Throw \<or> (\<exists>m st res s'. get_message a v = Ok m
    \<and> perform E a v sid W = Ok (action_id m, st, res, W\<lparr>w_srv := s'\<rparr>))"
proof (cases "get_message a v")
  case (Ok m)
  with perform_ok [OF assms Ok, of E sid W] show ?thesis by blast
next
  case Throw
  then show ?thesis by (simp add: perform_def)
qed (use assms in \<open>auto simp: plugins_ok_def soft_def\<close>)

section \<open>The postponed actions\<close>

text \<open>
  What one turn of the loop does to a runnable action that is due: it is either rescheduled
  with one run less, or answered and removed.
\<close>

definition reply_frames :: "postponed_action \<Rightarrow> string \<Rightarrow> string list" where
  "reply_frames pa t = sent (broker_frames MDPW_REPLY [] (Some (wrap (pa_reply_to pa) (Some []) (emplace_back t []))))"

lemma run_postponed_ok:
  assumes "wenv_ok E" "runnable (w_actions E) pa"
  shows "\<exists>s'. run_postponed E pa W =
        Ok (W\<lparr>w_srv := s', postponed := snd (decrement_runs_and_update_expiration (now_s E) (pa_id pa) (postponed W))\<rparr>)
      \<or> (\<exists>t. run_postponed E pa W =
        Ok (W\<lparr>w_srv := s', to_broker := to_broker W @ [reply_frames pa t],
              postponed := snd (remove_postponed (pa_id pa) (postponed W)), w_replied := w_replied W + 1\<rparr>))"
proof -
  obtain obj key a m where r: "get_object (action_message pa) = Ok obj" "first_key obj = Ok key"
    "dfind key (w_actions E) = Some a" "get_message a (action_message pa) = Ok m" "action_id m = pa_id pa"
    using assms(2) by (auto simp: runnable_def)
  obtain st res s' where p: "perform E a (action_message pa) (session_id (pa_header pa)) W =
      Ok (pa_id pa, st, res, W\<lparr>w_srv := s'\<rparr>)"
    using perform_ok [OF _ r(3,4), of E "session_id (pa_header pa)" W] assms(1) r(5) unfolding wenv_ok_def by metis
  show ?thesis
  proof (cases "st = POSTPONED \<and> remaining_runs pa > 0")
    case True
    with r(1-3) p show ?thesis by (intro exI [of _ s'] disjI1) (simp add: run_postponed_def)
  next
    case False
    obtain t where "w_to_string E (res_msg_to_json \<lparr>res_hdr = pa_header pa, res_msgs = [res]\<rparr>) = Ok t"
      using assms(1) by (auto simp: wenv_ok_def is_ok_iff)
    with r(1-3) p False show ?thesis
      by (intro exI [of _ s'] disjI2 exI [of _ t]) (auto simp: run_postponed_def send_to_broker_clean reply_frames_def)
  qed
qed

lemma length_remove: "queue_ok q \<Longrightarrow> pa \<in> set q \<Longrightarrow> length q = Suc (length (snd (remove_postponed (pa_id pa) q)))"
proof (induction q)
  case (Cons x q)
  have keep: "erase_by pa_id (pa_id x) q = q"
    unfolding erase_by_def using Cons.prems(1) by (intro filter_True) (auto simp: queue_ok_def unique_by_def image_iff)
  have rm: "snd (remove_postponed i q) = erase_by pa_id i q" for i q
    by (auto simp: remove_postponed_def erase_by_def lookup_by_None image_iff intro!: filter_True [symmetric])
  show ?case
  proof (cases "x = pa")
    case False
    then have "pa_id x \<noteq> pa_id pa" "pa \<in> set q" using Cons.prems by (auto simp: queue_ok_def unique_by_def)
    with Cons show ?thesis by (simp add: rm) (simp add: erase_by_def queue_ok_def unique_by_def)
  qed (use keep in \<open>simp add: rm, simp add: erase_by_def\<close>)
qed simp

lemma length_decrement: "length (snd (decrement_runs_and_update_expiration now i q)) = length q"
  by (simp add: decrement_runs_and_update_expiration_def modify_by_def)

lemma due_after_run:
  assumes "pa \<in> set q" "due pa \<le> now"
  shows "due_count now (snd (decrement_runs_and_update_expiration now (pa_id pa) q)) < due_count now q"
    and "due_count now (snd (remove_postponed (pa_id pa) q)) < due_count now q"
proof -
  have "lookup_by pa_id (pa_id pa) q \<noteq> None" using assms(1) by (auto simp: lookup_by_None)
  then show "due_count now (snd (decrement_runs_and_update_expiration now (pa_id pa) q)) < due_count now q"
    and "due_count now (snd (remove_postponed (pa_id pa) q)) < due_count now q"
    using due_count_renew [OF assms, of "\<lambda>x. decrement_runs (x\<lparr>due := now + 1\<rparr>)"] due_count_erase [OF assms]
    by (auto simp: decrement_runs_and_update_expiration_def remove_postponed_def decrement_runs_def)
qed

text \<open>With fuel above the number of due actions the loop ends, and nothing is due any more.\<close>

lemma handle_postponed_ok:
  assumes "wenv_ok E" "worker_queue_ok E (postponed W)" "due_count (now_s E) (postponed W) < fuel"
  shows "\<exists>s q n out. handle_postponed fuel E W =
        Some (Ok (W\<lparr>w_srv := s, postponed := q, w_replied := w_replied W + of_nat n, to_broker := to_broker W @ out\<rparr>))
      \<and> worker_queue_ok E q \<and> (\<forall>pa \<in> set q. now_s E < due pa) \<and> length (postponed W) = length q + n \<and> length out = n"
  using assms(2,3)
proof (induction fuel arbitrary: W)
  case (Suc fuel)
  show ?case
  proof (cases "postponed W = []")
    case True
    with Suc.prems show ?thesis
      by (intro exI [of _ "w_srv W"] exI [of _ "postponed W"] exI [of _ 0] exI [of _ "[]"]) (simp add: empty_postponed_def)
  next
    case False
    obtain pa where pa: "top_postponed (first_due E) (postponed W) = Ok pa" "pa \<in> set (postponed W)"
      "\<forall>x \<in> set (postponed W). due pa \<le> due x"
      using top_in [OF _ False, of "first_due E"] assms(1) unfolding wenv_ok_def by blast
    show ?thesis
    proof (cases "due pa \<le> now_s E")
      case late: False
      with pa False Suc.prems show ?thesis
        by (intro exI [of _ "w_srv W"] exI [of _ "postponed W"] exI [of _ 0] exI [of _ "[]"])
          (auto simp: empty_postponed_def not_le)
    next
      case due: True
      have run: "runnable (w_actions E) pa" using Suc.prems(1) pa(2) by (simp add: worker_queue_ok_def)
      have less: "due_count (now_s E) q < fuel"
        if "due_count (now_s E) q < due_count (now_s E) (postponed W)" for q
        using that Suc.prems(2) by simp
      have step: "handle_postponed (Suc fuel) E W = handle_postponed fuel E W'" if "run_postponed E pa W = Ok W'" for W'
        using that pa(1) due False by (simp add: empty_postponed_def)
      from run_postponed_ok [OF assms(1) run, of W] consider
        (again) s' where "run_postponed E pa W =
          Ok (W\<lparr>w_srv := s', postponed := snd (decrement_runs_and_update_expiration (now_s E) (pa_id pa) (postponed W))\<rparr>)"
      | (answered) s' t where "run_postponed E pa W =
          Ok (W\<lparr>w_srv := s', to_broker := to_broker W @ [reply_frames pa t],
              postponed := snd (remove_postponed (pa_id pa) (postponed W)), w_replied := w_replied W + 1\<rparr>)"
        by blast
      then show ?thesis
      proof cases
        case again
        let ?W = "W\<lparr>w_srv := s', postponed := snd (decrement_runs_and_update_expiration (now_s E) (pa_id pa) (postponed W))\<rparr>"
        from Suc.IH [of ?W] worker_queue_ops(1) [OF Suc.prems(1)] less [OF due_after_run(1) [OF pa(2) due]]
        obtain s q n out where "handle_postponed fuel E ?W =
            Some (Ok (?W\<lparr>w_srv := s, postponed := q, w_replied := w_replied W + of_nat n, to_broker := to_broker W @ out\<rparr>))"
          "worker_queue_ok E q" "\<forall>pa \<in> set q. now_s E < due pa" "length (postponed W) = length q + n" "length out = n"
          by (auto simp: length_decrement)
        with step [OF again] show ?thesis
          by (intro exI [of _ s] exI [of _ q] exI [of _ n] exI [of _ out]) simp
      next
        case answered
        let ?W = "W\<lparr>w_srv := s', to_broker := to_broker W @ [reply_frames pa t],
              postponed := snd (remove_postponed (pa_id pa) (postponed W)), w_replied := w_replied W + 1\<rparr>"
        have len: "length (postponed W) = Suc (length (postponed ?W))"
          using length_remove [OF _ pa(2)] Suc.prems(1) by (simp add: worker_queue_ok_def)
        from Suc.IH [of ?W] worker_queue_ops(2) [OF Suc.prems(1)] less [OF due_after_run(2) [OF pa(2) due]]
        obtain s q n out where "handle_postponed fuel E ?W =
            Some (Ok (?W\<lparr>w_srv := s, postponed := q, w_replied := w_replied ?W + of_nat n, to_broker := to_broker ?W @ out\<rparr>))"
          "worker_queue_ok E q" "\<forall>pa \<in> set q. now_s E < due pa" "length (postponed ?W) = length q + n" "length out = n"
          by auto
        with step [OF answered] len show ?thesis
          by (intro exI [of _ s] exI [of _ q] exI [of _ "Suc n"] exI [of _ "reply_frames pa t # out"]) (simp add: ac_simps)
      qed
    qed
  qed
qed simp

section \<open>Requests\<close>

lemma run_action_ok:
  assumes "wenv_ok E" "worker_queue_ok E (postponed W)" "v \<noteq> JObj []"
  shows "run_action E hdr v W = Throw \<or> (\<exists>r s q. run_action E hdr v W = Ok (r, W\<lparr>w_srv := s, postponed := q\<rparr>)
    \<and> worker_queue_ok E q)"
proof (cases "get_object v")
  case (Ok obj)
  then have "obj \<noteq> []" using assms(3) by (cases v) auto
  then obtain key x m where obj: "obj = (key, x) # m" by (cases obj) auto
  show ?thesis
  proof (cases "dfind key (w_actions E)")
    case None
    with Ok obj assms(2) show ?thesis
      by (simp add: run_action_def resp_simps Let_def)
        (intro exI [of _ "w_srv W"] exI [of _ "postponed W"], simp)
  next
    case (Some a)
    from perform_soft [OF _ Some, of E v "session_id hdr" W] assms(1) consider
        "perform E a v (session_id hdr) W = Throw"
      | mm st res s' where "get_message a v = Ok mm" "perform E a v (session_id hdr) W = Ok (action_id mm, st, res, W\<lparr>w_srv := s'\<rparr>)"
      unfolding wenv_ok_def by blast
    then show ?thesis
    proof cases
      case 1
      with Ok obj Some show ?thesis by (simp add: run_action_def)
    next
      case 2
      let ?pa = "new_postponed v (reply_to W) (action_id mm) (action_retries_on_postpone E)
          ((w_now E + action_postpone_dur E) div 1000) hdr"
      have "runnable (w_actions E) ?pa"
        using Ok obj Some 2(1) by (auto simp: runnable_def new_postponed_def)
      then have q: "worker_queue_ok E (snd (add_postponed ?pa (postponed W)))"
        by (rule worker_queue_ops(3) [OF assms(2)])
      show ?thesis
      proof (cases "st = POSTPONED")
        case True
        with Ok obj Some 2(2) q show ?thesis by (auto simp: run_action_def)
      next
        case False
        with Ok obj Some 2(2) assms(2) show ?thesis
          by (simp add: run_action_def) (intro exI [of _ s'] exI [of _ "postponed W"], simp)
      qed
    qed
  qed
qed (simp_all add: run_action_def, use soft_json(2) [of v] in \<open>simp_all add: soft_def\<close>)

lemma run_actions_ok:
  assumes "wenv_ok E" "worker_queue_ok E (postponed W)" "JObj [] \<notin> set vs"
  shows "\<exists>rs' s q r. run_actions E hdr vs rs W = (rs', W\<lparr>w_srv := s, postponed := q\<rparr>, r) \<and> worker_queue_ok E q \<and> soft r"
  using assms(2,3)
proof (induction vs arbitrary: rs W)
  case Nil
  then show ?case by (intro exI [of _ rs] exI [of _ "w_srv W"] exI [of _ "postponed W"]) simp
next
  case (Cons v vs)
  have "v \<noteq> JObj []" using Cons.prems(2) by auto
  from run_action_ok [OF assms(1) Cons.prems(1) this, of hdr] show ?case
  proof
    assume "run_action E hdr v W = Throw"
    with Cons.prems(1) show ?thesis
      by (intro exI [of _ rs] exI [of _ "w_srv W"] exI [of _ "postponed W"]) simp
  next
    assume "\<exists>r s q. run_action E hdr v W = Ok (r, W\<lparr>w_srv := s, postponed := q\<rparr>) \<and> worker_queue_ok E q"
    then obtain r s q where r: "run_action E hdr v W = Ok (r, W\<lparr>w_srv := s, postponed := q\<rparr>)" "worker_queue_ok E q" by blast
    from Cons.IH [of "W\<lparr>w_srv := s, postponed := q\<rparr>" "rs @ r"] r Cons.prems(2) show ?thesis by auto
  qed
qed

text \<open>A request each of whose action objects its plugin can read, when no plugin postpones.\<close>

definition readable :: "action dispatcher \<Rightarrow> json \<Rightarrow> bool" where
  "readable D v \<longleftrightarrow> (\<exists>key x m. v = JObj ((key, x) # m) \<and> (\<forall>a. dfind key D = Some a \<longrightarrow> is_ok (get_message a v)))"

definition never_postpones :: "action dispatcher \<Rightarrow> bool" where
  "never_postpones D \<longleftrightarrow> (\<forall>n a sess m r s st r' s'. dfind n D = Some a \<longrightarrow> act a sess m r s = Ok (st, r', s') \<longrightarrow> st \<noteq> POSTPONED)"

lemma never_postponesD:
  "never_postpones D \<Longrightarrow> dfind n D = Some a \<Longrightarrow> act a sess m r s = Ok (POSTPONED, r', s') \<Longrightarrow> False"
  unfolding never_postpones_def by blast

lemma perform_not_postponed:
  "never_postpones D \<Longrightarrow> dfind n D = Some a \<Longrightarrow> perform E a v sid W = Ok (i, st, res, W') \<Longrightarrow> st \<noteq> POSTPONED"
  by (auto simp: perform_def bind_o_Ok_iff case_prod_unfold Let_def dest: never_postponesD)

lemma run_action_readable:
  assumes "wenv_ok E" "never_postpones (w_actions E)" "readable (w_actions E) v"
  shows "\<exists>r s. run_action E hdr v W = Ok ([r], W\<lparr>w_srv := s\<rparr>)"
proof -
  obtain key x m where v: "v = JObj ((key, x) # m)" "\<forall>a. dfind key (w_actions E) = Some a \<longrightarrow> is_ok (get_message a v)"
    using assms(3) by (auto simp: readable_def)
  show ?thesis
  proof (cases "dfind key (w_actions E)")
    case None
    with v(1) show ?thesis
      by (simp add: run_action_def resp_simps Let_def) (intro exI [of _ "w_srv W"], simp)
  next
    case (Some a)
    then obtain mm where mm: "get_message a v = Ok mm" using v(2) by (auto simp: is_ok_iff)
    obtain st res s' where p: "perform E a v (session_id hdr) W = Ok (action_id mm, st, res, W\<lparr>w_srv := s'\<rparr>)"
      using perform_ok [OF _ Some mm, of E "session_id hdr" W] assms(1) unfolding wenv_ok_def by blast
    with perform_not_postponed [OF assms(2) Some p] v(1) Some show ?thesis by (auto simp: run_action_def)
  qed
qed

lemma run_actions_readable:
  assumes "wenv_ok E" "never_postpones (w_actions E)" "\<forall>v \<in> set vs. readable (w_actions E) v"
  shows "\<exists>rs' s. run_actions E hdr vs rs W = (rs @ rs', W\<lparr>w_srv := s\<rparr>, Ok ()) \<and> length rs' = length vs"
  using assms(3)
proof (induction vs arbitrary: rs W)
  case Nil
  then show ?case by (intro exI [of _ "[]"] exI [of _ "w_srv W"]) simp
next
  case (Cons v vs)
  obtain r s where r: "run_action E hdr v W = Ok ([r], W\<lparr>w_srv := s\<rparr>)"
    using run_action_readable [OF assms(1,2), of v hdr W] Cons.prems by auto
  from Cons.IH [of "rs @ [r]" "W\<lparr>w_srv := s\<rparr>"] Cons.prems r show ?case by fastforce
qed

definition pending_ok :: "message_worker \<Rightarrow> bool" where
  "pending_ok W \<longleftrightarrow> (case pending W of None \<Rightarrow> True | Some m \<Rightarrow> clean_msg m)"

definition worker_inv :: "worker_env \<Rightarrow> message_worker \<Rightarrow> bool" where
  "worker_inv E W \<longleftrightarrow> worker_queue_ok E (postponed W) \<and> pending_ok W"

definition worker_request_wf :: "worker_env \<Rightarrow> string \<Rightarrow> bool" where
  "worker_request_wf E t \<longleftrightarrow> (case w_from_string E t of Ok v \<Rightarrow> JObj [] \<notin> set (actions_of v) | _ \<Rightarrow> True)"

lemma answer_ok:
  assumes "wenv_ok E" "pending_ok W"
  shows "\<exists>W'. answer E hdr rs W = Ok W' \<and> pending_ok W' \<and> postponed W' = postponed W \<and> (pending W' \<noteq> None \<or> \<not> expect_reply W')"
proof -
  obtain t where "w_to_string E (res_msg_to_json \<lparr>res_hdr = hdr, res_msgs = rs\<rparr>) = Ok t"
    using assms(1) by (auto simp: wenv_ok_def is_ok_iff)
  then show ?thesis using assms(2) by (auto simp: answer_def pending_ok_def)
qed

lemma request_parts_wf:
  assumes "wenv_ok E" "worker_request_wf E t"
  shows "request_parts E t = Throw \<or> (\<exists>hdr vs. request_parts E t = Ok (hdr, vs) \<and> JObj [] \<notin> set vs)"
proof -
  have "soft (request_parts E t)"
    using assms(1) by (auto simp: request_parts_def wenv_ok_def intro!: soft_bind)
  moreover have "JObj [] \<notin> set vs" if "request_parts E t = Ok (hdr, vs)" for hdr vs
  proof -
    from that obtain v obj ms where v: "w_from_string E t = Ok v" "get_object v = Ok obj" "map_at obj ''msgs'' = Ok ms"
      "get_array ms = Ok vs" by (auto simp: request_parts_def bind_o_Ok_iff)
    then have "v = JObj obj" by (cases v) auto
    moreover have "map_of obj ''msgs'' = Some ms" using v(3) by (cases "map_of obj ''msgs''") (auto simp: map_at_def)
    moreover have "ms = JArr vs" using v(4) by (cases ms) auto
    ultimately have "actions_of v = vs" by (simp add: actions_of_def)
    with assms(2) v(1) show ?thesis by (simp add: worker_request_wf_def)
  qed
  ultimately show ?thesis by (cases "request_parts E t") auto
qed

lemma process_request_ok:
  assumes "wenv_ok E" "worker_inv E W" "body request = Some t" "worker_request_wf E t"
  shows "\<exists>W'. process_request E request W = Ok W' \<and> worker_inv E W' \<and> (pending W' \<noteq> None \<or> \<not> expect_reply W')"
proof -
  have q: "worker_queue_ok E (postponed W)" "pending_ok W" using assms(2) by (simp_all add: worker_inv_def)
  from request_parts_wf [OF assms(1,4)] show ?thesis
  proof
    assume "request_parts E t = Throw"
    with assms(3) q answer_ok [OF assms(1) q(2), of "\<lparr>session_id = []\<rparr>" "[malformed_result]"] show ?thesis
      by (auto simp: process_request_def worker_inv_def)
  next
    assume "\<exists>hdr vs. request_parts E t = Ok (hdr, vs) \<and> JObj [] \<notin> set vs"
    then obtain hdr vs where p: "request_parts E t = Ok (hdr, vs)" "JObj [] \<notin> set vs" by blast
    obtain rs s q' r where r: "run_actions E hdr vs [] W = (rs, W\<lparr>w_srv := s, postponed := q'\<rparr>, r)"
      "worker_queue_ok E q'" "soft r"
      using run_actions_ok [OF assms(1) q(1) p(2), of hdr "[]"] by blast
    have pend: "pending_ok (W\<lparr>w_srv := s, postponed := q'\<rparr>)" using q(2) by (simp add: pending_ok_def)
    from answer_ok [OF assms(1) pend, of hdr] have
      "\<exists>W'. answer E hdr xs (W\<lparr>w_srv := s, postponed := q'\<rparr>) = Ok W' \<and> worker_inv E W' \<and> (pending W' \<noteq> None \<or> \<not> expect_reply W')" for xs
      using r(2) unfolding worker_inv_def by (metis message_worker.select_convs(5) message_worker.surjective message_worker.update_convs(5) message_worker.update_convs(9))
    with assms(3) p(1) r(1,3) show ?thesis
      by (cases r) (simp_all add: process_request_def)
  qed
qed

section \<open>Turns\<close>

lemma recv_entry_ok:
  assumes "worker_inv E W" "pending W \<noteq> None \<or> \<not> expect_reply W"
  shows "\<exists>W'. recv_entry W = Ok W' \<and> worker_inv E W'"
proof (cases "pending W")
  case None
  with assms show ?thesis by (auto simp: recv_entry_def worker_inv_def pending_ok_def)
next
  case (Some m)
  then have "clean_msg m" using assms(1) by (simp add: worker_inv_def pending_ok_def)
  with Some assms(1) show ?thesis
    by (cases "reply_to W = []") (auto simp: recv_entry_def worker_inv_def pending_ok_def send_to_broker_clean)
qed

lemma worker_heartbeat_ok: "worker_inv E W \<Longrightarrow> \<exists>W'. worker_heartbeat E W = Ok W' \<and> worker_inv E W'"
  by (auto simp: worker_heartbeat_def send_to_broker_clean worker_inv_def pending_ok_def)

text \<open>What the broker sends a worker: the envelope, and for a request the client and a body.\<close>

definition from_broker_ok :: "worker_env \<Rightarrow> string list \<Rightarrow> bool" where
  "from_broker_ok E fs \<longleftrightarrow> clean_frames fs \<and> 3 \<le> length fs \<and> fs ! 0 = [] \<and> fs ! 1 = MDPW_WORKER
     \<and> (fs ! 2 = MDPW_REQUEST \<longrightarrow> 6 \<le> length fs \<and> worker_request_wf E (last fs))"

lemma broker_message_ok:
  assumes "from_broker_ok E fs" "worker_inv E W"
  shows "\<exists>req W'. broker_message E fs W = Ok (req, W') \<and> worker_inv E W'
    \<and> (case req of None \<Rightarrow> True | Some m \<Rightarrow> body m = Some (last fs) \<and> worker_request_wf E (last fs))"
proof -
  obtain c m where fs: "fs = [] # MDPW_WORKER # c # m" "nul_free c"
  proof -
    obtain x y c m where "fs = x # y # c # m"
      using assms(1) unfolding from_broker_ok_def by (metis One_nat_def Suc_le_length_iff numeral_3_eq_3)
    with assms(1) that show thesis by (auto simp: from_broker_ok_def clean_frames_def)
  qed
  have inv: "worker_inv E (W\<lparr>liveness := l\<rparr>)" "worker_inv E (W\<lparr>liveness := l, reply_to := r\<rparr>)"
    "worker_inv E (W\<lparr>to_broker := t, liveness := l, heartbeat_at := h\<rparr>)" for l r h t
    using assms(2) by (simp_all add: worker_inv_def pending_ok_def)
  show ?thesis
  proof (cases "c = MDPW_REQUEST")
    case True
    then have len: "6 \<le> length fs" "worker_request_wf E (last fs)"
      using assms(1) fs by (auto simp: from_broker_ok_def)
    then obtain p q r n where m: "m = p # q # r # n"
      using fs(1) by (auto simp: numeral_eq_Suc Suc_le_length_iff)
    have last: "nul_free (last fs)" using assms(1) by (simp add: from_broker_ok_def clean_frames_def)
    have "snd (unwrap m) = (if c_str q = [] then r # n else q # r # n)"
      by (simp add: m unwrap_def address_def)
    then have "body (snd (unwrap m)) = Some (last fs)"
      using last fs(1) m by (simp add: body_def)
    then show ?thesis
      using True fs inv len(2) by (auto simp: broker_message_def parts_def case_prod_unfold Let_def)
  next
    case False
    with fs inv show ?thesis by (auto simp: broker_message_def parts_def connect_eq Let_def)
  qed
qed

definition wturn_ok :: "worker_env \<Rightarrow> worker_turn \<Rightarrow> bool" where
  "wturn_ok E t \<longleftrightarrow> (case w_polled t of None \<Rightarrow> True | Some es \<Rightarrow> \<exists>fs. es = frames_of fs \<and> from_broker_ok E fs)"

lemma after_poll_ok:
  assumes "worker_inv E W" "case polled of None \<Rightarrow> True | Some es \<Rightarrow> \<exists>fs. es = frames_of fs \<and> from_broker_ok E fs"
  shows "\<exists>req W'. after_poll E polled W = Ok (req, W') \<and> worker_inv E W'
    \<and> (case req of None \<Rightarrow> True | Some m \<Rightarrow> \<exists>t. body m = Some t \<and> worker_request_wf E t)"
proof -
  let ?first = "case polled of
        Some es \<Rightarrow> (case recv es of None \<Rightarrow> Ok (None, W)
           | Some r \<Rightarrow> bind_o r (\<lambda>(received, msg). if received then broker_message E msg W else Ok (None, W)))
      | None \<Rightarrow> (let W1 = W\<lparr>liveness := liveness W - 1\<rparr>
           in if liveness W1 = 0 then bind_o (connect_to_broker E W1) (\<lambda>W'. Ok (None, W')) else Ok (None, W1))"
  have "\<exists>req W2. ?first = Ok (req, W2) \<and> worker_inv E W2
    \<and> (case req of None \<Rightarrow> True | Some m \<Rightarrow> \<exists>t. body m = Some t \<and> worker_request_wf E t)"
  proof (cases polled)
    case None
    with assms(1) show ?thesis by (auto simp: connect_eq worker_inv_def pending_ok_def Let_def)
  next
    case (Some es)
    then obtain fs where fs: "es = frames_of fs" "from_broker_ok E fs" using assms(2) by auto
    then have "recv es = Some (Ok (True, fs))" by (simp add: recv_clean from_broker_ok_def)
    with Some broker_message_ok [OF fs(2) assms(1)] show ?thesis by (fastforce split: option.splits)
  qed
  then obtain req W2 where r: "?first = Ok (req, W2)" "worker_inv E W2"
    "case req of None \<Rightarrow> True | Some m \<Rightarrow> \<exists>t. body m = Some t \<and> worker_request_wf E t" by blast
  then show ?thesis
    using worker_heartbeat_ok [OF r(2)] by (cases req) (auto simp: after_poll_def)
qed

lemma wenv_ok_now [simp]: "wenv_ok (E\<lparr>w_now := n\<rparr>) = wenv_ok E"
  "worker_queue_ok (E\<lparr>w_now := n\<rparr>) = worker_queue_ok E" "worker_inv (E\<lparr>w_now := n\<rparr>) = worker_inv E"
  "from_broker_ok (E\<lparr>w_now := n\<rparr>) = from_broker_ok E" "worker_request_wf (E\<lparr>w_now := n\<rparr>) = worker_request_wf E"
  by (simp_all add: wenv_ok_def worker_queue_ok_def worker_inv_def from_broker_ok_def worker_request_wf_def fun_eq_iff)

lemma due_count_le: "due_count now q \<le> length q"
  by (simp add: due_count_def)

lemma worker_step_ok:
  assumes "wenv_ok E" "worker_inv E W" "wturn_ok E t" "length (postponed W) < fuel"
  shows "\<exists>W'. worker_step fuel E t W = Some (Ok W') \<and> worker_inv E W'"
proof -
  let ?E = "E\<lparr>w_now := w_turn_now t\<rparr>"
  have q: "worker_queue_ok E (postponed W)" "pending_ok W" using assms(2) by (simp_all add: worker_inv_def)
  from handle_postponed_ok [of ?E W fuel] assms(1,4) q(1) due_count_le [of "now_s ?E" "postponed W"]
  obtain s q' n out where h: "handle_postponed fuel ?E W =
      Some (Ok (W\<lparr>w_srv := s, postponed := q', w_replied := w_replied W + of_nat n, to_broker := to_broker W @ out\<rparr>))"
    "worker_queue_ok E q'" by auto
  let ?W1 = "W\<lparr>w_srv := s, postponed := q', w_replied := w_replied W + of_nat n, to_broker := to_broker W @ out\<rparr>"
  have inv: "worker_inv ?E ?W1" using h(2) q(2) by (simp add: worker_inv_def pending_ok_def)
  have "case w_polled t of None \<Rightarrow> True | Some es \<Rightarrow> \<exists>fs. es = frames_of fs \<and> from_broker_ok ?E fs"
    using assms(3) by (auto simp: wturn_ok_def split: option.splits)
  from after_poll_ok [OF inv this] obtain req W2 where
    r: "after_poll ?E (w_polled t) ?W1 = Ok (req, W2)" "worker_inv E W2"
      "case req of None \<Rightarrow> True | Some m \<Rightarrow> \<exists>t. body m = Some t \<and> worker_request_wf E t"
    by (auto split: option.splits)
  show ?thesis
  proof (cases req)
    case None
    with h(1) r show ?thesis by (simp add: worker_step_def)
  next
    case (Some m)
    then obtain bt where bt: "body m = Some bt" "worker_request_wf E bt" using r(3) by auto
    obtain W3 where "process_request ?E m W2 = Ok W3" "worker_inv E W3" "pending W3 \<noteq> None \<or> \<not> expect_reply W3"
      using process_request_ok [of ?E W2 m bt] assms(1) r(2) bt by auto
    moreover obtain W4 where "recv_entry W3 = Ok W4" "worker_inv E W4" using recv_entry_ok calculation(2,3) by blast
    ultimately show ?thesis using h(1) r(1) Some by (simp add: worker_step_def)
  qed
qed

text \<open>More fuel does not change a run that ended.\<close>

lemma handle_postponed_mono: "handle_postponed n E W = Some r \<Longrightarrow> n \<le> k \<Longrightarrow> handle_postponed k E W = Some r"
proof (induction n arbitrary: W k)
  case (Suc n)
  then obtain k' where k: "k = Suc k'" "n \<le> k'" by (metis Suc_le_D Suc_le_mono)
  show ?case
  proof (cases "postponed W = []")
    case True
    with Suc.prems k show ?thesis by (simp add: empty_postponed_def)
  next
    case False
    then obtain pa where pa: "top_postponed (first_due E) (postponed W) = Ok pa" by (auto simp: top_postponed_def)
    with Suc.prems Suc.IH [OF _ k(2)] k(1) False show ?thesis
      by (cases "due pa \<le> now_s E"; cases "run_postponed E pa W") (simp_all add: empty_postponed_def)
  qed
qed simp

lemma worker_step_mono: "worker_step n E t W = Some r \<Longrightarrow> n \<le> k \<Longrightarrow> worker_step k E t W = Some r"
  using handle_postponed_mono [of n "E\<lparr>w_now := w_turn_now t\<rparr>" W _ k]
  by (auto simp: worker_step_def Let_def split: option.splits)

lemma worker_run_mono: "worker_run n E ts W = Some r \<Longrightarrow> n \<le> k \<Longrightarrow> worker_run k E ts W = Some r"
proof (induction ts arbitrary: W)
  case (Cons t ts)
  then obtain x where "worker_step n E t W = Some x" by (auto split: option.splits)
  with worker_step_mono [OF this Cons.prems(2)] Cons show ?case by (cases x) simp_all
qed simp

text \<open>
  A queued action whose plugin is not in the dispatcher would hang the worker: its turn leaves
  the queue as it is. The invariant excludes it, since only found actions are queued.
\<close>

lemma missing_plugin_hangs:
  assumes "postponed W = [pa]" and "tie_choice (first_due E)" and "due pa \<le> now_s E"
    and "get_object (action_message pa) = Ok ((key, x) # m)" and "dfind key (w_actions E) = None"
  shows "handle_postponed n E W = None"
proof (induction n)
  case (Suc n)
  have "top_postponed (first_due E) [pa] = Ok pa" using top_in [OF assms(2), of "[pa]"] by auto
  then have "handle_postponed (Suc n) E W = handle_postponed n E W"
    using assms by (simp add: empty_postponed_def run_postponed_def)
  with Suc show ?case by simp
qed simp

text \<open>One request, one answer, in one turn.\<close>

lemma answer_to_request:
  assumes "wenv_ok E" and "never_postpones (w_actions E)" and "postponed W = []" and "fuel \<noteq> 0"
    and "clean_frames [client, req]" and "client \<noteq> []"
    and "request_parts E req = Ok (hdr, vs)" and "vs \<noteq> []" and "\<forall>v \<in> set vs. readable (w_actions E) v"
  shows "\<exists>W' rs t. worker_step fuel E
        \<lparr>w_turn_now = now, w_polled = Some (frames_of [[], MDPW_WORKER, MDPW_REQUEST, client, [], req])\<rparr> W = Some (Ok W')
    \<and> to_broker W' = to_broker W @ [sent ([[], MDPW_WORKER, MDPW_REPLY, client, [], c_str t])]
    \<and> w_to_string E (res_msg_to_json \<lparr>res_hdr = hdr, res_msgs = rs\<rparr>) = Ok t \<and> length rs = length vs"
proof -
  let ?E = "E\<lparr>w_now := now\<rparr>" and ?fs = "[[], MDPW_WORKER, MDPW_REQUEST, client, [], req]"
  have E: "wenv_ok ?E" "never_postpones (w_actions ?E)" "\<forall>v \<in> set vs. readable (w_actions ?E) v"
    "request_parts ?E req = Ok (hdr, vs)"
    using assms(1,2,7,9) by (simp_all add: request_parts_def)
  have nul: "nul_free client" "nul_free req" using assms(5) by (simp_all add: clean_frames_def)
  then have recv: "recv (frames_of ?fs) = Some (Ok (True, ?fs))"
    by (intro recv_clean) (simp add: clean_frames_def)
  obtain n where fuel: "fuel = Suc n" using assms(4) by (cases fuel) auto
  have h: "handle_postponed fuel ?E W = Some (Ok W)" by (simp add: fuel empty_postponed_def assms(3))
  let ?W2 = "W\<lparr>liveness := heartbeat_liveness E, reply_to := client\<rparr>"
  have poll: "after_poll ?E (Some (frames_of ?fs)) W = Ok (Some [req], ?W2)"
    using nul by (simp add: after_poll_def recv broker_message_def parts_def unwrap_def address_def)
  obtain rs s where run: "run_actions ?E hdr vs [] ?W2 = (rs, ?W2\<lparr>w_srv := s\<rparr>, Ok ())" "length rs = length vs"
    using run_actions_readable [OF E(1,2,3), of hdr "[]" ?W2] by auto
  obtain t where t: "w_to_string E (res_msg_to_json \<lparr>res_hdr = hdr, res_msgs = rs\<rparr>) = Ok t"
    using assms(1) by (auto simp: wenv_ok_def is_ok_iff)
  have "rs \<noteq> []" using run(2) assms(8) by auto
  then have pr: "process_request ?E [req] ?W2 = Ok (?W2\<lparr>w_srv := s, pending := Some [c_str t]\<rparr>)"
    using E(4) nul run(1) t by (simp add: process_request_def body_def answer_def emplace_back_def)
  have fr: "broker_frames MDPW_REPLY [] (Some (wrap client (Some []) [c_str t])) =
      [[], MDPW_WORKER, MDPW_REPLY, client, [], c_str t]"
    using nul by (simp add: broker_frames_def wrap_def push_front_def)
  have "worker_step fuel E \<lparr>w_turn_now = now, w_polled = Some (frames_of ?fs)\<rparr> W =
     Some (recv_entry (?W2\<lparr>w_srv := s, pending := Some [c_str t]\<rparr>))"
    using h poll pr by (simp add: worker_step_def)
  moreover have "\<exists>W'. recv_entry (?W2\<lparr>w_srv := s, pending := Some [c_str t]\<rparr>) = Ok W'
      \<and> to_broker W' = to_broker W @ [sent [[], MDPW_WORKER, MDPW_REPLY, client, [], c_str t]]"
    using assms(6) fr by (simp add: recv_entry_def send_to_broker_clean)
  ultimately show ?thesis using t run(2) by auto
qed

section \<open>A sample worker\<close>

text \<open>Concrete values for the witnesses: no plugins, and a worker that has just connected.\<close>

definition sample_worker_env :: "json outcome \<Rightarrow> worker_env" where
  "sample_worker_env req = \<lparr>w_now = 0, first_due = hd, w_actions = empty_dispatcher, w_uuid_parse = (\<lambda>t. None),
     w_from_string = (\<lambda>t. req), w_to_string = (\<lambda>v. Ok ''{}''), w_heartbeat = 5, heartbeat_liveness = 3,
     action_postpone_dur = 1000, action_retries_on_postpone = 3\<rparr>"

definition sample_worker :: message_worker where
  "sample_worker = (new_message_worker (sample_worker_env Throw)
     \<lparr>sessions = \<lparr>elements = [], idle_timeout = 60\<rparr>, clock = 0, randoms = (\<lambda>n. 5), drawn = 0, faults = (\<lambda>n. No_Fault), service_conf = empty_dispatcher, get_sd_called = False\<rparr>)
     \<lparr>expect_reply := True\<rparr>"

lemma sample_worker_env_ok: "soft req \<Longrightarrow> wenv_ok (sample_worker_env req)"
  by (simp add: wenv_ok_def sample_worker_env_def plugins_ok_def dfind_empty tie_choice_hd)

lemma sample_worker_inv: "worker_inv (sample_worker_env req) sample_worker"
  by (simp add: worker_inv_def worker_queue_ok_def queue_ok_def unique_by_def pending_ok_def sample_worker_def new_message_worker_def)

section \<open>Properties\<close>







text \<open>
  A silent broker: with no input, no heartbeat due and nothing postponed, the worker sends
  nothing until its liveness is used up; the turn that uses it up registers again with a READY
  and restores the liveness.
\<close>

theorem silent_broker_reconnect:
  assumes "postponed W = []" and "0 < w_heartbeat E" and "liveness W = of_nat (length ts)" and "ts \<noteq> []"
    and "length ts < 2 ^ 64" and "\<forall>t \<in> set ts. w_polled t = None \<and> w_turn_now t < heartbeat_at W"
  shows "\<exists>W'. worker_run 1 E ts W = Some (Ok W')
    \<and> to_broker W' = to_broker W @ [sent [[], MDPW_WORKER, MDPW_READY]] \<and> liveness W' = heartbeat_liveness E"
  using assms(1,3-6)
proof (induction ts arbitrary: W)
  case (Cons t ts)
  have ready: "broker_frames MDPW_READY [] None = [[], MDPW_WORKER, MDPW_READY]"
    by (simp add: broker_frames_def push_front_def)
  let ?W1 = "W\<lparr>liveness := liveness W - 1\<rparr>"
  have l: "liveness W - 1 = of_nat (length ts)" using Cons.prems(2) by simp
  show ?case
  proof (cases "ts = []")
    case True
    with Cons.prems assms(2) show ?thesis
      by (simp add: worker_step_def empty_postponed_def after_poll_def connect_eq worker_heartbeat_def ready)
  next
    case False
    have "of_nat (length ts) \<noteq> (0 :: 64 word)"
      using False Cons.prems(4) by (simp add: of_nat_eq_0_iff word_of_nat_eq_0_iff nat_dvd_not_less)
    then have "worker_step 1 E t W = Some (Ok ?W1)"
      using Cons.prems l by (simp add: worker_step_def empty_postponed_def after_poll_def worker_heartbeat_def)
    moreover obtain W' where "worker_run 1 E ts ?W1 = Some (Ok W')"
      "to_broker W' = to_broker W @ [sent [[], MDPW_WORKER, MDPW_READY]]" "liveness W' = heartbeat_liveness E"
      using Cons.IH [of ?W1] Cons.prems False l by auto
    ultimately show ?thesis by simp
  qed
qed simp

theorem silent_broker_reconnect_witness:
  "\<exists>W'. worker_run 1 (sample_worker_env Throw) [\<lparr>w_turn_now = 3, w_polled = None\<rparr>, \<lparr>w_turn_now = 4, w_polled = None\<rparr>]
       (sample_worker\<lparr>heartbeat_at := 8, liveness := 2\<rparr>) = Some (Ok W')
    \<and> to_broker W' = [sent [[], MDPW_WORKER, MDPW_READY]]"
proof -
  let ?ts = "[\<lparr>w_turn_now = 3, w_polled = None\<rparr>, \<lparr>w_turn_now = 4, w_polled = None\<rparr>]"
  let ?W = "sample_worker\<lparr>heartbeat_at := 8, liveness := 2\<rparr>"
  have "\<exists>W'. worker_run 1 (sample_worker_env Throw) ?ts ?W = Some (Ok W')
    \<and> to_broker W' = to_broker ?W @ [sent [[], MDPW_WORKER, MDPW_READY]] \<and> liveness W' = heartbeat_liveness (sample_worker_env Throw)"
    by (rule silent_broker_reconnect) (simp_all add: sample_worker_env_def sample_worker_def new_message_worker_def)
  moreover have "to_broker ?W = []" by (simp add: sample_worker_def new_message_worker_def)
  ultimately show ?thesis by (metis append_Nil)
qed

text \<open>
  The number of retries is taken modulo 256: the setting has 32 bits and the queue's counter
  8, so 256 retries, or any multiple, means none.
\<close>

theorem retries_truncated:
  "unat (remaining_runs (new_postponed v rt i n t h)) = unat n mod 256"
  by (simp add: new_postponed_def unsigned_ucast_eq take_bit_eq_mod)

end
