(* ===== verification/Maintenance.thy ===== *)
theory Maintenance
  imports Session_Cache "HOL-Library.Log_Nat"
begin

text \<open>
  \<open>src/src/frontend/maintenance.cpp\<close>: the periodic cleaning of expired sessions and of the
  files downloaded for them, and \<open>src/src/common/zmq/zmq_helpers.cpp\<close>. A downloaded file
  belongs to the session whose id its name starts with. The directory is the list of its file
  names in the order of the iteration; \<open>removable\<close> tells which of them
  \<open>boost::filesystem::remove\<close> can delete (it throws otherwise).
\<close>

section \<open>Maintenance\<close>

text \<open>\<open>std::string(name.c_str(), n)\<close> reads \<open>n\<close> characters; the terminator is the last one there is.\<close>

definition name_prefix :: "nat \<Rightarrow> string \<Rightarrow> string outcome" where
  "name_prefix n name = (if length name + 1 < n then UB else Ok (take n (name @ [CHR 0x00])))"

fun sweep_files :: "nat \<Rightarrow> string list \<Rightarrow> (string \<Rightarrow> bool) \<Rightarrow> string list \<Rightarrow> string list outcome" where
  "sweep_files n session_list removable [] = Ok []"
| "sweep_files n session_list removable (name # names) =
     bind_o (name_prefix n name) (\<lambda>p.
       if p \<notin> set session_list then
         (if removable name then sweep_files n session_list removable names else Throw)
       else bind_o (sweep_files n session_list removable names) (\<lambda>kept. Ok (name # kept)))"

definition maintenance_function ::
  "(128 word \<Rightarrow> string) \<Rightarrow> 128 word \<Rightarrow> int \<Rightarrow> (string \<Rightarrow> bool) \<Rightarrow> string list \<Rightarrow> sessions_cache
    \<Rightarrow> (string list \<times> sessions_cache) outcome" where
  "maintenance_function uts random now removable files C =
     (let uuid_str_len = length (uts random);
          C' = snd (clean now C)
      in bind_o (sweep_files uuid_str_len (get_sessions_id_list C') removable files) (\<lambda>kept. Ok (kept, C')))"

lemma sweep_files_eq:
  assumes "\<forall>f \<in> set files. n \<le> length f + 1 \<and> removable f"
  shows "sweep_files n ids removable files = Ok (filter (\<lambda>f. take n (f @ [CHR 0x00]) \<in> set ids) files)"
  using assms by (induction files) (simp_all add: name_prefix_def)

lemma sweep_files_UB:
  assumes "f \<in> set files" "length f + 1 < n"
  shows "\<not> is_ok (sweep_files n ids removable files)"
  using assms
proof (induction files)
  case (Cons g files)
  then show ?case
    by (cases "sweep_files n ids removable files") (auto simp: name_prefix_def)
qed simp

definition ids_sat :: "(string \<Rightarrow> bool) \<Rightarrow> sessions_cache \<Rightarrow> bool" where
  "ids_sat P C \<longleftrightarrow> (\<forall>e \<in> set (elements C). P (element_id e))"

lemma set_erase_by_subset: "x \<in> set (erase_by f k xs) \<Longrightarrow> x \<in> set xs"
  by (auto simp: erase_by_def)

lemma ids_sat_renew [simp]: "ids_sat P (renew tag now k C) = ids_sat P C"
proof -
  have eq: "ids_sat P D \<longleftrightarrow> (\<forall>sm \<in> stored ` set (elements D). P (s_id sm))" for D
    by (simp add: ids_sat_def element_id_def)
  show ?thesis by (simp only: eq elements_renew)
qed

lemma ids_sat_step:
  assumes "ids_sat P C" "\<forall>u. P (uts u)"
  shows "ids_sat P (cache_step uts stu p C)"
proof (cases p)
  case (Add now f s)
  with assms show ?thesis
    by (cases f) (auto simp: add_def add_shared_def insert_element_def convert_to_shared_def idstr_def ids_sat_def
        dest: set_erase_by_subset)
next
  case (Remove_By_Id k)
  with assms(1) show ?thesis
    by (auto simp: remove_by_id_def ids_sat_def dest: set_erase_by_subset split: option.split)
next
  case (Clean now)
  with assms(1) show ?thesis by (simp add: clean_def ids_sat_def)
next
  case Flush
  then show ?thesis by (simp add: flush_all_entries_def ids_sat_def)
qed (use assms(1) in \<open>simp_all add: get_session_by_def touch_by_def split: option.split\<close>)

lemma ids_sat_run:
  "ids_sat P C \<Longrightarrow> \<forall>u. P (uts u) \<Longrightarrow> ids_sat P (fold (cache_step uts stu) ps C)"
  by (induction ps arbitrary: C) (simp_all add: ids_sat_step)

lemma id_list_clean: "set (get_sessions_id_list (snd (clean now C))) = element_id ` {e \<in> set (elements C). now \<le> expiration_time e}"
  by (auto simp: get_sessions_id_list_def clean_def)

lemma take_id: "length i = n \<Longrightarrow> take n (f @ [CHR 0x00]) = i \<longleftrightarrow> take n f = i \<or> i = f @ [CHR 0x00]"
  by (cases "n \<le> length f") (auto simp: take_append)

lemma maintenance_result:
  assumes "ids_sat (\<lambda>i. length i = n \<and> nul_free i) C" "length (uts random) = n"
    and "\<forall>f \<in> set files. n \<le> length f + 1 \<and> removable f"
  shows "maintenance_function uts random now removable files C =
    Ok (filter (\<lambda>f. \<exists>e \<in> set (elements C). now \<le> expiration_time e \<and> take n f = element_id e) files, snd (clean now C))"
proof -
  have "take n (f @ [CHR 0x00]) \<in> set (get_sessions_id_list (snd (clean now C))) \<longleftrightarrow>
      (\<exists>e \<in> set (elements C). now \<le> expiration_time e \<and> take n f = element_id e)" for f
  proof -
    have "take n (f @ [CHR 0x00]) = element_id e \<longleftrightarrow> take n f = element_id e" if "e \<in> set (elements C)" for e
    proof -
      have "length (element_id e) = n" "element_id e \<noteq> f @ [CHR 0x00]"
        using assms(1) that by (auto simp: ids_sat_def nul_free_def)
      then show ?thesis by (simp only: take_id) auto
    qed
    then show ?thesis by (auto simp: id_list_clean image_iff)
  qed
  with assms(2,3) show ?thesis by (simp add: maintenance_function_def sweep_files_eq)
qed

section \<open>Helpers of the sockets\<close>

text \<open>
  \<open>within(num)\<close> multiplies in \<open>float\<close>: \<open>random()\<close>, between 0 and \<open>RAND_MAX = 2\<^sup>3\<^sup>1 - 1\<close>, is rounded
  to 24 significant bits, ties to even. For a power of two the product and the quotient are exact.
\<close>

definition float_round :: "nat \<Rightarrow> nat" where
  "float_round r =
     (if r < 2 ^ 24 then r
      else let u = 2 ^ (floorlog 2 r - 24); q = r div u; m = r mod u
           in (if 2 * m > u \<or> (2 * m = u \<and> odd q) then q + 1 else q) * u)"

definition within_num :: "nat \<Rightarrow> nat \<Rightarrow> nat" where
  "within_num n r = n * float_round r div 2 ^ 31"

definition upper_hex :: "nat \<Rightarrow> string" where
  "upper_hex n = map (\<lambda>c. if 97 \<le> (of_char c :: nat) then char_of ((of_char c :: nat) - 32) else c) (to_hex_nat n)"

definition setw4 :: "string \<Rightarrow> string" where
  "setw4 s = replicate (4 - length s) CHR ''0'' @ s"

definition set_id :: "nat \<Rightarrow> nat \<Rightarrow> string" where
  "set_id r1 r2 = setw4 (upper_hex (within_num 65536 r1)) @ ''-'' @ setw4 (upper_hex (within_num 65536 r2))"

text \<open>\<open>sleep\<close>: the \<open>timespec\<close> handed to \<open>nanosleep\<close>, for a duration that is not negative.\<close>

definition sleep_timespec :: "nat \<Rightarrow> nat \<times> nat" where
  "sleep_timespec msecs = (msecs div 1000, msecs mod 1000)"

definition slept_ns :: "nat \<times> nat \<Rightarrow> nat" where
  "slept_ns t = fst t * 10 ^ 9 + snd t"


lemma show_base_length:
  assumes "2 \<le> b" "n < b ^ k" "0 < k"
  shows "length (show_base b n) \<le> k"
  using assms
proof (induction b n arbitrary: k rule: show_base.induct)
  case (1 b n)
  show ?case
  proof (cases "n < b")
    case False
    with 1 obtain j where k: "k = Suc j" "0 < j" by (metis Suc_pred gr0I power_one_right One_nat_def)
    with 1 False have "n div b < b ^ j" by (simp add: less_mult_imp_div_less mult.commute)
    with "1.IH" [of j] 1 False k show ?thesis by (subst show_base.simps) simp
  qed (use 1 in \<open>subst show_base.simps; simp\<close>)
qed

lemma float_round_le:
  assumes "r < 2 ^ 24 \<or> floorlog 2 r \<le> k"
  shows "r < 2 ^ 24 \<or> float_round r \<le> 2 ^ k"
proof (cases "r < 2 ^ 24")
  case False
  define l where "l = floorlog 2 r"
  have l: "r < 2 ^ l" "24 \<le> l" "l \<le> k"
    using False assms floorlog_bounds [of 2 r] floorlog_leI [of r 2 24] unfolding l_def
    by (auto simp: floorlog_leD not_less intro: floorlog_geI)
  define u :: nat where "u = 2 ^ (l - 24)"
  have u: "2 ^ 24 * u = 2 ^ l" unfolding u_def power_add [symmetric] using l(2) by simp
  have "r div u < 2 ^ 24" by (rule less_mult_imp_div_less) (simp only: u l(1))
  then have "(r div u + 1) * u \<le> 2 ^ 24 * u" by (intro mult_le_mono1) simp
  also have "\<dots> = 2 ^ l" by (rule u)
  also have "\<dots> \<le> 2 ^ k" using l by (simp add: power_increasing)
  finally have "(r div u + 1) * u \<le> 2 ^ k" .
  moreover have "r div u * u \<le> (r div u + 1) * u" by simp
  ultimately show ?thesis
    using False by (auto simp: float_round_def l_def [symmetric] u_def [symmetric] Let_def)
qed simp


lemma within_num_bound:
  assumes "r < 2 ^ 31"
  shows "within_num 65536 r = 65536 \<or> within_num 65536 r < 65536"
proof -
  have "float_round r \<le> 2 ^ 31"
    using float_round_le [of r 31] assms by (auto simp: floorlog_le_iff float_round_def)
  then have "65536 * float_round r div 2 ^ 31 \<le> 65536 * 2 ^ 31 div 2 ^ 31"
    by (intro div_le_mono mult_le_mono2)
  then show ?thesis by (auto simp: within_num_def)
qed

lemma float_round_top:
  assumes "2 ^ 30 \<le> r" "r < 2 ^ 31"
  shows "float_round r < 2 ^ 31 \<longleftrightarrow> r < 2 ^ 31 - 64"
proof -
  have "floorlog 2 r = 31"
    using assms floorlog_leI [of r 2 31] floorlog_geI [of 2 31 r] by simp
  then have f: "float_round r = (if 2 * (r mod 128) > 128 \<or> (2 * (r mod 128) = 128 \<and> odd (r div 128)) then r div 128 + 1 else r div 128) * 128"
    using assms by (simp add: float_round_def Let_def)
  define q m where "q = r div 128" and "m = r mod 128"
  have r: "r = 128 * q + m" "m < 128" by (simp_all add: q_def m_def)
  have f': "float_round r = (if 2 * m > 128 \<or> (2 * m = 128 \<and> odd q) then q + 1 else q) * 128"
    by (simp add: f q_def m_def)
  have "q \<le> 16777215" using assms r by simp
  show ?thesis
  proof (cases "q = 16777215")
    case True
    with r(2) show ?thesis unfolding f' unfolding r(1) by simp
  next
    case False
    with \<open>q \<le> 16777215\<close> r(2) show ?thesis unfolding f' unfolding r(1) by auto
  qed
qed


lemma within_num_lt: "r < 2 ^ 31 \<Longrightarrow> within_num 65536 r < 65536 \<longleftrightarrow> r < 2 ^ 31 - 64"
proof -
  assume r: "r < 2 ^ 31"
  have "within_num 65536 r < 65536 \<longleftrightarrow> float_round r < 2 ^ 31"
    by (auto simp: within_num_def less_mult_imp_div_less)
  also have "\<dots> \<longleftrightarrow> r < 2 ^ 31 - 64"
  proof (cases "2 ^ 30 \<le> r")
    case False
    then have "float_round r \<le> 2 ^ 30"
      using float_round_le [of r 30] by (auto simp: floorlog_le_iff float_round_def)
    with False show ?thesis by simp
  qed (use r float_round_top in simp)
  finally show ?thesis .
qed

lemma length_set_id:
  assumes "within_num 65536 r1 < 65536" "within_num 65536 r2 < 65536"
  shows "length (set_id r1 r2) = 9"
proof -
  have "length (setw4 (upper_hex n)) = 4" if "n < 65536" for n
    using show_base_length [of 16 n 4] that by (simp add: setw4_def upper_hex_def to_hex_nat_def)
  with assms show ?thesis by (simp add: set_id_def)
qed

section \<open>Properties\<close>

text \<open>
  C39. Maintenance keeps exactly the downloads of live sessions. Whatever happened to the cache
  since it was created, if every name in the download directory has at least 35 characters and
  every file can be removed, one call of the maintenance function leaves the files whose first 36
  characters are the id of a session that has not expired, removes all the others, and leaves
  the cache without its expired sessions. (The text of a UUID has 36 characters and no NUL.)
\<close>

theorem maintenance_keeps_live_downloads:
  assumes "\<forall>u. length (uts u) = 36 \<and> nul_free (uts u)" and "elements C0 = []"
    and "\<forall>f \<in> set files. 35 \<le> length f \<and> removable f"
  shows "maintenance_function uts random now removable files (fold (cache_step uts stu) ops C0) =
    (let C = fold (cache_step uts stu) ops C0
     in Ok (filter (\<lambda>f. \<exists>e \<in> set (elements C). now \<le> expiration_time e \<and> take 36 f = element_id e) files,
            C\<lparr>elements := filter (\<lambda>e. now \<le> expiration_time e) (elements C)\<rparr>))"
proof -
  let ?C = "fold (cache_step uts stu) ops C0"
  have "ids_sat (\<lambda>i. length i = 36 \<and> nul_free i) ?C"
    using assms(1,2) by (intro ids_sat_run) (simp_all add: ids_sat_def)
  moreover have "\<forall>f \<in> set files. 36 \<le> length f + 1 \<and> removable f" using assms(3) by auto
  ultimately have "maintenance_function uts random now removable files ?C =
      Ok (filter (\<lambda>f. \<exists>e \<in> set (elements ?C). now \<le> expiration_time e \<and> take 36 f = element_id e) files, snd (clean now ?C))"
    using assms(1) by (intro maintenance_result) simp_all
  then show ?thesis by (simp only: Let_def clean_def snd_conv)
qed

definition sample_uts :: "128 word \<Rightarrow> string" where
  "sample_uts u = replicate 36 (if u = 0 then CHR ''0'' else CHR ''1'')"

theorem maintenance_keeps_live_downloads_witness:
  "let C = fold (cache_step sample_uts (\<lambda>_. None)) [Add 100 No_Fault (new_session 7 ''h'' no_credentials)]
             \<lparr>elements = [], idle_timeout = 60\<rparr>;
       mine = replicate 36 (CHR ''1'') @ ''-1-a.exe''; other = replicate 36 (CHR ''2'') @ ''-1-a.exe''
   in maintenance_function sample_uts 0 130 (\<lambda>_. True) [other, mine] C = Ok ([mine], C)"
proof -
  let ?ops = "[Add 100 No_Fault (new_session 7 ''h'' no_credentials)]"
  let ?C = "fold (cache_step sample_uts (\<lambda>_. None)) ?ops \<lparr>elements = [], idle_timeout = 60\<rparr>"
  have C: "?C = \<lparr>elements = [new_element 100 60 \<lparr>s_id = replicate 36 (CHR ''1''), s_remote = ''h'', s_creds = no_credentials\<rparr>],
      idle_timeout = 60\<rparr>"
    by (simp add: add_def add_shared_def insert_element_def convert_to_shared_def new_session_def idstr_def sample_uts_def erase_by_def)
  show ?thesis
    using maintenance_keeps_live_downloads [of sample_uts "\<lparr>elements = [], idle_timeout = 60\<rparr>"
        "[replicate 36 (CHR ''2'') @ ''-1-a.exe'', replicate 36 (CHR ''1'') @ ''-1-a.exe'']" "\<lambda>_. True" 0 130 "\<lambda>_. None" ?ops]
    unfolding C by (simp add: sample_uts_def nul_free_def new_element_def element_id_def)
qed

text \<open>
  A short file name in the download directory breaks maintenance: as soon as one name has
  fewer than 35 characters, the maintenance function does not return normally, because it copies
  36 characters of every name whatever its length (or because it threw at an earlier file).
\<close>

theorem short_name_breaks_maintenance:
  assumes "length (uts random) = 36" and "f \<in> set files" and "length f < 35"
  shows "\<not> is_ok (maintenance_function uts random now removable files C)"
proof -
  have "\<not> is_ok (sweep_files 36 ids removable files)" for ids
    using assms(2,3) by (intro sweep_files_UB) auto
  then show ?thesis
    using assms(1) by (auto simp: maintenance_function_def Let_def is_ok_iff bind_o_Ok_iff)
qed

theorem short_name_breaks_maintenance_witness:
  "\<not> is_ok (maintenance_function sample_uts 0 130 (\<lambda>_. True) [''readme''] \<lparr>elements = [], idle_timeout = 60\<rparr>)"
  by (rule short_name_breaks_maintenance [of _ _ "''readme''"]) (simp_all add: sample_uts_def)

text \<open>
  The identity of a worker has the form of two groups of four hexadecimal digits, nine
  characters, for all random numbers except the largest 64 below \<open>2\<^sup>3\<^sup>1\<close>: for these
  \<open>within(0x10000)\<close>, which is documented to return at most \<open>0xFFFF\<close>, returns \<open>0x10000\<close>.
\<close>

theorem identity_has_nine_characters:
  assumes "r1 < 2 ^ 31" and "r2 < 2 ^ 31"
  shows "(r1 < 2 ^ 31 - 64 \<and> r2 < 2 ^ 31 - 64 \<longrightarrow> length (set_id r1 r2) = 9)
    \<and> within_num 65536 r1 = (if r1 < 2 ^ 31 - 64 then float_round r1 div 2 ^ 15 else 65536)"
proof -
  have "within_num 65536 r1 = float_round r1 div 2 ^ 15"
    using div_mult_mult1 [of "65536::nat" "float_round r1" "2 ^ 15"] by (simp add: within_num_def)
  then show ?thesis
    using assms within_num_lt [of r1] within_num_lt [of r2] within_num_bound [of r1] length_set_id [of r1 r2] by auto
qed

theorem identity_has_nine_characters_witness:
  "length (set_id 0 1804289383) = 9 \<and> within_num 65536 2147483647 = 65536"
  using identity_has_nine_characters [of 0 1804289383] identity_has_nine_characters [of 2147483647 0] by simp

text \<open>
  The pause before a reconnection has the length asked for only when that is a whole number
  of seconds: the remaining milliseconds are passed as nanoseconds.
\<close>

theorem sleep_exact_for_seconds:
  "slept_ns (sleep_timespec msecs) = msecs * 10 ^ 6 \<longleftrightarrow> msecs mod 1000 = 0"
proof -
  define q r where "q = msecs div 1000" and "r = msecs mod 1000"
  have "msecs = q * 1000 + r" "r < 1000" by (simp_all add: q_def r_def)
  then show ?thesis by (auto simp: slept_ns_def sleep_timespec_def simp flip: q_def r_def)
qed

end
