(* ===== verification/Supervisor.thy ===== *)
theory Supervisor
  imports Cdcm_Prelude "HOL-Library.Word"
begin

text \<open>
  \<open>src/src/supervisor/\<close>: the supervisor keeps one broker process and a pool of named worker
  processes alive. \<open>boost::process::child\<close> and its exit callback belong to Boost: a start
  either gives a new process or throws (the argument \<open>started\<close>), and the callback of a process
  runs once, when that process ends. Processes are numbered in the order they were started;
  \<open>live\<close> holds the workers that run, each with the name its callback captured.
\<close>

record supervisor =
  workers_pool :: "(string \<times> nat) list"
  live :: "(string \<times> nat) list"
  broker :: "nat option"
  broker_live :: "nat list"
  next_pid :: nat
  interrupted :: bool

definition new_supervisor :: supervisor where
  "new_supervisor = \<lparr>workers_pool = [], live = [], broker = None, broker_live = [], next_pid = 0, interrupted = False\<rparr>"

definition start_worker :: "string \<Rightarrow> bool \<Rightarrow> supervisor \<Rightarrow> nat option \<times> supervisor" where
  "start_worker worker_name started S =
     (if started then (Some (next_pid S), S\<lparr>live := (worker_name, next_pid S) # live S, next_pid := next_pid S + 1\<rparr>)
      else (None, S))"

definition monitor :: "string \<Rightarrow> bool \<Rightarrow> supervisor \<Rightarrow> supervisor" where
  "monitor worker_name started S =
     (case lookup_by fst worker_name (workers_pool S) of
        Some worker_pair \<Rightarrow>
          (case start_worker worker_name started S of
             (Some worker, S') \<Rightarrow> S'\<lparr>workers_pool := modify_by fst worker_name (\<lambda>_. (worker_name, worker)) (workers_pool S')\<rparr>
           | (None, S') \<Rightarrow> S')
      | None \<Rightarrow>
          (case start_worker worker_name started S of
             (Some worker, S') \<Rightarrow> S'\<lparr>workers_pool := insert_by fst (worker_name, worker) (workers_pool S')\<rparr>
           | (None, S') \<Rightarrow> S'))"

text \<open>\<open>workers_monitor::run\<close>: workers \<open>1 \<dots> num_workers\<close>; the flags say which starts work.\<close>

definition workers_run :: "nat \<Rightarrow> (nat \<Rightarrow> bool) \<Rightarrow> supervisor \<Rightarrow> supervisor" where
  "workers_run num_workers started S = fold (\<lambda>i. monitor (to_string_nat i) (started i)) [1..<num_workers + 1] S"

definition start_broker :: "bool \<Rightarrow> supervisor \<Rightarrow> supervisor" where
  "start_broker started S =
     (if started then S\<lparr>broker := Some (next_pid S), broker_live := next_pid S # broker_live S, next_pid := next_pid S + 1\<rparr>
      else S\<lparr>broker := None\<rparr>)"

definition supervisor_run :: "nat \<Rightarrow> bool \<Rightarrow> (nat \<Rightarrow> bool) \<Rightarrow> supervisor" where
  "supervisor_run num_workers broker_started started =
     workers_run num_workers started (start_broker broker_started new_supervisor)"

text \<open>\<open>workers_monitor::~workers_monitor\<close>: the processes the pool holds are terminated.\<close>

definition monitor_destructor :: "supervisor \<Rightarrow> supervisor" where
  "monitor_destructor S = S\<lparr>live := fold removeAll (workers_pool S) (live S), workers_pool := []\<rparr>"

text \<open>The callbacks: a worker ends, the broker ends, a signal arrives.\<close>

definition on_worker_exit :: "string \<Rightarrow> nat \<Rightarrow> bool \<Rightarrow> supervisor \<Rightarrow> supervisor" where
  "on_worker_exit worker_name pid started S =
     (let S' = S\<lparr>live := removeAll (worker_name, pid) (live S)\<rparr>
      in if interrupted S then S' else monitor worker_name started S')"

definition on_broker_exit :: "nat \<Rightarrow> bool \<Rightarrow> supervisor \<Rightarrow> supervisor" where
  "on_broker_exit pid started S =
     (let S' = S\<lparr>broker_live := removeAll pid (broker_live S)\<rparr>
      in if interrupted S then S' else start_broker started S')"

text \<open>The io loop: any live process may end at any time; a start may fail. The flag of a step
  tells whether the start it makes, if any, works.\<close>

inductive sv_step :: "supervisor \<Rightarrow> bool \<Rightarrow> supervisor \<Rightarrow> bool" where
  worker_exit: "(n, p) \<in> set (live S) \<Longrightarrow> sv_step S started (on_worker_exit n p started S)"
| broker_exit: "p \<in> set (broker_live S) \<Longrightarrow> sv_step S started (on_broker_exit p started S)"
| signal: "sv_step S started (S\<lparr>interrupted := True\<rparr>)"

inductive sv_run :: "supervisor \<Rightarrow> bool list \<Rightarrow> supervisor \<Rightarrow> bool" where
  sv_refl: "sv_run S [] S"
| sv_trans: "sv_step S b S1 \<Longrightarrow> sv_run S1 bs S2 \<Longrightarrow> sv_run S (b # bs) S2"

section \<open>Invariant\<close>

text \<open>At most one live process of each name, and no number used twice.\<close>

definition sv_ok :: "supervisor \<Rightarrow> bool" where
  "sv_ok S \<longleftrightarrow> unique_by fst (live S) \<and> (\<forall>x \<in> set (live S). snd x < next_pid S \<and> lookup_by fst (fst x) (workers_pool S) = Some x)"

definition names :: "supervisor \<Rightarrow> string set" where
  "names S = fst ` set (live S)"

lemma monitor_eq:
  "monitor n False S = S"
  "live (monitor n True S) = (n, next_pid S) # live S"
  "next_pid (monitor n True S) = next_pid S + 1"
  "interrupted (monitor n b S) = interrupted S"
  "broker_live (monitor n b S) = broker_live S"
  "lookup_by fst k (workers_pool (monitor n True S)) =
     (if k = n then Some (n, next_pid S) else lookup_by fst k (workers_pool S))"
proof -
  have "lookup_by fst k (modify_by fst n (\<lambda>_. (n, p)) xs) =
      (if k = n then map_option (\<lambda>_. (n, p)) (lookup_by fst k xs) else lookup_by fst k xs)" for xs :: "(string \<times> nat) list" and p
    by (induction xs) (auto simp: lookup_by_def modify_by_def)
  then show "lookup_by fst k (workers_pool (monitor n True S)) =
     (if k = n then Some (n, next_pid S) else lookup_by fst k (workers_pool S))"
    by (auto simp: monitor_def start_worker_def lookup_insert_by split: option.split)
qed (simp_all add: monitor_def start_worker_def split: option.split)

lemma names_monitor [simp]: "names (monitor n b S) = (if b then insert n (names S) else names S)"
  by (cases b) (simp_all add: names_def monitor_eq)

lemma sv_ok_monitor:
  assumes "sv_ok S" "n \<notin> names S"
  shows "sv_ok (monitor n b S)"
proof (cases b)
  case True
  with assms show ?thesis
    by (force simp: sv_ok_def names_def monitor_eq unique_by_def)
qed (use assms(1) in \<open>simp add: monitor_eq\<close>)

lemma sv_ok_remove:
  assumes "sv_ok S" "(n, p) \<in> set (live S)"
  shows "sv_ok (S\<lparr>live := removeAll (n, p) (live S)\<rparr>)" and "names (S\<lparr>live := removeAll (n, p) (live S)\<rparr>) = names S - {n}"
proof -
  have "unique_by fst (removeAll (n, p) (live S))"
    using assms(1) by (simp add: sv_ok_def unique_by_def distinct_map_filter removeAll_filter_not_eq)
  with assms(1) show "sv_ok (S\<lparr>live := removeAll (n, p) (live S)\<rparr>)" by (auto simp: sv_ok_def)
  have u: "unique_by fst (live S)" using assms(1) by (simp add: sv_ok_def)
  have one: "q = p" if "(n, q) \<in> set (live S)" for q
    using unique_by_inj [of fst "live S" "(n, q)" "(n, p)"] u that assms(2) by simp
  have "fst ` (set (live S) - {(n, p)}) = fst ` set (live S) - {n}"
  proof (intro equalityI subsetI)
    fix k assume "k \<in> fst ` (set (live S) - {(n, p)})"
    then obtain x where x: "x \<in> set (live S)" "x \<noteq> (n, p)" "k = fst x" by blast
    then have "fst x \<noteq> n" using one [of "snd x"] by (cases x) auto
    with x show "k \<in> fst ` set (live S) - {n}" by blast
  next
    fix k assume "k \<in> fst ` set (live S) - {n}"
    then obtain q where "(k, q) \<in> set (live S)" "k \<noteq> n" by auto
    then show "k \<in> fst ` (set (live S) - {(n, p)})" by force
  qed
  then show "names (S\<lparr>live := removeAll (n, p) (live S)\<rparr>) = names S - {n}"
    by (simp add: names_def)
qed

lemma sv_ok_step:
  assumes "sv_step S b S'" "sv_ok S"
  shows "sv_ok S' \<and> (b \<longrightarrow> \<not> interrupted S' \<longrightarrow> names S' = names S) \<and> names S' \<subseteq> names S \<and> (interrupted S \<longrightarrow> interrupted S')"
  using assms(1)
proof (cases rule: sv_step.cases)
  case (worker_exit n p)
  let ?R = "S\<lparr>live := removeAll (n, p) (live S)\<rparr>"
  have R: "sv_ok ?R" "names ?R = names S - {n}" using sv_ok_remove [OF assms(2) worker_exit(2)] by auto
  then have "sv_ok (monitor n b ?R)" by (intro sv_ok_monitor) auto
  moreover have "n \<in> names S" using worker_exit(2) by (force simp: names_def)
  ultimately show ?thesis
    using worker_exit(1) R by (auto simp: on_worker_exit_def Let_def monitor_eq)
next
  case (broker_exit p)
  with assms(2) show ?thesis
    by (auto simp: on_broker_exit_def start_broker_def names_def Let_def sv_ok_def less_Suc_eq)
next
  case signal
  with assms(2) show ?thesis by (auto simp: sv_ok_def names_def)
qed

lemma sv_run_ok:
  assumes "sv_run S bs S'" "sv_ok S"
  shows "sv_ok S' \<and> names S' \<subseteq> names S \<and> (list_all id bs \<longrightarrow> \<not> interrupted S' \<longrightarrow> names S' = names S)
    \<and> (interrupted S \<longrightarrow> interrupted S')"
  using assms
proof (induction rule: sv_run.induct)
  case (sv_trans S b S1 bs S2)
  with sv_ok_step [OF sv_trans(1,4)] show ?case by auto
qed simp

lemma workers_run_ok:
  "sv_ok S \<Longrightarrow> names S = {} \<Longrightarrow> sv_ok (workers_run n started S)
    \<and> names (workers_run n started S) = to_string_nat ` {i. 1 \<le> i \<and> i \<le> n \<and> started i}
    \<and> interrupted (workers_run n started S) = interrupted S"
proof (induction n)
  case (Suc n)
  let ?W = "workers_run n started S"
  have W: "sv_ok ?W" "names ?W = to_string_nat ` {i. 1 \<le> i \<and> i \<le> n \<and> started i}" "interrupted ?W = interrupted S"
    using Suc by auto
  have step: "workers_run (Suc n) started S = monitor (to_string_nat (Suc n)) (started (Suc n)) ?W"
    by (simp add: workers_run_def)
  have "to_string_nat (Suc n) \<notin> names ?W" by (auto simp: W(2) to_string_nat_inj)
  moreover have "{i. 1 \<le> i \<and> i \<le> Suc n \<and> started i} =
      (if started (Suc n) then insert (Suc n) {i. 1 \<le> i \<and> i \<le> n \<and> started i} else {i. 1 \<le> i \<and> i \<le> n \<and> started i})"
    by (auto simp: le_Suc_eq)
  ultimately show ?case using W sv_ok_monitor [OF W(1)] by (simp add: step monitor_eq)
qed (simp add: workers_run_def)

lemma new_supervisor_ok: "sv_ok (start_broker b new_supervisor)" "names (start_broker b new_supervisor) = {}"
  "\<not> interrupted (start_broker b new_supervisor)"
  by (simp_all add: sv_ok_def names_def unique_by_def start_broker_def new_supervisor_def)

lemma set_fold_removeAll: "set (fold removeAll xs ys) = set ys - set xs"
  by (induction xs arbitrary: ys) auto

lemma destructor_leaves_none:
  assumes "sv_ok S"
  shows "live (monitor_destructor S) = []"
proof -
  have "set (live S) \<subseteq> set (workers_pool S)"
    using assms lookup_by_Some_key [of fst _ "workers_pool S"] by (fastforce simp: sv_ok_def)
  then have "set (live (monitor_destructor S)) = {}" by (simp add: monitor_destructor_def set_fold_removeAll)
  then show ?thesis by simp
qed

section \<open>Properties\<close>

text \<open>
  C36. The pool stays complete: when every start works, then after the supervisor has started its
  workers and through any sequence of worker exits, broker exits and signals, as long as no
  signal was seen there is exactly one live worker process for each of the names \<open>1\<close> to
  \<open>num_workers\<close>, and it is the process the pool holds under that name.
\<close>

theorem worker_pool_complete:
  assumes "sv_run (supervisor_run num_workers b (\<lambda>_. True)) bs S" and "list_all id bs" and "\<not> interrupted S"
  shows "fst ` set (live S) = to_string_nat ` {1..num_workers} \<and> distinct (map fst (live S))
    \<and> (\<forall>x \<in> set (live S). lookup_by fst (fst x) (workers_pool S) = Some x)"
proof -
  let ?S0 = "supervisor_run num_workers b (\<lambda>_. True)"
  have S0: "sv_ok ?S0" "names ?S0 = to_string_nat ` {1..num_workers}"
    using workers_run_ok [OF new_supervisor_ok(1,2), of num_workers "\<lambda>_. True" b]
    by (auto simp: supervisor_run_def intro!: image_cong)
  from sv_run_ok [OF assms(1) S0(1)] assms(2,3) S0(2) show ?thesis
    by (auto simp: sv_ok_def names_def unique_by_def)
qed

theorem worker_pool_complete_witness:
  "fst ` set (live (on_worker_exit (to_string_nat 1) 1 True (supervisor_run 1 True (\<lambda>_. True)))) = to_string_nat ` {1..1}"
proof -
  let ?S = "supervisor_run 1 True (\<lambda>_. True)"
  have start: "(to_string_nat 1, 1) \<in> set (live ?S)" "\<not> interrupted ?S"
    by (simp_all add: supervisor_run_def workers_run_def start_broker_def new_supervisor_def monitor_def start_worker_def
        lookup_by_def to_string_nat_def show_base.simps digit_char_def)
  have "sv_run ?S [True] (on_worker_exit (to_string_nat 1) 1 True ?S)"
    by (rule sv_trans [OF worker_exit [OF start(1)] sv_refl])
  moreover have "\<not> interrupted (on_worker_exit (to_string_nat 1) 1 True ?S)" using start by (simp add: on_worker_exit_def monitor_eq Let_def)
  ultimately show ?thesis using worker_pool_complete [of 1 True "[True]"] by simp
qed

text \<open>
  A restart that fails is never tried again: when a worker ends and starting it again throws,
  no later event of the supervisor, however its starts turn out, brings a process of that name
  back.
\<close>

theorem failed_restart_is_final:
  assumes "sv_ok S" and "(n, p) \<in> set (live S)" and "sv_run (on_worker_exit n p False S) bs S'"
  shows "\<forall>q. (n, q) \<notin> set (live S')"
proof -
  have "sv_ok (on_worker_exit n p False S)" "n \<notin> names (on_worker_exit n p False S)"
    using sv_ok_remove [OF assms(1,2)] by (auto simp: on_worker_exit_def Let_def monitor_eq)
  with sv_run_ok [OF assms(3)] have "n \<notin> names S'" by blast
  then show ?thesis by (force simp: names_def)
qed

theorem failed_restart_is_final_witness:
  "\<forall>q. (to_string_nat 1, q) \<notin> set (live (on_worker_exit (to_string_nat 1) 1 False (supervisor_run 2 True (\<lambda>_. True))))"
proof -
  let ?S = "supervisor_run 2 True (\<lambda>_. True)"
  have "sv_ok ?S" using workers_run_ok [OF new_supervisor_ok(1,2)] by (simp add: supervisor_run_def)
  moreover have "(to_string_nat 1, 1) \<in> set (live ?S)"
    by (simp add: supervisor_run_def workers_run_def start_broker_def new_supervisor_def monitor_def start_worker_def
        lookup_by_def insert_by_def to_string_nat_def show_base.simps digit_char_def numeral_2_eq_2)
  ultimately show ?thesis by (rule failed_restart_is_final) (rule sv_refl)
qed

text \<open>
  No worker process is left behind: whatever starts worked, and whatever workers and brokers
  ended and signals came, the destructor of the workers' monitor terminates every live worker.
\<close>

theorem no_worker_left_behind:
  assumes "sv_run (supervisor_run num_workers b started) bs S"
  shows "live (monitor_destructor S) = [] \<and> workers_pool (monitor_destructor S) = []"
proof -
  have "sv_ok (supervisor_run num_workers b started)"
    using workers_run_ok [OF new_supervisor_ok(1,2), of num_workers started b] by (simp add: supervisor_run_def)
  from sv_run_ok [OF assms this] have "sv_ok S" by simp
  from destructor_leaves_none [OF this] show ?thesis by (simp add: monitor_destructor_def)
qed

theorem no_worker_left_behind_witness:
  "live (supervisor_run 1 True (\<lambda>_. True)) = [(to_string_nat 1, 1)]
    \<and> live (monitor_destructor (supervisor_run 1 True (\<lambda>_. True))) = []"
  using no_worker_left_behind [OF sv_refl, of 1 True "\<lambda>_. True"]
  by (simp add: supervisor_run_def workers_run_def start_broker_def new_supervisor_def monitor_def start_worker_def
      lookup_by_def to_string_nat_def show_base.simps digit_char_def)

end
