(* ===== verification/Registry_Client.thy ===== *)
theory Registry_Client
  imports Service_Configuration Session_Cache
begin

text \<open>
  \<open>src/src/backend/services/samba_based/utils/registry_utils.*\<close>, \<open>registry/registry_value.hpp\<close> and
  \<open>registry/registry_client.*\<close>: registry paths, values and the client that reads a remote
  registry. The registry functions of the samba library are the fields of \<open>winreg\<close>, each with
  the error code it returns and what it stores through its out parameters; a registry key is a
  number. Bytes are characters.
\<close>

section \<open>Paths (registry_utils)\<close>

abbreviation (input) backslash :: char where "backslash \<equiv> CHR 0x5C"

definition HKEY_CLASSES_ROOT :: "32 word" where "HKEY_CLASSES_ROOT = 0x80000000"
definition HKEY_CURRENT_USER :: "32 word" where "HKEY_CURRENT_USER = 0x80000001"
definition HKEY_LOCAL_MACHINE :: "32 word" where "HKEY_LOCAL_MACHINE = 0x80000002"
definition HKEY_USERS :: "32 word" where "HKEY_USERS = 0x80000003"
definition HKEY_PERFORMANCE_DATA :: "32 word" where "HKEY_PERFORMANCE_DATA = 0x80000004"

definition hives :: "(string \<times> 32 word) list" where
  "hives =
     [(''HKLM'', HKEY_LOCAL_MACHINE), (''HKEY_LOCAL_MACHINE'', HKEY_LOCAL_MACHINE),
      (''HKCR'', HKEY_CLASSES_ROOT), (''HKEY_CLASSES_ROOT'', HKEY_CLASSES_ROOT),
      (''HKU'', HKEY_USERS), (''HKEY_USERS'', HKEY_USERS),
      (''HKCU'', HKEY_CURRENT_USER), (''HKEY_CURRENT_USER'', HKEY_CURRENT_USER),
      (''HKPD'', HKEY_PERFORMANCE_DATA), (''HKEY_PERFORMANCE_DATA'', HKEY_PERFORMANCE_DATA)]"

definition hive_long_names :: "(32 word \<times> string) list" where
  "hive_long_names =
     [(HKEY_LOCAL_MACHINE, ''HKEY_LOCAL_MACHINE''), (HKEY_CLASSES_ROOT, ''HKEY_CLASSES_ROOT''),
      (HKEY_USERS, ''HKEY_USERS''), (HKEY_CURRENT_USER, ''HKEY_CURRENT_USER''),
      (HKEY_PERFORMANCE_DATA, ''HKEY_PERFORMANCE_DATA'')]"

text \<open>\<open>boost::split\<close> at one character, without token compression.\<close>

fun split_at_char :: "char \<Rightarrow> string \<Rightarrow> string list" where
  "split_at_char c [] = [[]]"
| "split_at_char c (x # xs) =
     (if x = c then [] # split_at_char c xs
      else case split_at_char c xs of w # ws \<Rightarrow> (x # w) # ws | [] \<Rightarrow> [[x]])"

definition split_hive_key :: "string \<Rightarrow> string \<Rightarrow> string \<Rightarrow> (string \<times> string) outcome" where
  "split_hive_key path hivename subkeyname =
     (case filter (\<lambda>s. s \<noteq> []) (split_at_char backslash path) of
        [] \<Rightarrow> UB
      | s # strs \<Rightarrow>
          (let new_path = foldl (\<lambda>a b. a @ [backslash] @ b) s strs
           in if backslash \<in> set new_path
              then Ok (takeWhile (\<lambda>c. c \<noteq> backslash) new_path, tl (dropWhile (\<lambda>c. c \<noteq> backslash) new_path))
              else Ok (hivename, new_path)))"

text \<open>The hive and the key name, when the function returns true.\<close>

definition reg_hive_key :: "string \<Rightarrow> (32 word \<times> string) option outcome" where
  "reg_hive_key fullname =
     (if fullname = [] then Ok None
      else bind_o (split_hive_key fullname [] []) (\<lambda>(hivename, tmp_keyname).
        case map_of hives hivename of None \<Rightarrow> Ok None | Some reg_type \<Rightarrow> Ok (Some (reg_type, tmp_keyname))))"

section \<open>Values (registry_value.hpp)\<close>

record registry_value =
  rv_type :: "32 word"
  rv_type_as_string :: string
  rv_value :: string
  rv_name :: string

definition registry_value_default :: registry_value where
  "registry_value_default = \<lparr>rv_type = 0, rv_type_as_string = [], rv_value = [], rv_name = []\<rparr>"

definition reg_type_string :: "(32 word \<times> string) list" where
  "reg_type_string =
     [(0, ''REG_NONE''), (1, ''REG_SZ''), (2, ''REG_EXPAND_SZ''), (3, ''REG_BINARY''), (4, ''REG_DWORD''),
      (5, ''REG_DWORD_BIG_ENDIAN''), (6, ''REG_LINK''), (7, ''REG_MULTI_SZ''), (8, ''REG_RESOURCE_LIST''),
      (9, ''REG_FULL_RESOURCE_DESCRIPTOR''), (10, ''REG_RESOURCE_REQUIREMENTS_LIST''), (11, ''REG_QWORD'')]"

text \<open>\<open>operator[]\<close> of the map gives the empty string for a type that is not there.\<close>

definition set_rv_type :: "32 word \<Rightarrow> registry_value \<Rightarrow> registry_value" where
  "set_rv_type t rv =
     rv\<lparr>rv_type := t, rv_type_as_string := (case map_of reg_type_string t of Some s \<Rightarrow> s | None \<Rightarrow> [])\<rparr>"

record sub_key =
  sk_name :: string
  sk_class_name :: string
  sk_last_modified :: string

record enum_key =
  sub_keys :: "sub_key list"
  registry_values :: "registry_value list"

section \<open>The library\<close>

record winreg =
  reg_open_remote :: "string \<Rightarrow> credentials \<Rightarrow> 32 word"
  reg_get_predefined_key :: "32 word \<Rightarrow> 32 word \<times> nat"
  reg_open_key :: "nat \<Rightarrow> string \<Rightarrow> 32 word \<times> nat"
  reg_key_get_info :: "nat \<Rightarrow> 32 word \<times> 32 word \<times> 32 word"
  reg_key_get_subkey_by_index :: "nat \<Rightarrow> nat \<Rightarrow> (string \<times> string option \<times> int) option"
  reg_key_get_value_by_index :: "nat \<Rightarrow> nat \<Rightarrow> (string \<times> 32 word \<times> string) option"
  reg_key_get_value_by_name :: "nat \<Rightarrow> string \<Rightarrow> 32 word \<times> 32 word \<times> string"
  reg_val_data_string :: "32 word \<Rightarrow> string \<Rightarrow> string option"
  ctime_of_nt_time :: "int \<Rightarrow> string"
  win_errstr :: "32 word \<Rightarrow> string"
  nt_errstr_of :: "32 word \<Rightarrow> string"
  invalid_parameter :: "32 word"
  beyond :: "nat \<Rightarrow> char"

text \<open>What the process reads at an index of the data blob: \<open>beyond\<close> is the memory behind it.\<close>

definition blob_at :: "winreg \<Rightarrow> string \<Rightarrow> nat \<Rightarrow> char" where
  "blob_at R data i = (if i < length data then data ! i else beyond R (i - length data))"

section \<open>The client\<close>

text \<open>The loops of \<open>normalize\<close>; \<open>n\<close> is the length of the blob.\<close>

function sz_loop :: "(nat \<Rightarrow> char) \<Rightarrow> nat \<Rightarrow> nat \<Rightarrow> string \<Rightarrow> string" where
  "sz_loop d n i s =
     (if i < n then
        (if d i = CHR 0x00 then (if d (i + 2) = CHR 0x00 then s else sz_loop d n (i + 2) s)
         else sz_loop d n (i + 2) (s @ [d i]))
      else s)"
  by pat_completeness auto
termination by (relation "measure (\<lambda>(d, n, i, s). n - i)") auto

function multi_sz_loop :: "(nat \<Rightarrow> char) \<Rightarrow> nat \<Rightarrow> nat \<Rightarrow> string \<Rightarrow> string" where
  "multi_sz_loop d n i s =
     (if i < n then
        (if d i = CHR 0x00 then
           (let s' = s @ [CHR 0x0A] in if d (i + 2) = CHR 0x00 then s' else multi_sz_loop d n (i + 2) s')
         else multi_sz_loop d n (i + 2) (s @ [d i]))
      else s)"
  by pat_completeness auto
termination by (relation "measure (\<lambda>(d, n, i, s). n - i)") auto

declare sz_loop.simps [simp del] multi_sz_loop.simps [simp del]

definition normalize :: "winreg \<Rightarrow> string \<Rightarrow> registry_value \<Rightarrow> registry_value" where
  "normalize R data rv =
     (if rv_type rv = 1 \<or> rv_type rv = 2 then rv\<lparr>rv_value := sz_loop (blob_at R data) (length data) 0 []\<rparr>
      else if rv_type rv = 7 then rv\<lparr>rv_value := multi_sz_loop (blob_at R data) (length data) 0 []\<rparr>
      else rv\<lparr>rv_value := (case reg_val_data_string R (rv_type rv) data of None \<Rightarrow> [] | Some s \<Rightarrow> s)\<rparr>)"

type_synonym result = "bool \<times> 32 word"

definition reg_connect :: "winreg \<Rightarrow> session \<Rightarrow> result" where
  "reg_connect R sess =
     (let c = creds sess;
          error = reg_open_remote R (c_str (remote sess))
                    \<lparr>domain = c_str (domain c), username = c_str (username c), password = c_str (password c),
                     workstation = c_str (workstation c)\<rparr>
      in (error = 0, error))"

text \<open>\<open>open_key\<close>: the result and the key that is current afterwards.\<close>

definition open_key :: "winreg \<Rightarrow> string \<Rightarrow> nat option \<Rightarrow> (result \<times> nat option) outcome" where
  "open_key R full_path current =
     bind_o (reg_hive_key (c_str full_path)) (\<lambda>found.
       case found of
         None \<Rightarrow> Ok ((False, invalid_parameter R), current)
       | Some (hive, keyname) \<Rightarrow>
           (let (error, root) = reg_get_predefined_key R hive
            in if error \<noteq> 0 then Ok ((False, error), current)
               else bind_o (at_o (map_of hive_long_names hive)) (\<lambda>predef.
                 let (error, key) = reg_open_key R root (c_str keyname)
                 in if error \<noteq> 0 then Ok ((False, error), Some root) else Ok ((True, error), Some key))))"

definition key_get_value_by_index :: "winreg \<Rightarrow> nat \<Rightarrow> nat \<Rightarrow> registry_value \<Rightarrow> (string \<times> registry_value) option" where
  "key_get_value_by_index R key idx rv =
     (case reg_key_get_value_by_index R key idx of
        None \<Rightarrow> None
      | Some (name, t, data) \<Rightarrow> Some (name, normalize R data (set_rv_type t rv)))"

definition key_get_value_by_name :: "winreg \<Rightarrow> nat \<Rightarrow> string \<Rightarrow> registry_value \<Rightarrow> result \<times> registry_value" where
  "key_get_value_by_name R key name rv =
     (let (error, t, data) = reg_key_get_value_by_name R key name
      in if error \<noteq> 0 then ((False, error), rv) else ((True, error), normalize R data (set_rv_type t rv)))"

definition key_get_info :: "winreg \<Rightarrow> nat \<Rightarrow> result \<times> nat \<times> nat" where
  "key_get_info R key =
     (let (error, num_subkeys, num_values) = reg_key_get_info R key
      in if error \<noteq> 0 then ((False, error), 0, 0) else ((True, error), unat num_subkeys, unat num_values))"

text \<open>
  The two loops of \<open>enumerate_key\<close>. A failed read leaves the pointers as they were, which is the
  state \<open>last\<close> (\<open>None\<close> is uninitialised or null); the value loop declares its pointer anew.
\<close>

fun enum_subkeys ::
  "winreg \<Rightarrow> nat \<Rightarrow> nat list \<Rightarrow> (string \<times> string option \<times> int) option \<Rightarrow> sub_key list \<Rightarrow> sub_key list outcome" where
  "enum_subkeys R key [] lst acc = Ok acc"
| "enum_subkeys R key (i # js) lst acc =
     (case (case reg_key_get_subkey_by_index R key i of Some x \<Rightarrow> Some x | None \<Rightarrow> lst) of
        None \<Rightarrow> UB
      | Some (nm, cnm, lm) \<Rightarrow>
          enum_subkeys R key js (Some (nm, cnm, lm))
            (acc @ [\<lparr>sk_name = nm, sk_class_name = (case cnm of Some c \<Rightarrow> c | None \<Rightarrow> ''None''),
                     sk_last_modified = ctime_of_nt_time R lm\<rparr>]))"

fun enum_values :: "winreg \<Rightarrow> nat \<Rightarrow> nat list \<Rightarrow> registry_value list \<Rightarrow> registry_value list outcome" where
  "enum_values R key [] acc = Ok acc"
| "enum_values R key (i # js) acc =
     (case key_get_value_by_index R key i registry_value_default of
        None \<Rightarrow> UB
      | Some (name, rv) \<Rightarrow> enum_values R key js (acc @ [rv\<lparr>rv_name := name\<rparr>]))"

definition enumerate_key :: "winreg \<Rightarrow> string \<Rightarrow> (result \<times> enum_key) outcome" where
  "enumerate_key R key =
     bind_o (open_key R key None) (\<lambda>(status, current).
       if \<not> fst status then Ok (status, \<lparr>sub_keys = [], registry_values = []\<rparr>)
       else let (status, num_subkeys, num_values) = key_get_info R (the current)
            in if \<not> fst status then Ok (status, \<lparr>sub_keys = [], registry_values = []\<rparr>)
               else bind_o (enum_subkeys R (the current) [0..<num_subkeys] None []) (\<lambda>sks.
                    bind_o (enum_values R (the current) [0..<num_values] []) (\<lambda>rvs.
                      Ok (status, \<lparr>sub_keys = sks, registry_values = rvs\<rparr>))))"

definition enumerate_key_values :: "winreg \<Rightarrow> string \<Rightarrow> (result \<times> registry_value list) outcome" where
  "enumerate_key_values R key =
     bind_o (open_key R key None) (\<lambda>(status, current).
       if \<not> fst status then Ok (status, [])
       else let (status, num_subkeys, num_values) = key_get_info R (the current)
            in if \<not> fst status then Ok (status, [])
               else bind_o (enum_values R (the current) [0..<num_values] []) (\<lambda>rvs. Ok (status, rvs)))"

section \<open>Paths: lemmas\<close>

definition path_components :: "string \<Rightarrow> string list" where
  "path_components path = filter (\<lambda>s. s \<noteq> []) (split_at_char backslash path)"

fun join_keys :: "string list \<Rightarrow> string" where
  "join_keys [] = []"
| "join_keys [k] = k"
| "join_keys (k # ks) = k @ [backslash] @ join_keys ks"

lemma split_at_char_nonempty [simp]: "split_at_char c xs \<noteq> []"
  by (induction xs) (auto split: list.split)

lemma split_at_char_free: "w \<in> set (split_at_char c xs) \<Longrightarrow> c \<notin> set w"
  by (induction xs arbitrary: w) (auto split: list.splits if_splits)

lemma components_free: "w \<in> set (path_components path) \<Longrightarrow> w \<noteq> [] \<and> backslash \<notin> set w"
  by (auto simp: path_components_def dest: split_at_char_free)

lemma split_at_char_append:
  "c \<notin> set k \<Longrightarrow> split_at_char c (k @ c # xs) = k # split_at_char c xs"
  "c \<notin> set k \<Longrightarrow> split_at_char c k = [k]"
  by (induction k) auto

lemma components_join:
  "\<forall>k \<in> set ks. k \<noteq> [] \<and> backslash \<notin> set k \<Longrightarrow> path_components (join_keys ks) = ks"
  by (induction ks rule: join_keys.induct) (auto simp: path_components_def split_at_char_append)

lemma foldl_join: "foldl (\<lambda>a b. a @ [backslash] @ b) s strs = join_keys (s # strs)"
proof (induction strs arbitrary: s)
  case (Cons k ks)
  have "foldl (\<lambda>a b. a @ [backslash] @ b) (s @ [backslash] @ k) ks = join_keys ((s @ [backslash] @ k) # ks)"
    by (rule Cons)
  also have "\<dots> = join_keys (s # k # ks)" by (cases ks) simp_all
  finally show ?case by simp
qed simp

lemma takeWhile_free: "backslash \<notin> set h \<Longrightarrow> takeWhile (\<lambda>c. c \<noteq> backslash) (h @ backslash # t) = h"
  "backslash \<notin> set h \<Longrightarrow> dropWhile (\<lambda>c. c \<noteq> backslash) (h @ backslash # t) = backslash # t"
  by (induction h) auto

lemma split_hive_key_eq:
  "split_hive_key path hn sk =
     (case path_components path of [] \<Rightarrow> UB | [k] \<Rightarrow> Ok (hn, k) | h # k # ks \<Rightarrow> Ok (h, join_keys (k # ks)))"
proof (cases "path_components path")
  case (Cons h rest)
  then have h: "backslash \<notin> set h" using components_free [of h path] by simp
  show ?thesis
  proof (cases rest)
    case (Cons k ks)
    with h \<open>path_components path = h # rest\<close> show ?thesis
      by (simp add: split_hive_key_def path_components_def [symmetric] foldl_join [unfolded append_Cons append_Nil]
          takeWhile_free Let_def)
  qed (use h Cons in \<open>simp add: split_hive_key_def path_components_def [symmetric]\<close>)
qed (simp add: split_hive_key_def path_components_def [symmetric])

lemma reg_hive_key_eq:
  "reg_hive_key path =
     (if path = [] then Ok None
      else case path_components path of [] \<Rightarrow> UB | [k] \<Rightarrow> Ok None
           | h # k # ks \<Rightarrow> Ok (map_option (\<lambda>hive. (hive, join_keys (k # ks))) (map_of hives h)))"
  by (auto simp: reg_hive_key_def split_hive_key_eq hives_def split: list.split option.split)

lemma hives_long: "map_of hives h = Some hive \<Longrightarrow> \<exists>n. map_of hive_long_names hive = Some n"
  by (auto simp: hives_def hive_long_names_def HKEY_CLASSES_ROOT_def HKEY_CURRENT_USER_def HKEY_LOCAL_MACHINE_def
      HKEY_USERS_def HKEY_PERFORMANCE_DATA_def split: if_splits)

lemma components_Nil: "path_components path = [] \<longleftrightarrow> set path \<subseteq> {backslash}"
  by (induction path) (auto simp: path_components_def filter_empty_conv split: list.splits)

section \<open>Values: lemmas\<close>

text \<open>What the two loops compute, on the list of the bytes at even positions.\<close>

fun evens :: "'a list \<Rightarrow> 'a list" where
  "evens [] = []"
| "evens (x # xs) = x # evens (drop 1 xs)"

fun sz_units :: "string \<Rightarrow> string" where
  "sz_units [] = []"
| "sz_units (c # cs) =
     (if c = CHR 0x00 then (case cs of [] \<Rightarrow> [] | c' # _ \<Rightarrow> if c' = CHR 0x00 then [] else sz_units cs)
      else c # sz_units cs)"

fun multi_sz_units :: "string \<Rightarrow> string" where
  "multi_sz_units [] = []"
| "multi_sz_units (c # cs) =
     (if c = CHR 0x00
      then CHR 0x0A # (case cs of [] \<Rightarrow> [] | c' # _ \<Rightarrow> if c' = CHR 0x00 then [] else multi_sz_units cs)
      else c # multi_sz_units cs)"

lemma evens_drop: "i < length data \<Longrightarrow> evens (drop i data) = data ! i # evens (drop (i + 2) data)"
  by (simp add: Cons_nth_drop_Suc [symmetric] del: drop_Suc)

lemma sz_loop_eq: "sz_loop (blob_at R data) (length data) i s = s @ sz_units (evens (drop i data))"
proof (induction "blob_at R data" "length data" i s rule: sz_loop.induct)
  case (1 i s)
  show ?case
  proof (cases "i < length data")
    case True
    then have d: "blob_at R data i = data ! i" "evens (drop i data) = data ! i # evens (drop (i + 2) data)"
      by (simp_all add: blob_at_def evens_drop)
    show ?thesis
    proof (cases "i + 2 < length data")
      case True
      then have "blob_at R data (i + 2) = data ! (i + 2)" "evens (drop (i + 2) data) = data ! (i + 2) # evens (drop (i + 2 + 2) data)"
        using evens_drop [of "i + 2" data] by (simp_all only: blob_at_def if_True)
      with 1 \<open>i < length data\<close> d show ?thesis by (subst sz_loop.simps) simp
    next
      case False
      with 1 \<open>i < length data\<close> d show ?thesis by (subst sz_loop.simps) simp
    qed
  qed (subst sz_loop.simps, simp)
qed

lemma multi_sz_loop_eq: "multi_sz_loop (blob_at R data) (length data) i s = s @ multi_sz_units (evens (drop i data))"
proof (induction "blob_at R data" "length data" i s rule: multi_sz_loop.induct)
  case (1 i s)
  show ?case
  proof (cases "i < length data")
    case True
    then have d: "blob_at R data i = data ! i" "evens (drop i data) = data ! i # evens (drop (i + 2) data)"
      by (simp_all add: blob_at_def evens_drop)
    show ?thesis
    proof (cases "i + 2 < length data")
      case True
      then have "blob_at R data (i + 2) = data ! (i + 2)" "evens (drop (i + 2) data) = data ! (i + 2) # evens (drop (i + 2 + 2) data)"
        using evens_drop [of "i + 2" data] by (simp_all only: blob_at_def if_True)
      with 1 \<open>i < length data\<close> d show ?thesis by (subst multi_sz_loop.simps) (simp add: Let_def)
    next
      case False
      with 1 \<open>i < length data\<close> d show ?thesis by (subst multi_sz_loop.simps) (simp add: Let_def)
    qed
  qed (subst multi_sz_loop.simps, simp)
qed

lemma normalize_eq:
  "normalize R data rv =
     (if rv_type rv = 1 \<or> rv_type rv = 2 then rv\<lparr>rv_value := sz_units (evens data)\<rparr>
      else if rv_type rv = 7 then rv\<lparr>rv_value := multi_sz_units (evens data)\<rparr>
      else rv\<lparr>rv_value := (case reg_val_data_string R (rv_type rv) data of None \<Rightarrow> [] | Some s \<Rightarrow> s)\<rparr>)"
  using sz_loop_eq [of R data 0 "[]"] multi_sz_loop_eq [of R data 0 "[]"] by (simp add: normalize_def)

text \<open>UTF-16LE of characters given by low and high byte, and of a Latin-1 string.\<close>

definition utf16le :: "(char \<times> char) list \<Rightarrow> string" where
  "utf16le us = concat (map (\<lambda>(lo, hi). [lo, hi]) us)"

definition latin1 :: "string \<Rightarrow> (char \<times> char) list" where
  "latin1 s = map (\<lambda>c. (c, CHR 0x00)) s"

lemma evens_utf16le: "evens (utf16le us) = map fst us"
  by (induction us) (auto simp: utf16le_def)

lemma sz_units_string: "nul_free s \<Longrightarrow> sz_units (s @ [CHR 0x00]) = s"
  by (induction s) (auto simp: nul_free_def)

lemma multi_sz_units_string:
  "nul_free s \<Longrightarrow> rest \<noteq> [] \<Longrightarrow> hd rest \<noteq> CHR 0x00 \<Longrightarrow>
     multi_sz_units (s @ CHR 0x00 # rest) = s @ CHR 0x0A # multi_sz_units rest"
  "nul_free s \<Longrightarrow> multi_sz_units (s @ [CHR 0x00, CHR 0x00]) = s @ [CHR 0x0A]"
  by (induction s) (auto simp: nul_free_def split: list.split)

lemma multi_sz_units_strings:
  "ss \<noteq> [] \<Longrightarrow> \<forall>s \<in> set ss. nul_free s \<and> s \<noteq> [] \<Longrightarrow>
     multi_sz_units (concat (map (\<lambda>s. s @ [CHR 0x00]) ss) @ [CHR 0x00]) = concat (map (\<lambda>s. s @ [CHR 0x0A]) ss)"
proof (induction ss)
  case (Cons s ss)
  show ?case
  proof (cases ss)
    case Nil
    with Cons.prems show ?thesis by (simp add: multi_sz_units_string)
  next
    case (Cons t ts)
    then have "hd t \<noteq> CHR 0x00" "t \<noteq> []"
      using Cons.prems by (auto simp: nul_free_def neq_Nil_conv)
    with Cons Cons.prems Cons.IH show ?thesis
      using multi_sz_units_string(1) [of s "concat (map (\<lambda>s. s @ [CHR 0x00]) ss) @ [CHR 0x00]"] by simp
  qed
qed simp

section \<open>Enumeration: lemmas\<close>

lemma enum_values_eq:
  "\<forall>i \<in> set js. reg_key_get_value_by_index R key i \<noteq> None \<Longrightarrow>
   enum_values R key js acc = Ok (acc @ map (\<lambda>i. case the (key_get_value_by_index R key i registry_value_default) of
       (name, rv) \<Rightarrow> rv\<lparr>rv_name := name\<rparr>) js)"
  by (induction js arbitrary: acc) (auto simp: key_get_value_by_index_def)

definition sub_key_of :: "winreg \<Rightarrow> string \<times> string option \<times> int \<Rightarrow> sub_key" where
  "sub_key_of R x = (case x of (nm, cnm, lm) \<Rightarrow>
     \<lparr>sk_name = nm, sk_class_name = (case cnm of Some c \<Rightarrow> c | None \<Rightarrow> ''None''), sk_last_modified = ctime_of_nt_time R lm\<rparr>)"

text \<open>The last subkey read at or before an index.\<close>

primrec last_subkey :: "winreg \<Rightarrow> nat \<Rightarrow> nat \<Rightarrow> (string \<times> string option \<times> int) option" where
  "last_subkey R key 0 = reg_key_get_subkey_by_index R key 0"
| "last_subkey R key (Suc i) =
     (case reg_key_get_subkey_by_index R key (Suc i) of Some x \<Rightarrow> Some x | None \<Rightarrow> last_subkey R key i)"

lemma last_subkey_Some: "reg_key_get_subkey_by_index R key 0 \<noteq> None \<Longrightarrow> last_subkey R key i \<noteq> None"
  by (induction i) (auto split: option.split)

lemma enum_subkeys_append:
  "enum_subkeys R key (js @ [i]) lst acc =
     bind_o (enum_subkeys R key js lst acc) (\<lambda>acc'.
       enum_subkeys R key [i] (fold (\<lambda>j l. case reg_key_get_subkey_by_index R key j of Some x \<Rightarrow> Some x | None \<Rightarrow> l) js lst) acc')"
  by (induction js arbitrary: lst acc) (auto split: option.splits)

lemma fold_last_subkey:
  "fold (\<lambda>j l. case reg_key_get_subkey_by_index R key j of Some x \<Rightarrow> Some x | None \<Rightarrow> l) [0..<Suc n] None = last_subkey R key n"
  by (induction n) (simp_all split: option.split)

lemma enum_subkeys_one:
  "enum_subkeys R key [i] lst acc =
     (case (case reg_key_get_subkey_by_index R key i of Some x \<Rightarrow> Some x | None \<Rightarrow> lst) of
        None \<Rightarrow> UB | Some x \<Rightarrow> Ok (acc @ [sub_key_of R x]))"
  by (auto simp: sub_key_of_def split: option.split)

lemma enum_subkeys_eq:
  assumes "reg_key_get_subkey_by_index R key 0 \<noteq> None"
  shows "enum_subkeys R key [0..<n] None [] = Ok (map (\<lambda>i. sub_key_of R (the (last_subkey R key i))) [0..<n])"
proof (induction n)
  case (Suc n)
  let ?last = "fold (\<lambda>j l. case reg_key_get_subkey_by_index R key j of Some x \<Rightarrow> Some x | None \<Rightarrow> l) [0..<n] None"
  have "(case reg_key_get_subkey_by_index R key n of Some x \<Rightarrow> Some x | None \<Rightarrow> ?last) = last_subkey R key n"
    using fold_last_subkey [of R key "n - 1"] by (cases n) (auto split: option.split)
  then have "enum_subkeys R key [0..<Suc n] None [] =
      (case last_subkey R key n of None \<Rightarrow> UB
       | Some x \<Rightarrow> Ok (map (\<lambda>i. sub_key_of R (the (last_subkey R key i))) [0..<n] @ [sub_key_of R x]))"
    unfolding upt_Suc_append [OF le0] enum_subkeys_append Suc by (simp only: bind_o.simps enum_subkeys_one)
  with last_subkey_Some [OF assms, of n] show ?case by auto
qed simp

lemma open_key_ok:
  assumes "open_key R p None = Ok ((True, e), c)"
  shows "c \<noteq> None"
proof -
  from assms obtain hive keyname where "reg_hive_key (c_str p) = Ok (Some (hive, keyname))"
    by (auto simp: open_key_def bind_o_Ok_iff split: option.splits)
  moreover obtain e1 root where "reg_get_predefined_key R hive = (e1, root)" by fastforce
  moreover obtain e2 key where "reg_open_key R root (c_str keyname) = (e2, key)" by fastforce
  ultimately show ?thesis using assms by (auto simp: open_key_def bind_o_Ok_iff split: if_splits)
qed

lemma enumerate_key_eq:
  assumes "open_key R p None = Ok ((True, e), Some key)" "reg_key_get_info R key = (0, nk, nv)"
    and "nk = 0 \<or> reg_key_get_subkey_by_index R key 0 \<noteq> None"
    and "\<forall>i < unat nv. reg_key_get_value_by_index R key i \<noteq> None"
  shows "enumerate_key R p = Ok ((True, 0),
    \<lparr>sub_keys = map (\<lambda>i. sub_key_of R (the (last_subkey R key i))) [0..<unat nk],
     registry_values = map (\<lambda>i. case the (key_get_value_by_index R key i registry_value_default) of
        (name, rv) \<Rightarrow> rv\<lparr>rv_name := name\<rparr>) [0..<unat nv]\<rparr>)"
proof -
  have "enum_subkeys R key [0..<unat nk] None [] = Ok (map (\<lambda>i. sub_key_of R (the (last_subkey R key i))) [0..<unat nk])"
    using assms(3) enum_subkeys_eq by (cases "nk = 0") auto
  with assms show ?thesis by (simp add: enumerate_key_def key_get_info_def enum_values_eq)
qed

text \<open>A library with one key that has one subkey and one value, for examples.\<close>

definition sample_winreg :: winreg where
  "sample_winreg = \<lparr>reg_open_remote = (\<lambda>_ _. 0), reg_get_predefined_key = (\<lambda>_. (0, 1)), reg_open_key = (\<lambda>_ _. (0, 2)),
     reg_key_get_info = (\<lambda>_. (0, 1, 1)),
     reg_key_get_subkey_by_index = (\<lambda>_ i. if i = 0 then Some (''Run'', None, 0) else None),
     reg_key_get_value_by_index = (\<lambda>_ i. if i = 0 then Some (''v'', 1, ''a'' @ [CHR 0x00, CHR 0x00, CHR 0x00]) else None),
     reg_key_get_value_by_name = (\<lambda>_ n. if n = ''v'' then (0, 1, ''a'' @ [CHR 0x00, CHR 0x00, CHR 0x00]) else (2, 0, [])),
     reg_val_data_string = (\<lambda>_ _. None), ctime_of_nt_time = (\<lambda>_. ''then''), win_errstr = (\<lambda>_. ''WERR''),
     nt_errstr_of = (\<lambda>_. ''NT''), invalid_parameter = 87, beyond = (\<lambda>_. CHR ''?'')\<rparr>"

section \<open>Properties\<close>

text \<open>
  Parsing of registry paths, for every path: when the function finds a hive, its name is the
  first component of the path and the key name consists of the remaining components, at least
  one, joined by single backslashes (leading, trailing and repeated backslashes do not matter); it
  finds none when the path is empty, has one component only or starts with an unknown hive; and
  on a path made of backslashes alone it reads the first element of an empty vector.
\<close>

theorem registry_path_parsed:
  "case reg_hive_key path of
     Ok (Some (hive, k)) \<Rightarrow> (\<exists>h. path_components path = h # path_components k \<and> map_of hives h = Some hive)
        \<and> path_components k \<noteq> [] \<and> k = join_keys (path_components k)
   | Ok None \<Rightarrow> path = [] \<or> (\<exists>h. path_components path = [h]) \<or> map_of hives (hd (path_components path)) = None
   | UB \<Rightarrow> path \<noteq> [] \<and> set path \<subseteq> {CHR 0x5C}
   | Throw \<Rightarrow> False
   | Abort \<Rightarrow> False"
proof -
  have "path_components (join_keys (k # ks)) = k # ks" if "path_components path = h # k # ks" for h k ks
    using that components_free [of _ path] by (intro components_join) simp
  then show ?thesis
    by (auto simp: reg_hive_key_eq components_Nil [symmetric] split: list.split option.split)
qed

text \<open>
  A terminated Latin-1 string stored as UTF-16 in a value of type \<open>REG_SZ\<close> or \<open>REG_EXPAND_SZ\<close>
  is returned as that string, with the name of its type.
\<close>

theorem string_value_decoded:
  assumes "nul_free s" and "t = 1 \<or> t = 2"
  shows "rv_value (normalize R (utf16le (latin1 (s @ [CHR 0x00]))) (set_rv_type t rv)) = s
    \<and> rv_type_as_string (normalize R (utf16le (latin1 (s @ [CHR 0x00]))) (set_rv_type t rv)) = (if t = 1 then ''REG_SZ'' else ''REG_EXPAND_SZ'')"
proof -
  have "evens (utf16le (latin1 (s @ [CHR 0x00]))) = s @ [CHR 0x00]"
    by (simp add: evens_utf16le latin1_def comp_def)
  with assms show ?thesis
    by (auto simp: normalize_eq set_rv_type_def sz_units_string reg_type_string_def)
qed

theorem string_value_decoded_witness:
  "rv_value (normalize sample_winreg (utf16le (latin1 ''abc'' @ [(CHR 0x00, CHR 0x00)])) (set_rv_type 1 registry_value_default)) = ''abc''"
  using string_value_decoded [of "''abc''" 1 sample_winreg registry_value_default] by (simp add: nul_free_def latin1_def)

text \<open>
  A \<open>REG_MULTI_SZ\<close> value is returned as its strings, each followed by a line feed, when none of
  them is empty.
\<close>

theorem multi_string_value_decoded:
  assumes "ss \<noteq> []" and "\<forall>s \<in> set ss. nul_free s \<and> s \<noteq> []"
  shows "rv_value (normalize R (utf16le (latin1 (concat (map (\<lambda>s. s @ [CHR 0x00]) ss) @ [CHR 0x00]))) (set_rv_type 7 rv))
    = concat (map (\<lambda>s. s @ [CHR 0x0A]) ss)"
proof -
  have "evens (utf16le (latin1 u)) = u" for u by (simp add: evens_utf16le latin1_def comp_def)
  with assms show ?thesis by (simp add: normalize_eq set_rv_type_def multi_sz_units_strings)
qed

theorem multi_string_value_decoded_witness:
  "rv_value (normalize sample_winreg (utf16le (latin1 (''a'' @ [CHR 0x00] @ ''b'' @ [CHR 0x00, CHR 0x00]))) (set_rv_type 7 registry_value_default))
    = ''a'' @ [CHR 0x0A] @ ''b'' @ [CHR 0x0A]"
  using multi_string_value_decoded [of "[''a'', ''b'']" sample_winreg registry_value_default] by (simp add: nul_free_def)

text \<open>
  The value of a string type depends on the low bytes of its characters alone: neither the
  high bytes nor the memory behind the data, which the loops read, have any influence, so
  characters beyond Latin-1 come out as other characters.
\<close>

theorem only_low_bytes_matter:
  assumes "map fst us = map fst us'" and "t = 1 \<or> t = 2 \<or> t = 7"
  shows "normalize R (utf16le us) (set_rv_type t rv) = normalize (R\<lparr>beyond := b\<rparr>) (utf16le us') (set_rv_type t rv)"
  using assms by (auto simp: normalize_eq evens_utf16le set_rv_type_def)

theorem only_low_bytes_matter_witness:
  "rv_value (normalize sample_winreg (utf16le [(CHR ''A'', CHR 0x01), (CHR 0x00, CHR 0x00)]) (set_rv_type 1 registry_value_default)) = ''A''"
proof -
  have "utf16le (latin1 ''A'' @ [(CHR 0x00, CHR 0x00)]) = utf16le [(CHR ''A'', CHR 0x00), (CHR 0x00, CHR 0x00)]"
    by (simp add: latin1_def)
  with only_low_bytes_matter [of "[(CHR ''A'', CHR 0x01), (CHR 0x00, CHR 0x00)]" "[(CHR ''A'', CHR 0x00), (CHR 0x00, CHR 0x00)]" 1
      sample_winreg registry_value_default "\<lambda>_. CHR 0x00"]
  show ?thesis by (simp add: normalize_eq evens_utf16le set_rv_type_def)
qed



end
