(* ===== verification/Action_Answers.thy ===== *)
theory Action_Answers
  imports Frontend_Actions
begin

text \<open>
  What the actions of the plugins (\<open>src/src/backend/services/samba_based/*/actions\<close>) share: the guard
  on the session, the responses they end with, and when the outcome of an action counts as an answer.
\<close>

section \<open>Common steps\<close>

text \<open>The guard all actions begin with.\<close>

definition checked_session ::
  "session option \<Rightarrow> result_msg \<Rightarrow> server \<Rightarrow> (session \<Rightarrow> act_result) \<Rightarrow> act_result" where
  "checked_session sess res s k =
     (case sess of
        None \<Rightarrow> fail_with SESSION_NOT_FOUND res s
      | Some ss \<Rightarrow> if is_nil ss then fail_with SESSION_NOT_FOUND res s else k ss)"

definition asset_error :: "32 word \<Rightarrow> string \<Rightarrow> action_status \<Rightarrow> result_msg \<Rightarrow> server \<Rightarrow> act_result" where
  "asset_error error txt_v st res s =
     bind_o (set_response_for_error_with_unique_code_or_msg GENERAL_ERROR_WITH_ASSET error txt_v res) (\<lambda>res'. Ok (st, res', s))"

definition succeed_with :: "json \<Rightarrow> result_msg \<Rightarrow> server \<Rightarrow> act_result" where
  "succeed_with v res s = bind_o (set_response_for_success v res) (\<lambda>res'. Ok (SUCCEEDED, res', s))"

section \<open>Answers\<close>

lemma asset_error_Ok [resp_simps]:
  "asset_error e t st res s = Ok (st, res\<lparr>msg_status := (error_status GENERAL_ERROR_WITH_ASSET)\<lparr>code := (if e \<noteq> 0 then e else code (error_status GENERAL_ERROR_WITH_ASSET))\<rparr>,
     msg_result := JStr (''Error: '' @ (if t \<noteq> [] then t else error_text GENERAL_ERROR_WITH_ASSET))\<rparr>, s)"
  by (simp add: asset_error_def resp_simps)

lemma succeed_with_Ok [resp_simps]:
  "succeed_with v res s = Ok (SUCCEEDED, res\<lparr>msg_status := error_status CE_OK, msg_result := v\<rparr>, s)"
  by (simp add: succeed_with_def resp_simps)

text \<open>
  When an outcome is an answer: it is not abnormal, keeps the id of the response, and postpones
  only if the library said that the pipe is busy.
\<close>

definition answers :: "bool \<Rightarrow> result_msg \<Rightarrow> act_result \<Rightarrow> bool" where
  "answers busy res r \<longleftrightarrow> (\<exists>st res' s'. r = Ok (st, res', s') \<and> msg_id res' = msg_id res \<and> (st = POSTPONED \<longrightarrow> busy))"

lemma answers_simps [simp]:
  "e \<noteq> PARSE_FILE_FAILED \<Longrightarrow> answers b res (fail_with e res s)"
  "answers b res (succeed_with v res s)"
  "answers b res (asset_error err t st res s) \<longleftrightarrow> (st = POSTPONED \<longrightarrow> b)"
  "answers b res (Ok (st, res', s)) \<longleftrightarrow> msg_id res' = msg_id res \<and> (st = POSTPONED \<longrightarrow> b)"
  by (auto simp: answers_def resp_simps)

lemma answers_session:
  "(\<And>ss. sess = Some ss \<Longrightarrow> \<not> is_nil ss \<Longrightarrow> answers b res (k ss)) \<Longrightarrow> answers b res (checked_session sess res s k)"
  by (auto simp: checked_session_def split: option.split)

lemma answers_bind: "is_ok x \<Longrightarrow> (\<And>a. x = Ok a \<Longrightarrow> answers b res (f a)) \<Longrightarrow> answers b res (bind_o x f)"
  by (cases x) simp_all

lemma set_res_id [simp]: "msg_id (set_res v r) = msg_id r" "msg_status (set_res v r) = msg_status r" "msg_result (set_res v r) = v"
  by (simp_all add: set_res_def)

text \<open>A session for examples.\<close>

definition sample_session :: session where
  "sample_session = \<lparr>uuid = 1, remote = ''host'', creds = no_credentials\<rparr>"

lemma sample_session_valid [simp]: "\<not> is_nil sample_session"
  by (simp add: sample_session_def is_nil_def)

end
