(* ===== verification/Registry_Actions.thy ===== *)
theory Registry_Actions
  imports Registry_Client Action_Answers
begin

text \<open>
  \<open>src/src/backend/services/samba_based/registry/actions/\<close>: the actions on the registry of the
  session's host that use \<open>registry_client\<close>. The environment gives the configuration files and
  what the samba library answers during one action; it is indexed by the server's counter
  \<open>drawn\<close>, so that the remote host may change from one action to the next.
\<close>

record reg_env =
  conf_files :: "string \<Rightarrow> json outcome"
  winreg_at :: "nat \<Rightarrow> winreg"

definition werr_pipe_busy :: "32 word" where "werr_pipe_busy = 0xE7"
definition werr_file_not_found :: "32 word" where "werr_file_not_found = 2"

text \<open>
  The constructor of \<open>registry_client\<close>: it reads \<open>conf_->data_blob_size\<close> although
  \<open>init_conf\<close> may have left a null pointer.
\<close>

definition new_registry_client ::
  "reg_env \<Rightarrow> server \<Rightarrow> (winreg \<Rightarrow> server \<Rightarrow> act_result) \<Rightarrow> act_result" where
  "new_registry_client E s k =
     bind_o (init_registry_conf (conf_files E) (service_conf s)) (\<lambda>(logged, conf, repo).
       if conf = None then UB
       else k (winreg_at E (drawn s)) (s\<lparr>service_conf := repo, drawn := drawn s + 1\<rparr>))"

text \<open>The connection; a busy pipe postpones the action.\<close>

definition reg_connected ::
  "winreg \<Rightarrow> session \<Rightarrow> result_msg \<Rightarrow> server \<Rightarrow> act_result \<Rightarrow> act_result" where
  "reg_connected R sess res s k =
     (let (ok, error) = reg_connect R sess
      in if ok then k
         else asset_error error (win_errstr R error) (if error = werr_pipe_busy then POSTPONED else FAILED) res s)"

section \<open>JSON of the results\<close>

definition registry_value_to_json :: "registry_value \<Rightarrow> json" where
  "registry_value_to_json rv =
     JObj [(''name'', JStr (rv_name rv)), (''type'', JStr (rv_type_as_string rv)), (''value'', JStr (rv_value rv))]"

definition sub_key_to_json :: "sub_key \<Rightarrow> json" where
  "sub_key_to_json k =
     JObj [(''class_name'', JStr (sk_class_name k)), (''last_modified'', JStr (sk_last_modified k)), (''name'', JStr (sk_name k))]"

definition enum_key_to_json :: "enum_key \<Rightarrow> json" where
  "enum_key_to_json ek =
     JObj [(''registry_values'', JArr (map registry_value_to_json (registry_values ek))),
           (''sub_keys'', JArr (map sub_key_to_json (sub_keys ek)))]"

definition enum_key_values_to_json :: "registry_value list \<Rightarrow> json" where
  "enum_key_values_to_json rvs = JObj [(''registry_values'', JArr (map registry_value_to_json rvs))]"

section \<open>The actions\<close>

definition enumerate_key_act :: "reg_env \<Rightarrow> session option \<Rightarrow> action_msg \<Rightarrow> result_msg \<Rightarrow> server \<Rightarrow> act_result" where
  "enumerate_key_act E sess m res s0 =
     checked_session sess res s0 (\<lambda>ss. new_registry_client E s0 (\<lambda>R s.
       case m of
         Enum_key_msg i key \<Rightarrow>
           if key = [] then fail_with KEY_IS_MANDATORY res s
           else reg_connected R ss res s
             (bind_o (enumerate_key R key) (\<lambda>((ok, error), ek).
                if ok then succeed_with (enum_key_to_json ek) res s
                else asset_error error (nt_errstr_of R error) SUCCEEDED res s))
       | _ \<Rightarrow> fail_with INTERNAL_ERROR res s))"

definition enumerate_values_act :: "reg_env \<Rightarrow> session option \<Rightarrow> action_msg \<Rightarrow> result_msg \<Rightarrow> server \<Rightarrow> act_result" where
  "enumerate_values_act E sess m res s0 =
     checked_session sess res s0 (\<lambda>ss. new_registry_client E s0 (\<lambda>R s.
       case m of
         Enumerate_registry_values_msg i key \<Rightarrow>
           if key = [] then fail_with KEY_IS_MANDATORY res s
           else reg_connected R ss res s
             (bind_o (enumerate_key_values R key) (\<lambda>((ok, error), rvs).
                if ok then Ok (SUCCEEDED, set_res (enum_key_values_to_json rvs) res, s)
                else asset_error error (nt_errstr_of R error) SUCCEEDED res s))
       | _ \<Rightarrow> fail_with INTERNAL_ERROR res s))"

definition key_exists_act :: "reg_env \<Rightarrow> session option \<Rightarrow> action_msg \<Rightarrow> result_msg \<Rightarrow> server \<Rightarrow> act_result" where
  "key_exists_act E sess m res s0 =
     checked_session sess res s0 (\<lambda>ss. new_registry_client E s0 (\<lambda>R s.
       case m of
         Key_exists_msg i key \<Rightarrow>
           if key = [] then fail_with KEY_IS_MANDATORY res s
           else reg_connected R ss res s
             (bind_o (open_key R key None) (\<lambda>((ok, error), current).
                if ok then succeed_with (JStr ''True'') res s
                else if error = werr_file_not_found then succeed_with (JStr ''False'') res s
                else asset_error error (win_errstr R error) FAILED res s))
       | _ \<Rightarrow> fail_with INTERNAL_ERROR res s))"

definition query_value_act :: "reg_env \<Rightarrow> session option \<Rightarrow> action_msg \<Rightarrow> result_msg \<Rightarrow> server \<Rightarrow> act_result" where
  "query_value_act E sess m res s0 =
     checked_session sess res s0 (\<lambda>ss. new_registry_client E s0 (\<lambda>R s.
       case m of
         Query_value_msg i key val \<Rightarrow>
           if key = [] then fail_with KEY_IS_MANDATORY res s
           else reg_connected R ss res s
             (bind_o (open_key R key None) (\<lambda>((ok, error), current).
                if \<not> ok then asset_error error (win_errstr R error) FAILED res s
                else let ((got, error), rv) = key_get_value_by_name R (the current) (c_str val) registry_value_default
                  in if \<not> got then fail_with VALUE_IS_EMPTY res s
                     else if rv_value rv = [] then
                       bind_o (set_response_for_error VALUE_IS_EMPTY res) (\<lambda>res'. Ok (SUCCEEDED, res', s))
                     else succeed_with (JStr (rv_value rv)) res s))
       | _ \<Rightarrow> fail_with INTERNAL_ERROR res s))"

definition value_exists_act :: "reg_env \<Rightarrow> session option \<Rightarrow> action_msg \<Rightarrow> result_msg \<Rightarrow> server \<Rightarrow> act_result" where
  "value_exists_act E sess m res s0 =
     checked_session sess res s0 (\<lambda>ss. new_registry_client E s0 (\<lambda>R s.
       case m of
         Value_exists_msg i key val \<Rightarrow>
           if key = [] \<or> val = [] then fail_with KEY_AND_VALUE_ARE_MANDATORY res s
           else reg_connected R ss res s
             (bind_o (open_key R key None) (\<lambda>((ok, error), current).
                if \<not> ok then
                  (if error = werr_file_not_found then succeed_with (JStr ''False'') res s
                   else asset_error error (win_errstr R error) FAILED res s)
                else let ((got, error), rv) = key_get_value_by_name R (the current) (c_str val) registry_value_default
                  in if got then succeed_with (JStr ''True'') res s
                     else if error = werr_file_not_found then succeed_with (JStr ''False'') res s
                     else asset_error error (win_errstr R error) FAILED res s))
       | _ \<Rightarrow> fail_with INTERNAL_ERROR res s))"

text \<open>The \<open>Action_Base\<close> objects the plugins export.\<close>

definition Enumerate_Key :: "reg_env \<Rightarrow> action" where
  "Enumerate_Key E = \<lparr>act_name = ''enumerate'', get_message = enum_key_msg_as, act = enumerate_key_act E\<rparr>"

definition Enumerate_Registry_Values :: "reg_env \<Rightarrow> action" where
  "Enumerate_Registry_Values E =
     \<lparr>act_name = ''enumerate_registry_values'', get_message = enumerate_registry_values_msg_as, act = enumerate_values_act E\<rparr>"

definition Key_Exists :: "reg_env \<Rightarrow> action" where
  "Key_Exists E = \<lparr>act_name = ''key_exists'', get_message = key_exists_msg_as, act = key_exists_act E\<rparr>"

definition Query_Value :: "reg_env \<Rightarrow> action" where
  "Query_Value E = \<lparr>act_name = ''query_value'', get_message = query_value_msg_as, act = query_value_act E\<rparr>"

definition Value_Exists :: "reg_env \<Rightarrow> action" where
  "Value_Exists E = \<lparr>act_name = ''value_exists'', get_message = value_exists_msg_as, act = value_exists_act E\<rparr>"

section \<open>Lemmas\<close>

definition conf_readable :: "reg_env \<Rightarrow> server \<Rightarrow> bool" where
  "conf_readable E s \<longleftrightarrow> (\<exists>b c repo. init_registry_conf (conf_files E) (service_conf s) = Ok (b, Some c, repo))"

lemma new_registry_client_eq:
  assumes "conf_readable E s"
  obtains repo where "new_registry_client E s k = k (winreg_at E (drawn s)) (s\<lparr>service_conf := repo, drawn := drawn s + 1\<rparr>)"
  using assms by (auto simp: conf_readable_def new_registry_client_def)

lemma answers_client:
  assumes "conf_readable E s"
    and "\<And>repo. answers b res (k (winreg_at E (drawn s)) (s\<lparr>service_conf := repo, drawn := drawn s + 1\<rparr>))"
  shows "answers b res (new_registry_client E s k)"
  using new_registry_client_eq [OF assms(1)] assms(2) by metis

lemma answers_connected:
  "(fst (reg_connect R ss) \<Longrightarrow> answers b res k) \<Longrightarrow> (snd (reg_connect R ss) = werr_pipe_busy \<Longrightarrow> b) \<Longrightarrow>
   answers b res (reg_connected R ss res s k)"
  by (auto simp: reg_connected_def split: prod.split)

text \<open>Keys and libraries the actions can live with.\<close>

definition key_ok :: "string \<Rightarrow> bool" where
  "key_ok key \<longleftrightarrow> c_str key = [] \<or> \<not> set (c_str key) \<subseteq> {CHR 0x5C}"

definition winreg_reliable :: "winreg \<Rightarrow> bool" where
  "winreg_reliable R \<longleftrightarrow> (\<forall>key nk nv. reg_key_get_info R key = (0, nk, nv) \<longrightarrow>
     (nk = 0 \<or> reg_key_get_subkey_by_index R key 0 \<noteq> None) \<and> (\<forall>i < unat nv. reg_key_get_value_by_index R key i \<noteq> None))"

lemma reg_hive_key_ok: "key_ok key \<Longrightarrow> is_ok (reg_hive_key (c_str key))"
  by (auto simp: reg_hive_key_eq key_ok_def components_Nil [symmetric] split: list.split)

lemma open_key_is_ok: "key_ok key \<Longrightarrow> is_ok (open_key R key c)"
  using reg_hive_key_ok [of key]
  by (auto simp: open_key_def is_ok_iff reg_hive_key_eq split: option.split prod.split if_splits list.splits dest!: hives_long)

lemma enumerate_key_is_ok:
  assumes "key_ok key" "winreg_reliable R"
  shows "is_ok (enumerate_key R key)"
proof -
  obtain st c where o: "open_key R key None = Ok (st, c)"
    using open_key_is_ok [OF assms(1), of R None] by (auto simp: is_ok_iff)
  show ?thesis
  proof (cases "fst st")
    case True
    then obtain e k where st: "st = (True, e)" "c = Some k" using o open_key_ok [of R key] by (cases st) auto
    obtain err nk nv where i: "reg_key_get_info R k = (err, nk, nv)" by (cases "reg_key_get_info R k") auto
    show ?thesis
    proof (cases "err = 0")
      case True
      with i assms(2) enumerate_key_eq [OF o [unfolded st]] show ?thesis by (auto simp: winreg_reliable_def)
    qed (use o st i in \<open>simp add: enumerate_key_def key_get_info_def\<close>)
  qed (use o in \<open>simp add: enumerate_key_def\<close>)
qed

lemma enumerate_key_values_is_ok:
  assumes "key_ok key" "winreg_reliable R"
  shows "is_ok (enumerate_key_values R key)"
proof -
  obtain st c where o: "open_key R key None = Ok (st, c)"
    using open_key_is_ok [OF assms(1), of R None] by (auto simp: is_ok_iff)
  show ?thesis
  proof (cases "fst st")
    case True
    then obtain e k where st: "st = (True, e)" "c = Some k" using o open_key_ok [of R key] by (cases st) auto
    obtain err nk nv where i: "reg_key_get_info R k = (err, nk, nv)" by (cases "reg_key_get_info R k") auto
    have "err = 0 \<Longrightarrow> \<forall>j \<in> set [0..<unat nv]. reg_key_get_value_by_index R k j \<noteq> None"
      using i assms(2) by (auto simp: winreg_reliable_def)
    with o st i enum_values_eq [of "[0..<unat nv]" R k "[]"] show ?thesis
      by (auto simp: enumerate_key_values_def key_get_info_def)
  qed (use o in \<open>simp add: enumerate_key_values_def\<close>)
qed

text \<open>The key a registry message names.\<close>

fun msg_key :: "action_msg \<Rightarrow> string" where
  "msg_key (Enum_key_msg _ k) = k"
| "msg_key (Enumerate_registry_values_msg _ k) = k"
| "msg_key (Get_registry_permissions_msg _ k) = k"
| "msg_key (Key_exists_msg _ k) = k"
| "msg_key (Query_value_msg _ k _) = k"
| "msg_key (Value_exists_msg _ k _) = k"
| "msg_key _ = []"

definition registry_actions :: "reg_env \<Rightarrow> action list" where
  "registry_actions E = [Enumerate_Key E, Enumerate_Registry_Values E, Key_Exists E, Query_Value E, Value_Exists E]"

lemmas registry_action_defs = Enumerate_Key_def Enumerate_Registry_Values_def Key_Exists_def Query_Value_def Value_Exists_def
  enumerate_key_act_def enumerate_values_act_def key_exists_act_def query_value_act_def value_exists_act_def

lemma registry_action_answers:
  assumes "a \<in> set (registry_actions E)" "conf_readable E s" "key_ok (msg_key m)" "winreg_reliable (winreg_at E (drawn s))"
  shows "answers (\<exists>ss. sess = Some ss \<and> snd (reg_connect (winreg_at E (drawn s)) ss) = werr_pipe_busy) res (act a sess m res s)"
proof -
  note intros = answers_session answers_client [OF assms(2)] answers_connected answers_bind
  note oks = open_key_is_ok enumerate_key_is_ok [OF _ assms(4)] enumerate_key_values_is_ok [OF _ assms(4)]
  from assms(1) consider "act a = enumerate_key_act E" | "act a = enumerate_values_act E" | "act a = key_exists_act E"
    | "act a = query_value_act E" | "act a = value_exists_act E"
    by (auto simp: registry_actions_def Enumerate_Key_def Enumerate_Registry_Values_def Key_Exists_def Query_Value_def Value_Exists_def)
  then show ?thesis
  proof cases
    case 1
    then show ?thesis
      using assms(3) by (cases m) (auto simp: enumerate_key_act_def oks intro!: intros split: prod.split)
  next
    case 2
    then show ?thesis
      using assms(3) by (cases m) (auto simp: enumerate_values_act_def oks intro!: intros split: prod.split)
  next
    case 3
    then show ?thesis
      using assms(3) by (cases m) (auto simp: key_exists_act_def oks intro!: intros split: prod.split)
  next
    case 4
    then show ?thesis
      using assms(3) by (cases m) (auto simp: query_value_act_def oks Let_def set_response_for_error_Ok intro!: intros split: prod.split)
  next
    case 5
    then show ?thesis
      using assms(3) by (cases m) (auto simp: value_exists_act_def oks Let_def intro!: intros split: prod.split)
  qed
qed

text \<open>A server and an environment for examples.\<close>

definition sample_reg_env :: reg_env where
  "sample_reg_env = \<lparr>conf_files = (\<lambda>_. Throw), winreg_at = (\<lambda>_. sample_winreg)\<rparr>"

definition sample_reg_server :: server where
  "sample_reg_server = \<lparr>sessions = \<lparr>elements = [], idle_timeout = 60\<rparr>, clock = 0, randoms = (\<lambda>n. 5), drawn = 0,
     faults = (\<lambda>n. No_Fault),
     service_conf = [''registry'' \<mapsto> Registry_Conf \<lparr>data_blob_size = 1, reconnect_attempt_on_pipe_busy = 1\<rparr>], get_sd_called = False\<rparr>"

lemma sample_reg: "conf_readable sample_reg_env sample_reg_server" "winreg_reliable (winreg_at sample_reg_env n)"
  "\<not> is_nil sample_session" "fst (reg_connect (winreg_at sample_reg_env n) ss)"
  by (auto simp: conf_readable_def sample_reg_env_def sample_reg_server_def init_registry_conf_def init_conf_def dhas_def
      dfind_def winreg_reliable_def sample_winreg_def is_nil_def sample_session_def reg_connect_def Let_def)

section \<open>Properties\<close>



text \<open>
  A client can crash a worker: a registry action with a key made of backslashes alone, in a
  valid session whose host can be reached, reads the first element of an empty vector.
\<close>

theorem backslash_key_crashes:
  assumes "a \<in> set (registry_actions E)" and "get_message a v = Ok m" and "key = msg_key m"
    and "key \<noteq> []" and "set key \<subseteq> {CHR 0x5C}" and "\<forall>i k. m \<noteq> Value_exists_msg i k []"
    and "conf_readable E s" and "\<not> is_nil ss" and "fst (reg_connect (winreg_at E (drawn s)) ss)"
  shows "act a (Some ss) m res s = UB"
proof -
  have nf: "nul_free key" using assms(5) by (auto simp: nul_free_def)
  have "reg_hive_key (c_str key) = UB"
    using assms(4,5) nf by (auto simp: reg_hive_key_eq components_Nil [symmetric])
  then have ub: "open_key R key c = UB" for R c by (simp add: open_key_def)
  have call: "checked_session (Some ss) res s k = k ss" for k using assms(8) by (simp add: checked_session_def)
  have conn: "reg_connected (winreg_at E (drawn s)) ss res s' UB = UB" for s'
    using assms(9) by (auto simp: reg_connected_def split: prod.split)
  obtain repo where repo: "new_registry_client E s k = k (winreg_at E (drawn s)) (s\<lparr>service_conf := repo, drawn := drawn s + 1\<rparr>)" for k
    using assms(7) by (auto simp: conf_readable_def new_registry_client_def)
  show ?thesis
    using assms(1-4,6) ub
    by (auto simp: registry_actions_def registry_action_defs action_as_defs bind_o_Ok_iff call repo conn
        enumerate_key_def enumerate_key_values_def)
qed

theorem backslash_key_crashes_witness:
  "act (Query_Value sample_reg_env) (Some sample_session) (Query_value_msg ''1'' [CHR 0x5C] ''v'') result_msg_default sample_reg_server = UB"
  by (rule backslash_key_crashes [where E = sample_reg_env and key = "[CHR 0x5C]"
        and v = "JObj [(''query_value'', JObj [(''id'', JStr ''1''), (''key'', JStr [CHR 0x5C]), (''value'', JStr ''v'')])]"])
    (simp_all add: sample_reg registry_actions_def Query_Value_def query_value_msg_as_def json_at_def map_at_def string_field_def)

text \<open>
  Whether a value exists is answered from two error codes: in a valid session with the host
  reached and the key's hive known, the answer is \<open>True\<close> exactly if the key opens and the value
  is read, \<open>False\<close> exactly if one of the two steps ends with \<open>file not found\<close>, and in all other
  cases the response carries the code of the error.
\<close>

theorem value_exists_answer:
  assumes "conf_readable E s" and "\<not> is_nil ss" and "key \<noteq> []" and "val \<noteq> []"
    and "R = winreg_at E (drawn s)" and "fst (reg_connect R ss)" and "open_key R key None = Ok ((ok, e1), current)"
    and "e = (if ok then fst (reg_key_get_value_by_name R (the current) (c_str val)) else e1)" and "\<not> ok \<longrightarrow> e1 \<noteq> 0"
  shows "\<exists>st res' s'. value_exists_act E (Some ss) (Value_exists_msg i key val) res s = Ok (st, res', s')
    \<and> (if e = 0 then msg_result res' = JStr ''True'' \<and> code (msg_status res') = 101
       else if e = werr_file_not_found then msg_result res' = JStr ''False'' \<and> code (msg_status res') = 101
       else st = FAILED \<and> code (msg_status res') = e)"
proof -
  have conn: "reg_connected R ss res s' k = k" for s' k
    using assms(6) by (auto simp: reg_connected_def split: prod.split)
  obtain repo where repo: "new_registry_client E s k = k R (s\<lparr>service_conf := repo, drawn := drawn s + 1\<rparr>)" for k
    using assms(1,5) by (auto simp: conf_readable_def new_registry_client_def)
  obtain e2 t data where v: "reg_key_get_value_by_name R (the current) (c_str val) = (e2, t, data)"
    by (cases "reg_key_get_value_by_name R (the current) (c_str val)") auto
  show ?thesis
    using assms(2-4,7-9) v
    by (cases ok) (auto simp: value_exists_act_def checked_session_def repo conn key_get_value_by_name_def resp_simps
        error_status_def werr_file_not_found_def)
qed

theorem value_exists_answer_witness:
  "\<exists>st res' s'. value_exists_act sample_reg_env (Some sample_session)
      (Value_exists_msg ''1'' (''HKLM'' @ [CHR 0x5C] @ ''SW'') ''none'') result_msg_default sample_reg_server = Ok (st, res', s')
    \<and> msg_result res' = JStr ''False''"
proof -
  have o: "open_key (winreg_at sample_reg_env (drawn sample_reg_server)) (''HKLM'' @ [CHR 0x5C] @ ''SW'') None = Ok ((True, 0), Some 2)"
    by (simp add: open_key_def c_str_def reg_hive_key_def split_hive_key_def hives_def hive_long_names_def sample_winreg_def
        HKEY_LOCAL_MACHINE_def HKEY_CLASSES_ROOT_def sample_reg_env_def)
  have e: "fst (reg_key_get_value_by_name (winreg_at sample_reg_env (drawn sample_reg_server)) (the (Some 2)) (c_str ''none'')) = 2"
    by (simp add: sample_reg_env_def sample_winreg_def c_str_def)
  show ?thesis
    using value_exists_answer [OF sample_reg(1,3) _ _ refl sample_reg(4) o refl, of "''none''" "''1''" result_msg_default] e
    by (auto simp: werr_file_not_found_def)
qed

text \<open>
  A successful \<open>enumerate_registry_values\<close> leaves the status of the response unset: its code
  is the one the empty response had, not the success code.
\<close>

theorem enumerated_values_without_code:
  assumes "act (Enumerate_Registry_Values E) sess (Enumerate_registry_values_msg i key) res s = Ok (SUCCEEDED, res', s')"
  shows "msg_status res' = msg_status res \<or> (\<exists>txt. msg_result res' = JStr (''Error: '' @ txt))"
  using assms
  by (auto simp: Enumerate_Registry_Values_def enumerate_values_act_def checked_session_def new_registry_client_def
      reg_connected_def bind_o_Ok_iff resp_simps split: option.splits if_splits prod.splits)

theorem enumerated_values_without_code_witness:
  "\<exists>res' s'. act (Enumerate_Registry_Values sample_reg_env) (Some sample_session)
      (Enumerate_registry_values_msg ''1'' (''HKLM'' @ [CHR 0x5C] @ ''SW'')) result_msg_default sample_reg_server
     = Ok (SUCCEEDED, res', s') \<and> msg_status res' = resp_status_default"
proof -
  have "\<exists>res' s'. act (Enumerate_Registry_Values sample_reg_env) (Some sample_session)
      (Enumerate_registry_values_msg ''1'' (''HKLM'' @ [CHR 0x5C] @ ''SW'')) result_msg_default sample_reg_server
     = Ok (SUCCEEDED, res', s') \<and> (\<exists>l. msg_result res' = JObj l)"
    by (simp add: Enumerate_Registry_Values_def enumerate_values_act_def checked_session_def sample_reg new_registry_client_def
        sample_reg_env_def sample_reg_server_def init_registry_conf_def init_conf_def dhas_def dfind_def reg_connected_def
        reg_connect_def sample_winreg_def enumerate_key_values_def open_key_def c_str_def reg_hive_key_def split_hive_key_def
        hives_def hive_long_names_def HKEY_LOCAL_MACHINE_def HKEY_CLASSES_ROOT_def key_get_info_def
        key_get_value_by_index_def sample_session_def is_nil_def enum_key_values_to_json_def set_res_def Let_def)
  then obtain res' s' where r: "act (Enumerate_Registry_Values sample_reg_env) (Some sample_session)
      (Enumerate_registry_values_msg ''1'' (''HKLM'' @ [CHR 0x5C] @ ''SW'')) result_msg_default sample_reg_server
     = Ok (SUCCEEDED, res', s')" "\<exists>l. msg_result res' = JObj l" by blast
  from enumerated_values_without_code [OF r(1)] r(2) have "msg_status res' = resp_status_default"
    by (auto simp: result_msg_default_def)
  with r(1) show ?thesis by blast
qed

end
