(* ===== verification/Wildcards.thy ===== *)
theory Wildcards
  imports Cdcm_Prelude
begin

text \<open>
  \<open>src/src/common/wildcards.hpp\<close>: the matcher of shell patterns that \<open>list_dir\<close> filters file names
  with. An iterator into a range is the list of the characters from it to the end of the range; the
  comparison is equality, as in the only use. The definitions follow the recursive forms of the
  functions; the theory \<open>Wildcards_Loops\<close> has the loops of the other preprocessor branch.
\<close>

section \<open>Cards\<close>

record cards =
  anything :: char
  single :: char
  escape :: char
  set_enabled :: bool
  set_open :: char
  set_close :: char
  set_not :: char
  alt_enabled :: bool
  alt_open :: char
  alt_close :: char
  alt_or :: char

definition default_cards :: cards where
  "default_cards = \<lparr>anything = CHR ''*'', single = CHR ''?'', escape = CHR 0x5C, set_enabled = True, set_open = CHR ''['',
     set_close = CHR '']'', set_not = CHR ''!'', alt_enabled = True, alt_open = CHR ''('', alt_close = CHR '')'',
     alt_or = CHR 0x7C\<rparr>"

section \<open>Sets\<close>

datatype set_state = St_open | St_not_or_first | St_first | St_next

fun is_set :: "cards \<Rightarrow> set_state \<Rightarrow> string \<Rightarrow> bool" where
  "is_set c st [] = False"
| "is_set c st (x # p) =
     (set_enabled c \<and>
      (case st of
         St_open \<Rightarrow> x = set_open c \<and> is_set c St_not_or_first p
       | St_not_or_first \<Rightarrow> if x = set_not c then is_set c St_first p else is_set c St_next p
       | St_first \<Rightarrow> is_set c St_next p
       | St_next \<Rightarrow> x = set_close c \<or> is_set c St_next p))"

fun set_end :: "cards \<Rightarrow> set_state \<Rightarrow> string \<Rightarrow> string outcome" where
  "set_end c st [] = Throw"
| "set_end c st (x # p) =
     (if \<not> set_enabled c then Throw
      else case st of
         St_open \<Rightarrow> if x = set_open c then set_end c St_not_or_first p else Throw
       | St_not_or_first \<Rightarrow> if x = set_not c then set_end c St_first p else set_end c St_next p
       | St_first \<Rightarrow> set_end c St_next p
       | St_next \<Rightarrow> if x = set_close c then Ok p else set_end c St_next p)"

text \<open>A match result: whether it matched, and where the two iterators stand.\<close>

type_synonym match_result = "bool \<times> string \<times> string"

datatype match_set_state = Ms_open | Ms_not_or_first_in | Ms_first_out | Ms_next_in | Ms_next_out

fun match_set :: "cards \<Rightarrow> match_set_state \<Rightarrow> string \<Rightarrow> string \<Rightarrow> match_result outcome" where
  "match_set c st s [] = Throw"
| "match_set c st s (x # p) =
     (if \<not> set_enabled c then Throw
      else case st of
         Ms_open \<Rightarrow> if x = set_open c then match_set c Ms_not_or_first_in s p else Throw
       | Ms_not_or_first_in \<Rightarrow>
           if x = set_not c then match_set c Ms_first_out s p
           else if s = [] then Ok (False, s, x # p)
           else if hd s = x then Ok (True, s, x # p)
           else match_set c Ms_next_in s p
       | Ms_first_out \<Rightarrow>
           if s = [] \<or> hd s = x then Ok (False, s, x # p) else match_set c Ms_next_out s p
       | Ms_next_in \<Rightarrow>
           if x = set_close c \<or> s = [] then Ok (False, s, x # p)
           else if hd s = x then Ok (True, s, x # p)
           else match_set c Ms_next_in s p
       | Ms_next_out \<Rightarrow>
           if x = set_close c then Ok (True, s, x # p)
           else if s = [] \<or> hd s = x then Ok (False, s, x # p)
           else match_set c Ms_next_out s p)"

lemma set_end_length: "set_end c st p = Ok q \<Longrightarrow> length q < length p"
  by (induction c st p rule: set_end.induct) (auto split: set_state.splits if_splits)

section \<open>Alternatives\<close>

datatype alt_state = Alt_open | Alt_next | Alt_escape

function is_alt :: "cards \<Rightarrow> alt_state \<Rightarrow> int \<Rightarrow> string \<Rightarrow> bool outcome" where
  "is_alt c st depth [] = Ok False"
| "is_alt c st depth (x # p) =
     (if \<not> alt_enabled c then Ok False
      else case st of
         Alt_open \<Rightarrow> if x = alt_open c then is_alt c Alt_next (depth + 1) p else Ok False
       | Alt_next \<Rightarrow>
           if x = escape c then is_alt c Alt_escape depth p
           else if set_enabled c \<and> x = set_open c \<and> is_set c St_not_or_first p then
             bind_o (set_end c St_not_or_first p) (\<lambda>q. is_alt c Alt_next depth q)
           else if x = alt_open c then is_alt c Alt_next (depth + 1) p
           else if x = alt_close c then (if depth = 1 then Ok True else is_alt c Alt_next (depth - 1) p)
           else is_alt c Alt_next depth p
       | Alt_escape \<Rightarrow> is_alt c Alt_next depth p)"
  by pat_completeness auto
termination by (relation "measure (\<lambda>(c, st, d, p). length p)") (auto dest: set_end_length)

function alt_end :: "cards \<Rightarrow> alt_state \<Rightarrow> int \<Rightarrow> string \<Rightarrow> string outcome" where
  "alt_end c st depth [] = Throw"
| "alt_end c st depth (x # p) =
     (if \<not> alt_enabled c then Throw
      else case st of
         Alt_open \<Rightarrow> if x = alt_open c then alt_end c Alt_next (depth + 1) p else Throw
       | Alt_next \<Rightarrow>
           if x = escape c then alt_end c Alt_escape depth p
           else if set_enabled c \<and> x = set_open c \<and> is_set c St_not_or_first p then
             bind_o (set_end c St_not_or_first p) (\<lambda>q. alt_end c Alt_next depth q)
           else if x = alt_open c then alt_end c Alt_next (depth + 1) p
           else if x = alt_close c then (if depth = 1 then Ok p else alt_end c Alt_next (depth - 1) p)
           else alt_end c Alt_next depth p
       | Alt_escape \<Rightarrow> alt_end c Alt_next depth p)"
  by pat_completeness auto
termination by (relation "measure (\<lambda>(c, st, d, p). length p)") (auto dest: set_end_length)

function alt_sub_end :: "cards \<Rightarrow> alt_state \<Rightarrow> int \<Rightarrow> string \<Rightarrow> string outcome" where
  "alt_sub_end c st depth [] = Throw"
| "alt_sub_end c st depth (x # p) =
     (if \<not> alt_enabled c then Throw
      else if st = Alt_escape then alt_sub_end c Alt_next depth p
      else if x = escape c then alt_sub_end c Alt_escape depth p
      else if set_enabled c \<and> x = set_open c \<and> is_set c St_not_or_first p then
        bind_o (set_end c St_not_or_first p) (\<lambda>q. alt_sub_end c Alt_next depth q)
      else if x = alt_open c then alt_sub_end c Alt_next (depth + 1) p
      else if x = alt_close c then (if depth = 1 then Ok (x # p) else alt_sub_end c Alt_next (depth - 1) p)
      else if x = alt_or c then (if depth = 1 then Ok (x # p) else alt_sub_end c Alt_next depth p)
      else alt_sub_end c Alt_next depth p)"
  by pat_completeness auto
termination by (relation "measure (\<lambda>(c, st, d, p). length p)") (auto dest: set_end_length)

lemma alt_end_length: "alt_end c st d p = Ok q \<Longrightarrow> length q < length p"
proof (induction "length p" arbitrary: st d p rule: less_induct)
  case less
  show ?case
  proof (cases p)
    case (Cons x r)
    have IH: "length q < Suc (length r)" if "alt_end c st' d' r' = Ok q" "length r' \<le> length r" for st' d' r'
      using less.hyps [OF _ that(1)] that(2) Cons by simp
    have set: "length a \<le> length r" if "set_end c st' r = Ok a" for st' a
      using set_end_length [OF that] by simp
    from less.prems show ?thesis
      unfolding Cons by (auto simp: bind_o_Ok_iff split: alt_state.splits if_splits intro: IH dest: set)
  qed (use less.prems in simp)
qed

lemma alt_sub_end_length: "alt_sub_end c st d p = Ok q \<Longrightarrow> length q \<le> length p"
proof (induction "length p" arbitrary: st d p rule: less_induct)
  case less
  show ?case
  proof (cases p)
    case (Cons x r)
    have IH: "length q \<le> Suc (length r)" if "alt_sub_end c st' d' r' = Ok q" "length r' \<le> length r" for st' d' r'
      using less.hyps [OF _ that(1)] that(2) Cons by simp
    have set: "length a \<le> length r" if "set_end c st' r = Ok a" for st' a
      using set_end_length [OF that] by simp
    from less.prems show ?thesis
      unfolding Cons by (auto simp: bind_o_Ok_iff split: if_splits intro: IH dest: set)
  qed (use less.prems in simp)
qed

section \<open>Matching\<close>

text \<open>The characters from one iterator up to a later one.\<close>

definition chars_between :: "string \<Rightarrow> string \<Rightarrow> string" where
  "chars_between p q = take (length p - length q) p"

lemma length_chars_between [simp]: "length q \<le> length p \<Longrightarrow> length (chars_between p q) = length p - length q"
  by (simp add: chars_between_def)

text \<open>
  \<open>match\<close> with the flags \<open>partial\<close> and \<open>escape\<close>, and \<open>match_alt\<close>, whose ranges are the current
  alternative \<open>p1\<close>, what follows it up to the end of the group (\<open>rest\<close>, which begins with the
  separator) and the pattern behind the group.
\<close>

function (sequential) wmatch :: "cards \<Rightarrow> string \<Rightarrow> string \<Rightarrow> bool \<Rightarrow> bool \<Rightarrow> match_result outcome"
  and match_alt :: "cards \<Rightarrow> string \<Rightarrow> string \<Rightarrow> string \<Rightarrow> string \<Rightarrow> bool \<Rightarrow> match_result outcome" where
  "wmatch c s [] partial esc = Ok (partial \<or> s = [], s, [])"
| "wmatch c s (x # p) partial esc =
     (if esc then
        (if s = [] \<or> hd s \<noteq> x then Ok (False, s, x # p) else wmatch c (tl s) p partial False)
      else if x = anything c then
        bind_o (wmatch c s p partial False) (\<lambda>(r, s1, p1).
          if r then Ok (r, s1, p1)
          else if s = [] then Ok (False, s, x # p)
          else wmatch c (tl s) (x # p) partial False)
      else if x = single c then
        (if s = [] then Ok (False, s, x # p) else wmatch c (tl s) p partial False)
      else if x = escape c then wmatch c s p partial True
      else if set_enabled c \<and> x = set_open c \<and> is_set c St_not_or_first p then
        bind_o (match_set c Ms_not_or_first_in s p) (\<lambda>(r, s1, p1).
          if \<not> r then Ok (r, s1, p1)
          else if s = [] then UB
          else bind_o (set_end c St_not_or_first p) (\<lambda>q. wmatch c (tl s) q partial False))
      else bind_o (if alt_enabled c \<and> x = alt_open c then is_alt c Alt_next 1 p else Ok False) (\<lambda>alt.
        if alt then
          bind_o (alt_end c Alt_next 1 p) (\<lambda>p_alt_end.
          bind_o (alt_sub_end c Alt_next 1 (chars_between p p_alt_end)) (\<lambda>q.
            match_alt c s (chars_between (chars_between p p_alt_end) q) q p_alt_end partial))
        else if s = [] \<or> hd s \<noteq> x then Ok (False, s, x # p)
        else wmatch c (tl s) p partial False))"
| "match_alt c s p1 rest p2 partial =
     bind_o (wmatch c s p1 True False) (\<lambda>(r1, s1, q1).
     bind_o (if r1 then wmatch c s1 p2 partial False else Ok (False, s, q1)) (\<lambda>(r2, s2, q2).
       if r2 then Ok (r2, s2, q2)
       else if rest = [] then UB
       else if tl rest = [] then Ok (False, s, rest @ p2)
       else bind_o (alt_sub_end c Alt_next 1 (tl rest)) (\<lambda>q.
              match_alt c s (chars_between (tl rest) q) q p2 partial)))"
  by pat_completeness auto
termination
  by (relation "measures [\<lambda>a. case a of Inl (c, s, p, f, e) \<Rightarrow> 2 * length p
                                  | Inr (c, s, p1, rest, p2, f) \<Rightarrow> 2 * (length p1 + length rest + length p2) + 1,
                          \<lambda>a. case a of Inl (c, s, p, f, e) \<Rightarrow> length s | Inr _ \<Rightarrow> 0]")
    (auto dest!: set_end_length alt_end_length alt_sub_end_length simp: neq_Nil_conv)

text \<open>\<open>match(sequence, pattern)\<close>, as \<open>list_dir\<close> calls it.\<close>

definition wildcards_match :: "string \<Rightarrow> string \<Rightarrow> bool outcome" where
  "wildcards_match sequence pattern =
     bind_o (wmatch default_cards sequence pattern False False) (\<lambda>(r, s, p). Ok r)"

section \<open>Sets and groups: lemmas\<close>

lemma is_set_iff: "is_set c st p \<longleftrightarrow> is_ok (set_end c st p)"
  by (induction c st p rule: set_end.induct) (auto split: set_state.split)

lemma set_end_local: "set_end c st p = Ok q \<Longrightarrow> \<exists>u. p = u @ q \<and> (\<forall>w. set_end c st (u @ w) = Ok w)"
proof (induction c st p rule: set_end.induct)
  case (2 c st x p)
  show ?case
  proof (cases "st = St_next \<and> x = set_close c")
    case True
    with 2 show ?thesis by (intro exI [of _ "[x]"]) (auto split: if_splits)
  next
    case False
    with 2 have "\<exists>u. p = u @ q \<and> (\<forall>w. set_end c st (x # u @ w) = Ok w)"
      by (auto split: if_splits set_state.splits)
    then show ?thesis by (metis append_Cons)
  qed
qed simp

lemma is_set_append: "is_set c st u \<Longrightarrow> is_set c st (u @ w)"
  by (induction c st u rule: is_set.induct) (auto split: set_state.splits if_splits)

lemma is_alt_eq: "is_alt c st d p = Ok (is_ok (alt_end c st d p))"
proof (induction c st d p rule: is_alt.induct)
  case (2 c st d x p)
  show ?case
  proof (cases "is_set c St_not_or_first p")
    case True
    then obtain q where "set_end c St_not_or_first p = Ok q" by (auto simp: is_set_iff is_ok_iff)
    with 2 show ?thesis by (auto split: alt_state.split)
  qed (use 2 in \<open>auto split: alt_state.split\<close>)
qed simp

text \<open>One step of the scan where no set is skipped; \<open>None\<close> ends it.\<close>

definition alt_move :: "cards \<Rightarrow> alt_state \<Rightarrow> int \<Rightarrow> char \<Rightarrow> (alt_state \<times> int) option" where
  "alt_move c st d x =
     (case st of
        Alt_open \<Rightarrow> if x = alt_open c then Some (Alt_next, d + 1) else None
      | Alt_next \<Rightarrow>
          if x = escape c then Some (Alt_escape, d)
          else if x = alt_open c then Some (Alt_next, d + 1)
          else if x = alt_close c then (if d = 1 then None else Some (Alt_next, d - 1))
          else Some (Alt_next, d)
      | Alt_escape \<Rightarrow> Some (Alt_next, d))"

lemma alt_end_move:
  "alt_enabled c \<Longrightarrow> \<not> (st = Alt_next \<and> x \<noteq> escape c \<and> set_enabled c \<and> x = set_open c \<and> is_set c St_not_or_first r) \<Longrightarrow>
   alt_end c st d (x # r) =
     (case alt_move c st d x of None \<Rightarrow> if st = Alt_next then Ok r else Throw | Some (st', d') \<Rightarrow> alt_end c st' d' r)"
  by (cases st) (auto simp: alt_move_def)

text \<open>The end of a group depends on the characters before it only.\<close>

lemma alt_end_local: "alt_end c st d p = Ok q \<Longrightarrow> \<exists>u. p = u @ q \<and> alt_end c st d u = Ok []"
proof (induction "length p" arbitrary: st d p rule: less_induct)
  case less
  show ?case
  proof (cases p)
    case (Cons x r)
    have IH: "\<exists>u. r' = u @ q \<and> alt_end c st' d' u = Ok []" if "alt_end c st' d' r' = Ok q" "length r' \<le> length r" for st' d' r'
      using less.hyps [OF _ that(1)] that(2) Cons by simp
    show ?thesis
    proof (cases "st = Alt_next \<and> x \<noteq> escape c \<and> set_enabled c \<and> x = set_open c \<and> is_set c St_not_or_first r")
      case True
      with less.prems Cons obtain a where a: "set_end c St_not_or_first r = Ok a" "alt_end c Alt_next d a = Ok q" "alt_enabled c"
        by (auto simp: bind_o_Ok_iff split: if_splits)
      obtain v where v: "r = v @ a" "\<forall>w. set_end c St_not_or_first (v @ w) = Ok w" using set_end_local [OF a(1)] by blast
      obtain u where u: "a = u @ q" "alt_end c Alt_next d u = Ok []" using IH [OF a(2)] v(1) by auto
      have "is_set c St_not_or_first (v @ u)" using v(2) by (simp add: is_set_iff)
      moreover from True have "st = Alt_next" "x \<noteq> escape c" "set_enabled c" "x = set_open c" by auto
      ultimately show ?thesis using a(3) u v Cons by (intro exI [of _ "x # v @ u"]) simp
    next
      case False
      have en: "alt_enabled c" using less.prems Cons by (auto split: if_splits)
      have nojump: "\<not> (st = Alt_next \<and> x \<noteq> escape c \<and> set_enabled c \<and> x = set_open c \<and> is_set c St_not_or_first u)"
        if "r = u @ q" for u
        using False that is_set_append by blast
      from less.prems have "(case alt_move c st d x of None \<Rightarrow> if st = Alt_next then Ok r else Throw
          | Some (st', d') \<Rightarrow> alt_end c st' d' r) = Ok q"
        unfolding Cons alt_end_move [OF en False] .
      then consider "alt_move c st d x = None" "st = Alt_next" "r = q"
        | st' d' where "alt_move c st d x = Some (st', d')" "alt_end c st' d' r = Ok q"
        by (auto split: option.splits if_splits)
      then show ?thesis
      proof cases
        case 1
        with Cons alt_end_move [OF en, of st x "[]"] show ?thesis by (intro exI [of _ "[x]"]) auto
      next
        case 2
        from IH [OF 2(2)] obtain u where "r = u @ q" "alt_end c st' d' u = Ok []" by auto
        with 2(1) Cons alt_end_move [OF en nojump, of u d] show ?thesis by (intro exI [of _ "x # u"]) simp
      qed
    qed
  qed (use less.prems in simp)
qed

text \<open>A group text that is closed by its last character: every separator is found inside it.\<close>

definition closed_group :: "cards \<Rightarrow> string \<Rightarrow> bool" where
  "closed_group c r \<longleftrightarrow> alt_end c Alt_next 1 r = Ok []"

lemma alt_sub_end_closed:
  "alt_end c st d u = Ok [] \<Longrightarrow> st \<noteq> Alt_open \<Longrightarrow> 1 \<le> d \<Longrightarrow>
   \<exists>q. alt_sub_end c st d u = Ok q \<and> q \<noteq> [] \<and> (tl q = [] \<or> closed_group c (tl q))"
proof (induction "length u" arbitrary: st d u rule: less_induct)
  case less
  show ?case
  proof (cases u)
    case (Cons x r)
    have IH: "\<exists>q. alt_sub_end c st' d' r' = Ok q \<and> q \<noteq> [] \<and> (tl q = [] \<or> closed_group c (tl q))"
      if "alt_end c st' d' r' = Ok []" "st' \<noteq> Alt_open" "1 \<le> d'" "length r' \<le> length r" for st' d' r'
      using less.hyps [OF _ that(1-3)] that(4) Cons by simp
    have set: "length a \<le> length r" if "set_end c St_not_or_first r = Ok a" for a
      using set_end_length [OF that] by simp
    have en: "alt_enabled c" using less.prems(1) Cons by (auto split: if_splits)
    show ?thesis
    proof (cases "st = Alt_next")
      case next': True
      consider (escape) "x = escape c"
        | (set) "x \<noteq> escape c" "set_enabled c" "x = set_open c" "is_set c St_not_or_first r"
        | (other) "x \<noteq> escape c" "\<not> (set_enabled c \<and> x = set_open c \<and> is_set c St_not_or_first r)"
        by blast
      then show ?thesis
      proof cases
        case escape
        with less.prems next' en Cons IH [of Alt_escape d r] show ?thesis by simp
      next
        case set
        then obtain a where a: "set_end c St_not_or_first r = Ok a" by (auto simp: is_set_iff is_ok_iff)
        with set less.prems next' en Cons IH [of Alt_next d a] \<open>\<And>a. set_end c St_not_or_first r = Ok a \<Longrightarrow> length a \<le> length r\<close>
        show ?thesis by simp
      next
        case other
        with less.prems next' en Cons have e: "(if x = alt_open c then alt_end c Alt_next (d + 1) r
            else if x = alt_close c then (if d = 1 then Ok r else alt_end c Alt_next (d - 1) r)
            else alt_end c Alt_next d r) = Ok []" by auto
        have s: "alt_sub_end c st d u = (if x = alt_open c then alt_sub_end c Alt_next (d + 1) r
            else if x = alt_close c then (if d = 1 then Ok (x # r) else alt_sub_end c Alt_next (d - 1) r)
            else if x = alt_or c then (if d = 1 then Ok (x # r) else alt_sub_end c Alt_next d r)
            else alt_sub_end c Alt_next d r)" using other next' en Cons by auto
        show ?thesis
          unfolding s using e IH [of Alt_next "d + 1" r] IH [of Alt_next "d - 1" r] IH [of Alt_next d r] less.prems(3)
          by (auto simp: closed_group_def split: if_splits)
      qed
    next
      case False
      with less.prems(2) have "st = Alt_escape" by (cases st) auto
      with less.prems en Cons IH [of Alt_next d r] show ?thesis by simp
    qed
  qed (use less.prems in simp)
qed

lemma match_set_ok:
  "(is_set c St_not_or_first p \<longrightarrow> is_ok (match_set c Ms_not_or_first_in s p))
   \<and> (is_set c St_first p \<longrightarrow> is_ok (match_set c Ms_first_out s p))
   \<and> (is_set c St_next p \<longrightarrow> is_ok (match_set c Ms_next_in s p) \<and> is_ok (match_set c Ms_next_out s p))"
  by (induction p) auto

lemma match_set_nonempty: "match_set c Ms_not_or_first_in [] p \<noteq> Ok (True, s, q)"
  by (cases p; cases "tl p") auto

lemma chars_between_append [simp]: "chars_between (u @ q) q = u"
  by (simp add: chars_between_def)

lemma alt_sub_end_suffix: "alt_sub_end c st d u = Ok q \<Longrightarrow> \<exists>v. u = v @ q"
proof (induction "length u" arbitrary: st d u rule: less_induct)
  case less
  show ?case
  proof (cases u)
    case (Cons x r)
    have IH: "\<exists>v. x # r = v @ q" if "alt_sub_end c st' d' r' = Ok q" "length r' \<le> length r" "\<exists>w. r = w @ r'" for st' d' r'
      using less.hyps [OF _ that(1)] that(2,3) Cons by (metis append_Cons append_assoc le_imp_less_Suc length_Cons)
    have jump: "\<exists>v. x # r = v @ q" if "set_end c St_not_or_first r = Ok a" "alt_sub_end c Alt_next d a = Ok q" for a
      using IH [OF that(2)] set_end_length [OF that(1)] set_end_local [OF that(1)] by auto
    have stay: "\<exists>v. x # r = v @ q" if "alt_sub_end c st' d' r = Ok q" for st' d'
      using IH [OF that] by auto
    from less.prems show ?thesis
      unfolding Cons by (auto simp: bind_o_Ok_iff split: if_splits intro: jump stay dest: jump stay)
  qed (use less.prems in simp)
qed

text \<open>The alternatives of a group.\<close>

function group_alts :: "cards \<Rightarrow> string \<Rightarrow> string list" where
  "group_alts c r =
     (case alt_sub_end c Alt_next 1 r of
        Ok q \<Rightarrow> chars_between r q # (if tl q = [] then [] else group_alts c (tl q))
      | Throw \<Rightarrow> [] | Abort \<Rightarrow> [] | UB \<Rightarrow> [])"
  by pat_completeness auto
termination
proof (relation "measure (\<lambda>(c, r). length r)")
  fix c r q assume "alt_sub_end c Alt_next 1 r = Ok q" "tl q \<noteq> []"
  then have "length q \<le> length r" using alt_sub_end_length by auto
  with \<open>tl q \<noteq> []\<close> show "((c, tl q), c, r) \<in> measure (\<lambda>(c, r). length r)" by (cases q) auto
qed simp

declare group_alts.simps [simp del]

definition later_alts :: "cards \<Rightarrow> string \<Rightarrow> string list" where
  "later_alts c q = (if tl q = [] then [] else group_alts c (tl q))"

lemma closed_group_split:
  assumes "closed_group c r"
  obtains v q where "r = v @ q" "alt_sub_end c Alt_next 1 r = Ok q" "q \<noteq> []" "tl q = [] \<or> closed_group c (tl q)"
    "group_alts c r = v # later_alts c q"
proof -
  obtain q where q: "alt_sub_end c Alt_next 1 r = Ok q" "q \<noteq> []" "tl q = [] \<or> closed_group c (tl q)"
    using alt_sub_end_closed [of c Alt_next 1 r] assms by (auto simp: closed_group_def)
  obtain v where v: "r = v @ q" using alt_sub_end_suffix [OF q(1)] by blast
  have "group_alts c r = v # later_alts c q"
    using q(1) v by (subst group_alts.simps) (simp add: later_alts_def)
  with q v that show ?thesis by blast
qed

section \<open>Reference semantics\<close>

text \<open>
  A set after its opening bracket: whether it is negated, its characters (the first may be the
  closing bracket), and the pattern behind it.
\<close>

definition set_parts :: "string \<Rightarrow> (bool \<times> string \<times> string) option" where
  "set_parts p =
     (let (neg, q) = (if p \<noteq> [] \<and> hd p = CHR ''!'' then (True, tl p) else (False, p))
      in case q of
           [] \<Rightarrow> None
         | x # r \<Rightarrow>
             if CHR '']'' \<in> set r
             then Some (neg, x # takeWhile (\<lambda>y. y \<noteq> CHR '']'') r, tl (dropWhile (\<lambda>y. y \<noteq> CHR '']'') r))
             else None)"

definition group_parts :: "string \<Rightarrow> (string list \<times> string) option" where
  "group_parts p =
     (case alt_end default_cards Alt_next 1 p of
        Ok q \<Rightarrow> Some (group_alts default_cards (chars_between p q), q)
      | Throw \<Rightarrow> None | Abort \<Rightarrow> None | UB \<Rightarrow> None)"

text \<open>The strings a pattern stands for.\<close>

inductive glob_lang :: "string \<Rightarrow> string \<Rightarrow> bool" where
  gl_end: "glob_lang [] []"
| gl_star: "glob_lang p s \<Longrightarrow> glob_lang (CHR ''*'' # p) (u @ s)"
| gl_single: "glob_lang p s \<Longrightarrow> glob_lang (CHR ''?'' # p) (y # s)"
| gl_dangling: "glob_lang [CHR 0x5C] []"
| gl_escaped: "glob_lang p s \<Longrightarrow> glob_lang (CHR 0x5C # x # p) (x # s)"
| gl_set: "set_parts p = Some (neg, cs, q) \<Longrightarrow> (y \<in> set cs) \<noteq> neg \<Longrightarrow> glob_lang q s \<Longrightarrow> glob_lang (CHR ''['' # p) (y # s)"
| gl_bracket: "set_parts p = None \<Longrightarrow> glob_lang p s \<Longrightarrow> glob_lang (CHR ''['' # p) (CHR ''['' # s)"
| gl_group: "group_parts p = Some (alts, q) \<Longrightarrow> a \<in> set alts \<Longrightarrow> glob_lang a u \<Longrightarrow> glob_lang q s \<Longrightarrow>
     glob_lang (CHR ''('' # p) (u @ s)"
| gl_paren: "group_parts p = None \<Longrightarrow> glob_lang p s \<Longrightarrow> glob_lang (CHR ''('' # p) (CHR ''('' # s)"
| gl_literal: "x \<notin> {CHR ''*'', CHR ''?'', CHR 0x5C, CHR ''['', CHR ''(''} \<Longrightarrow> glob_lang p s \<Longrightarrow> glob_lang (x # p) (x # s)"

inductive_simps glob_lang_simps:
  "glob_lang [] s"
  "glob_lang (CHR ''?'' # p) s"
  "glob_lang (CHR 0x5C # p) s"
  "glob_lang (CHR ''['' # p) s"

inductive_cases gl_starE: "glob_lang (CHR ''*'' # p) s"
inductive_cases gl_consE: "glob_lang (x # p) s"

lemma glob_star: "glob_lang (CHR ''*'' # p) s \<longleftrightarrow> glob_lang p s \<or> (s \<noteq> [] \<and> glob_lang (CHR ''*'' # p) (tl s))"
proof
  assume "glob_lang (CHR ''*'' # p) s"
  then obtain u t where "s = u @ t" "glob_lang p t" by (auto elim: gl_starE)
  then show "glob_lang p s \<or> (s \<noteq> [] \<and> glob_lang (CHR ''*'' # p) (tl s))"
    by (cases u) (auto intro: gl_star)
next
  assume "glob_lang p s \<or> (s \<noteq> [] \<and> glob_lang (CHR ''*'' # p) (tl s))"
  then show "glob_lang (CHR ''*'' # p) s"
  proof
    assume "glob_lang p s"
    from gl_star [OF this, of "[]"] show ?thesis by simp
  next
    assume t: "s \<noteq> [] \<and> glob_lang (CHR ''*'' # p) (tl s)"
    then obtain u v where "tl s = u @ v" "glob_lang p v" by (auto elim: gl_starE)
    with t gl_star [of p v "hd s # u"] show ?thesis by (cases s) auto
  qed
qed

lemma glob_literal: "x \<notin> {CHR ''*'', CHR ''?'', CHR 0x5C, CHR ''['', CHR ''(''} \<Longrightarrow>
  glob_lang (x # p) s \<longleftrightarrow> s \<noteq> [] \<and> hd s = x \<and> glob_lang p (tl s)"
  by (auto elim: gl_consE intro: gl_literal simp: neq_Nil_conv)

section \<open>The matcher against the reference\<close>

lemma default_cards_sel [simp]:
  "anything default_cards = CHR ''*''" "single default_cards = CHR ''?''" "escape default_cards = CHR 0x5C"
  "set_enabled default_cards" "set_open default_cards = CHR ''[''" "set_close default_cards = CHR '']''"
  "set_not default_cards = CHR ''!''" "alt_enabled default_cards" "alt_open default_cards = CHR ''(''"
  "alt_close default_cards = CHR '')''" "alt_or default_cards = CHR 0x7C"
  by (simp_all add: default_cards_def)

abbreviation (input) D :: cards where "D \<equiv> default_cards"

lemma set_next_eq:
  "set_end D St_next p = (if CHR '']'' \<in> set p then Ok (tl (dropWhile (\<lambda>y. y \<noteq> CHR '']'') p)) else Throw)"
  "CHR '']'' \<in> set p \<Longrightarrow> s \<noteq> [] \<Longrightarrow> \<exists>z. match_set D Ms_next_in s p = Ok (hd s \<in> set (takeWhile (\<lambda>y. y \<noteq> CHR '']'') p), z)"
  "CHR '']'' \<in> set p \<Longrightarrow> s \<noteq> [] \<Longrightarrow> \<exists>z. match_set D Ms_next_out s p = Ok (hd s \<notin> set (takeWhile (\<lambda>y. y \<noteq> CHR '']'') p), z)"
  by (induction p) auto

lemma set_end_eq: "set_end D St_not_or_first p = (case set_parts p of None \<Rightarrow> Throw | Some (neg, cs, q) \<Rightarrow> Ok q)"
proof (cases p)
  case (Cons x r)
  show ?thesis by (cases r) (auto simp: Cons set_parts_def set_next_eq)
qed (simp add: set_parts_def)

lemma match_set_eq:
  assumes "set_parts p = Some (neg, cs, q)"
  shows "\<exists>z. match_set D Ms_not_or_first_in s p = Ok (s \<noteq> [] \<and> (hd s \<in> set cs) \<noteq> neg, z)"
proof (cases p)
  case (Cons x r)
  show ?thesis
  proof (cases "x = CHR ''!''")
    case True
    with assms Cons obtain y t where r: "r = y # t" "CHR '']'' \<in> set t" "neg" "cs = y # takeWhile (\<lambda>y. y \<noteq> CHR '']'') t"
      by (auto simp: set_parts_def split: list.splits if_splits)
    with True Cons set_next_eq(3) [OF r(2), of s] show ?thesis by (cases "s = []") auto
  next
    case False
    with assms Cons have r: "CHR '']'' \<in> set r" "\<not> neg" "cs = x # takeWhile (\<lambda>y. y \<noteq> CHR '']'') r"
      by (auto simp: set_parts_def split: list.splits if_splits)
    with False Cons set_next_eq(2) [OF r(1), of s] show ?thesis by (cases "s = []") auto
  qed
qed (use assms in \<open>simp add: set_parts_def\<close>)

lemma is_set_eq: "is_set D St_not_or_first p \<longleftrightarrow> set_parts p \<noteq> None"
  by (auto simp: is_set_iff set_end_eq split: option.split)

lemma set_parts_length: "set_parts p = Some (neg, cs, q) \<Longrightarrow> length q < length p"
  using set_end_length [of D St_not_or_first p q] by (simp add: set_end_eq)

text \<open>The matcher, one equation for each kind of pattern.\<close>

lemma wmatch_simple:
  "wmatch D s [] partial esc = Ok (partial \<or> s = [], s, [])"
  "wmatch D s (x # p) partial True =
     (if s = [] \<or> hd s \<noteq> x then Ok (False, s, x # p) else wmatch D (tl s) p partial False)"
  "wmatch D s (CHR 0x5C # p) partial False = wmatch D s p partial True"
  "wmatch D s (CHR ''?'' # p) partial False = (if s = [] then Ok (False, s, CHR ''?'' # p) else wmatch D (tl s) p partial False)"
  "x \<notin> {CHR ''*'', CHR ''?'', CHR 0x5C, CHR ''['', CHR ''(''} \<Longrightarrow> wmatch D s (x # p) partial False =
     (if s = [] \<or> hd s \<noteq> x then Ok (False, s, x # p) else wmatch D (tl s) p partial False)"
  "set_parts p = None \<Longrightarrow> wmatch D s (CHR ''['' # p) partial False =
     (if s = [] \<or> hd s \<noteq> CHR ''['' then Ok (False, s, CHR ''['' # p) else wmatch D (tl s) p partial False)"
  "group_parts p = None \<Longrightarrow> wmatch D s (CHR ''('' # p) partial False =
     (if s = [] \<or> hd s \<noteq> CHR ''('' then Ok (False, s, CHR ''('' # p) else wmatch D (tl s) p partial False)"
proof -
  show "set_parts p = None \<Longrightarrow> wmatch D s (CHR ''['' # p) partial False =
     (if s = [] \<or> hd s \<noteq> CHR ''['' then Ok (False, s, CHR ''['' # p) else wmatch D (tl s) p partial False)"
    by (simp add: is_set_eq)
  show "group_parts p = None \<Longrightarrow> wmatch D s (CHR ''('' # p) partial False =
     (if s = [] \<or> hd s \<noteq> CHR ''('' then Ok (False, s, CHR ''('' # p) else wmatch D (tl s) p partial False)"
    by (simp add: is_alt_eq group_parts_def split: outcome.splits)
qed simp_all

declare wmatch.simps [simp del] match_alt.simps [simp del]

lemma wmatch_star:
  "wmatch D s (CHR ''*'' # p) partial False =
     bind_o (wmatch D s p partial False) (\<lambda>(r, s1, p1).
       if r then Ok (r, s1, p1)
       else if s = [] then Ok (False, s, CHR ''*'' # p)
       else wmatch D (tl s) (CHR ''*'' # p) partial False)"
  by (subst wmatch.simps) simp

lemma wmatch_set:
  assumes "set_parts p = Some (neg, cs, q)"
  shows "\<exists>z. wmatch D s (CHR ''['' # p) partial False =
    (if s = [] \<or> (hd s \<in> set cs) = neg then Ok (False, z) else wmatch D (tl s) q partial False)"
proof -
  from match_set_eq [OF assms] obtain z where "match_set D Ms_not_or_first_in s p = Ok (s \<noteq> [] \<and> (hd s \<in> set cs) \<noteq> neg, z)" ..
  with assms show ?thesis
    by (intro exI [of _ z], cases z) (subst wmatch.simps, auto simp: is_set_eq set_end_eq)
qed

lemma wmatch_group:
  assumes "group_parts p = Some (alts, q)"
  obtains u v r where "p = u @ q" "closed_group D u" "alts = v # later_alts D r" "u = v @ r" "r \<noteq> []"
    "tl r = [] \<or> closed_group D (tl r)" "wmatch D s (CHR ''('' # p) partial False = match_alt D s v r q partial"
proof -
  from assms have e: "alt_end D Alt_next 1 p = Ok q" "alts = group_alts D (chars_between p q)"
    by (auto simp: group_parts_def split: outcome.splits)
  from alt_end_local [OF e(1)] obtain u where u: "p = u @ q" "closed_group D u" by (auto simp: closed_group_def)
  obtain v r where r: "u = v @ r" "alt_sub_end D Alt_next 1 u = Ok r" "r \<noteq> []" "tl r = [] \<or> closed_group D (tl r)"
    "group_alts D u = v # later_alts D r"
    using closed_group_split [OF u(2)] by metis
  have cb: "chars_between p q = u" "chars_between u r = v" by (simp_all add: u r(1) chars_between_def)
  have "wmatch D s (CHR ''('' # p) partial False = match_alt D s v r q partial"
    using e(1) r(2) cb by (subst wmatch.simps) (simp add: is_alt_eq)
  moreover have "alts = v # later_alts D r" using e(2) cb(1) r(5) by simp
  ultimately show ?thesis by (rule that [OF u _ r(1) r(3,4), rotated])
qed

text \<open>
  A result is good for a language \<open>L\<close> if it is a normal one and a positive answer consumed a
  string of \<open>L\<close>, all of it unless the match is partial; it is full if it is positive whenever
  there is such a string.
\<close>

definition good :: "string \<Rightarrow> bool \<Rightarrow> (string \<Rightarrow> bool) \<Rightarrow> match_result outcome \<Rightarrow> bool" where
  "good s partial L R \<longleftrightarrow> (\<exists>r s' p'. R = Ok (r, s', p') \<and> (r \<longrightarrow> (\<exists>u. s = u @ s' \<and> (partial \<or> s' = []) \<and> L u)))"

definition full :: "string \<Rightarrow> bool \<Rightarrow> (string \<Rightarrow> bool) \<Rightarrow> match_result outcome \<Rightarrow> bool" where
  "full s partial L R \<longleftrightarrow> ((\<exists>u v. s = u @ v \<and> (partial \<or> v = []) \<and> L u) \<longrightarrow> (\<exists>z. R = Ok (True, z)))"

definition Lang :: "bool \<Rightarrow> string \<Rightarrow> string \<Rightarrow> bool" where
  "Lang esc p u = (if esc then (if p = [] then u = [] else u \<noteq> [] \<and> hd u = hd p \<and> glob_lang (tl p) (tl u)) else glob_lang p u)"

lemma Lang_simps [simp]: "Lang False p = glob_lang p" "Lang True [] u = (u = [])"
  "Lang True (x # p) u = (u \<noteq> [] \<and> hd u = x \<and> glob_lang p (tl u))"
  by (simp_all add: Lang_def fun_eq_iff)

lemma good_fail [simp]: "good s partial L (Ok (False, z))"
  by (cases z) (simp add: good_def ex_bool_eq)

lemma good_mono: "good s partial L R \<Longrightarrow> (\<And>u. L u \<Longrightarrow> L' u) \<Longrightarrow> good s partial L' R"
  unfolding good_def by blast

lemma good_cons: "good s partial L R \<Longrightarrow> (\<And>u. L u \<Longrightarrow> L' (y # u)) \<Longrightarrow> good (y # s) partial L' R"
  unfolding good_def by (metis append_Cons)

lemma full_cons: "full s partial L R \<Longrightarrow> (\<And>u. L' (y # u) \<Longrightarrow> L u) \<Longrightarrow> \<not> L' [] \<Longrightarrow> full (y # s) partial L' R"
  unfolding full_def by (metis append_eq_Cons_conv)

lemma match_alt_good:
  assumes "\<And>a s partial. length a < n \<Longrightarrow> good s partial (glob_lang a) (wmatch D s a partial False)"
    and "length q < n"
  shows "length p1 < n \<Longrightarrow> length rest \<le> n \<Longrightarrow> rest \<noteq> [] \<Longrightarrow> tl rest = [] \<or> closed_group D (tl rest) \<Longrightarrow>
    good s partial (\<lambda>u. \<exists>a \<in> set (p1 # later_alts D rest). \<exists>v w. u = v @ w \<and> glob_lang a v \<and> glob_lang q w)
      (match_alt D s p1 rest q partial)"
proof (induction "length rest" arbitrary: p1 rest rule: less_induct)
  case less
  obtain r1 s1 q1 where m1: "wmatch D s p1 True False = Ok (r1, s1, q1)" "r1 \<longrightarrow> (\<exists>u. s = u @ s1 \<and> glob_lang p1 u)"
    using assms(1) [OF less.prems(1), of s True] by (auto simp: good_def)
  obtain r2 s2 q2 where m2: "wmatch D s1 q partial False = Ok (r2, s2, q2)"
    "r2 \<longrightarrow> (\<exists>u. s1 = u @ s2 \<and> (partial \<or> s2 = []) \<and> glob_lang q u)"
    using assms(1) [OF assms(2), of s1 partial] by (auto simp: good_def)
  show ?case
  proof (cases "r1 \<and> r2")
    case True
    with m1 m2 have "match_alt D s p1 rest q partial = Ok (True, s2, q2)" by (simp add: match_alt.simps)
    moreover from True m1(2) m2(2) obtain u v where "s = (u @ v) @ s2" "glob_lang p1 u" "glob_lang q v" "partial \<or> s2 = []" by auto
    ultimately show ?thesis unfolding good_def by auto
  next
    case False
    show ?thesis
    proof (cases "tl rest = []")
      case True
      with False m1 m2 less.prems(3) show ?thesis by (auto simp: match_alt.simps good_def)
    next
      case more: False
      with less.prems(4) have "closed_group D (tl rest)" by simp
      then obtain v r where r: "tl rest = v @ r" "alt_sub_end D Alt_next 1 (tl rest) = Ok r" "r \<noteq> []"
        "tl r = [] \<or> closed_group D (tl r)" "group_alts D (tl rest) = v # later_alts D r"
        using closed_group_split by metis
      have len: "length (tl rest) < length rest" using less.prems(3) by (cases rest) auto
      with r(1) less.prems(2) have l: "length r < length rest" "length v < n" "length r \<le> n" by auto
      have e: "match_alt D s p1 rest q partial = match_alt D s v r q partial"
        using False m1 m2 less.prems(3) more r(1,2) by (auto simp: match_alt.simps [of D s p1])
      have "set (v # later_alts D r) \<subseteq> set (p1 # later_alts D rest)"
        using r(5) more by (auto simp: later_alts_def [of D rest])
      then show ?thesis
        unfolding e by (intro good_mono [OF less.hyps [OF l r(3,4)]]) (meson subsetD)
    qed
  qed
qed

text \<open>Every match ends normally; a positive answer is right; without groups a negative one is, too.\<close>

definition right :: "string \<Rightarrow> bool \<Rightarrow> bool \<Rightarrow> string \<Rightarrow> bool" where
  "right p partial esc s \<longleftrightarrow> good s partial (Lang esc p) (wmatch D s p partial esc)
     \<and> (CHR ''('' \<notin> set p \<longrightarrow> full s partial (Lang esc p) (wmatch D s p partial esc))"

lemma right_step:
  assumes "right q partial False (tl s)" "CHR ''('' \<notin> set p \<longrightarrow> CHR ''('' \<notin> set q"
    and "\<And>y u. Lang esc p (y # u) \<longleftrightarrow> ok y \<and> glob_lang q u" "\<not> Lang esc p []"
    and "wmatch D s p partial esc = (if s = [] \<or> \<not> ok (hd s) then Ok (False, z) else wmatch D (tl s) q partial False)"
  shows "right p partial esc s"
proof -
  let ?R = "wmatch D s p partial esc"
  have "good s partial (Lang esc p) ?R"
  proof (cases "s = [] \<or> \<not> ok (hd s)")
    case False
    then obtain y t where s: "s = y # t" "ok y" by (cases s) auto
    with assms(1,5) have "good t partial (glob_lang q) ?R" by (simp add: right_def)
    with s assms(3) show ?thesis using good_cons [of t partial "glob_lang q" ?R "Lang esc p" y] by simp
  qed (use assms(5) in simp)
  moreover have "full s partial (Lang esc p) ?R" if "full (tl s) partial (glob_lang q) (wmatch D (tl s) q partial False)"
  proof (cases "s = [] \<or> \<not> ok (hd s)")
    case True
    with assms(3,4) show ?thesis by (cases s) (auto simp: full_def Cons_eq_append_conv)
  next
    case False
    then obtain y t where s: "s = y # t" "ok y" by (cases s) auto
    with that assms(5) have "full t partial (glob_lang q) ?R" by simp
    with s assms(3,4) show ?thesis using full_cons [of t partial "glob_lang q" ?R "Lang esc p" y] by simp
  qed
  ultimately show ?thesis using assms(1,2) by (auto simp: right_def)
qed

lemma right_star:
  assumes IH: "\<And>s. right p partial False s"
  shows "right (CHR ''*'' # p) partial False s"
proof (induction s)
  case Nil
  let ?p = "CHR ''*'' # p"
  have l: "glob_lang ?p [] = glob_lang p []" using glob_star [of p "[]"] by simp
  obtain r s1 p1 where m: "wmatch D [] p partial False = Ok (r, s1, p1)"
    "r \<longrightarrow> (\<exists>u. [] = u @ s1 \<and> (partial \<or> s1 = []) \<and> glob_lang p u)"
    using IH [of "[]"] by (auto simp: right_def good_def)
  have "full [] partial (glob_lang p) (wmatch D [] p partial False)" if "CHR ''('' \<notin> set p"
    using IH [of "[]"] that by (simp add: right_def)
  with m l show ?case
    by (cases r) (auto simp: right_def good_def full_def wmatch_star)
next
  case (Cons y s)
  let ?p = "CHR ''*'' # p" and ?s = "y # s"
  obtain r s1 p1 where m: "wmatch D ?s p partial False = Ok (r, s1, p1)"
    "r \<longrightarrow> (\<exists>u. ?s = u @ s1 \<and> (partial \<or> s1 = []) \<and> glob_lang p u)"
    using IH [of ?s] by (auto simp: right_def good_def)
  show ?case
  proof (cases r)
    case True
    with m have "wmatch D ?s ?p partial False = Ok (True, s1, p1)" by (simp add: wmatch_star)
    moreover from True m(2) obtain u where "?s = u @ s1" "partial \<or> s1 = []" "glob_lang ?p u" using glob_star [of p] by blast
    ultimately show ?thesis unfolding right_def good_def full_def by auto
  next
    case False
    with m have R: "wmatch D ?s ?p partial False = wmatch D s ?p partial False" by (simp add: wmatch_star)
    have "good ?s partial (glob_lang ?p) (wmatch D ?s ?p partial False)"
      unfolding R using Cons.IH by (intro good_cons [where L = "glob_lang ?p"]) (auto simp: right_def glob_star [of p "y # _"])
    moreover have "full ?s partial (glob_lang ?p) (wmatch D ?s ?p partial False)" if np: "CHR ''('' \<notin> set p"
      unfolding full_def
    proof (intro impI)
      assume "\<exists>u v. ?s = u @ v \<and> (partial \<or> v = []) \<and> glob_lang ?p u"
      then obtain u v where uv: "?s = u @ v" "partial \<or> v = []" "glob_lang ?p u" by blast
      have "\<not> glob_lang p u"
        using IH [of ?s] np m False uv by (auto simp: right_def full_def)
      with uv(3) have "u \<noteq> []" "glob_lang ?p (tl u)" using glob_star [of p u] by auto
      with uv(1) obtain u' where "u = y # u'" "s = u' @ v" by (cases u) auto
      with Cons.IH np uv(2) \<open>glob_lang ?p (tl u)\<close> show "\<exists>z. wmatch D ?s ?p partial False = Ok (True, z)"
        unfolding R by (auto simp: right_def full_def)
    qed
    ultimately show ?thesis by (simp add: right_def)
  qed
qed

lemma glob_group: "group_parts p = Some (alts, q) \<Longrightarrow>
   (\<exists>a \<in> set alts. \<exists>v w. u = v @ w \<and> glob_lang a v \<and> glob_lang q w) \<Longrightarrow> glob_lang (CHR ''('' # p) u"
  by (auto intro: gl_group)

lemma right_set_case:
  assumes IH: "\<And>r partial' esc' s'. length r \<le> length q \<Longrightarrow> right r partial' esc' s'"
  shows "right (CHR ''['' # q) partial False s"
proof (cases "set_parts q")
  case None
  then show ?thesis
    by - (rule right_step [where q = q and ok = "\<lambda>y. y = CHR ''[''" and z = "(s, CHR ''['' # q)", OF IH [OF order_refl]], auto simp: wmatch_simple glob_lang_simps)
next
  case (Some a)
  then obtain neg cs r where a: "set_parts q = Some (neg, cs, r)" by (cases a) auto
  from set_end_local [of D St_not_or_first q r] a obtain v where v: "q = v @ r" by (auto simp: set_end_eq)
  from wmatch_set [OF a] obtain z where
    "wmatch D s (CHR ''['' # q) partial False = (if s = [] \<or> (hd s \<in> set cs) = neg then Ok (False, z) else wmatch D (tl s) r partial False)" ..
  with a v show ?thesis
    by - (rule right_step [where q = r and ok = "\<lambda>y. (y \<in> set cs) \<noteq> neg" and z = z, OF IH], auto simp: glob_lang_simps)
qed

lemma right_group_case:
  assumes IH: "\<And>r partial' esc' s'. length r \<le> length q \<Longrightarrow> right r partial' esc' s'"
  shows "right (CHR ''('' # q) partial False s"
proof (cases "group_parts q")
  case None
  have "glob_lang (CHR ''('' # q) (y # u) \<longleftrightarrow> y = CHR ''('' \<and> glob_lang q u" for y u
    using None by (auto elim: gl_consE intro: gl_paren)
  moreover have "\<not> glob_lang (CHR ''('' # q) []" using None by (auto elim: gl_consE)
  ultimately show ?thesis
    using None
    by - (rule right_step [where q = q and ok = "\<lambda>y. y = CHR ''(''" and z = "(s, CHR ''('' # q)", OF IH [OF order_refl]], auto simp: wmatch_simple)
next
  case (Some a)
  then obtain alts r where a: "group_parts q = Some (alts, r)" by (cases a) auto
  obtain u v w where g: "q = u @ r" "alts = v # later_alts D w" "u = v @ w" "w \<noteq> []" "tl w = [] \<or> closed_group D (tl w)"
    "wmatch D s (CHR ''('' # q) partial False = match_alt D s v w r partial"
    using wmatch_group [OF a] by metis
  have "good s partial (\<lambda>u. \<exists>a \<in> set (v # later_alts D w). \<exists>v w. u = v @ w \<and> glob_lang a v \<and> glob_lang r w)
      (match_alt D s v w r partial)"
  proof (rule match_alt_good [where n = "Suc (length q)"])
    fix a s' :: string and partial' assume "length a < Suc (length q)"
    with IH [of a partial' False s'] show "good s' partial' (glob_lang a) (wmatch D s' a partial' False)" by (simp add: right_def)
  qed (use g in auto)
  then have "good s partial (glob_lang (CHR ''('' # q)) (wmatch D s (CHR ''('' # q) partial False)"
    unfolding g(6) by (rule good_mono) (use glob_group [OF a] g(2) in blast)
  then show ?thesis by (simp add: right_def)
qed

lemma wmatch_right: "right p partial esc s"
proof (induction "length p" arbitrary: p s partial esc rule: less_induct)
  case less
  show ?case
  proof (cases p)
    case Nil
    then show ?thesis
      by (cases esc) (auto simp: right_def good_def full_def wmatch_simple glob_lang_simps)
  next
    case (Cons x q)
    have IH: "right r partial' esc' s'" if "length r \<le> length q" for r partial' esc' s'
      using less.hyps that Cons by simp
    show ?thesis
    proof (cases esc)
      case True
      show ?thesis
        unfolding Cons using True by - (rule right_step [where q = q and ok = "\<lambda>y. y = x" and z = "(s, x # q)", OF IH [OF order_refl]], auto simp: wmatch_simple)
    next
      case esc: False
      consider "x = CHR ''*''" | "x = CHR ''?''" | "x = CHR 0x5C" | "x = CHR ''[''" | "x = CHR ''(''"
        | "x \<notin> {CHR ''*'', CHR ''?'', CHR 0x5C, CHR ''['', CHR ''(''}" by auto
      then show ?thesis
      proof cases
        case 1
        then show ?thesis unfolding Cons using esc IH by (simp add: right_star)
      next
        case 2
        then show ?thesis
          unfolding Cons using esc
          by - (rule right_step [where q = q and ok = "\<lambda>_. True" and z = "(s, p)", OF IH [OF order_refl]], auto simp: wmatch_simple Cons glob_lang_simps)
      next
        case 3
        have "glob_lang (CHR 0x5C # q) u = Lang True q u" for u
          by (cases q; cases u) (auto simp: glob_lang_simps)
        then have "Lang False (CHR 0x5C # q) = Lang True q" by (simp add: fun_eq_iff)
        with 3 esc IH [of q partial True s] show ?thesis
          unfolding Cons by (simp add: right_def wmatch_simple)
      next
        case 4
        then show ?thesis unfolding Cons using esc by (simp add: right_set_case [OF IH])
      next
        case 5
        then show ?thesis unfolding Cons using esc by (simp add: right_group_case [OF IH])
      next
        case 6
        then show ?thesis
          unfolding Cons using esc
          by - (rule right_step [where q = q and ok = "\<lambda>y. y = x" and z = "(s, p)", OF IH [OF order_refl]], auto simp: wmatch_simple Cons glob_literal)
      qed
    qed
  qed
qed

lemma matches_without_groups:
  assumes "CHR ''('' \<notin> set pattern"
  shows "wildcards_match sequence pattern = Ok (glob_lang pattern sequence)"
proof -
  obtain r s' p' where m: "wmatch default_cards sequence pattern False False = Ok (r, s', p')"
    "r \<longrightarrow> glob_lang pattern sequence"
    using wmatch_right [of pattern False False sequence] by (auto simp: right_def good_def)
  moreover have "glob_lang pattern sequence \<longrightarrow> r"
    using wmatch_right [of pattern False False sequence] assms m(1) by (auto simp: right_def full_def)
  ultimately have "r = glob_lang pattern sequence" by blast
  with m(1) show ?thesis by (simp add: wildcards_match_def)
qed

section \<open>Properties\<close>

text \<open>
  C20. The wildcard matcher is total and sound: for every pattern and every string it returns (no
  exception about an invalid set or alternative can escape, no iterator passes the end of its
  range), and a positive answer means that the string belongs to the language of the pattern.
\<close>

theorem wildcards_total_and_sound:
  "\<exists>r. wildcards_match sequence pattern = Ok r \<and> (r \<longrightarrow> glob_lang pattern sequence)"
  using wmatch_right [of pattern False False sequence]
  by (auto simp: right_def good_def wildcards_match_def)

theorem wildcards_total_and_sound_witness: "glob_lang ''[!b]*.(exe|dll)'' ''a.dll''"
proof -
  have "wildcards_match ''a.dll'' ''[!b]*.(exe|dll)'' = Ok True" by code_simp
  with wildcards_total_and_sound [of "''a.dll''" "''[!b]*.(exe|dll)''"] show ?thesis by auto
qed

text \<open>
  C18. For patterns without alternatives the matcher decides the language of the pattern: its
  search with stars, question marks, escapes and sets agrees with the reference semantics.
\<close>

theorem wildcards_equal_reference:
  assumes "CHR ''('' \<notin> set pattern"
  shows "wildcards_match sequence pattern = Ok (glob_lang pattern sequence)"
  by (rule matches_without_groups [OF assms])

theorem wildcards_equal_reference_witness: "\<not> glob_lang ''*.t[xz]t'' ''a.tyt'' \<and> glob_lang ''*.t[xz]t'' ''a.t.tzt''"
proof -
  have "wildcards_match ''a.tyt'' ''*.t[xz]t'' = Ok False" "wildcards_match ''a.t.tzt'' ''*.t[xz]t'' = Ok True" by code_simp+
  with wildcards_equal_reference [of "''*.t[xz]t''"] show ?thesis by simp
qed

text \<open>
  Alternatives are not matched completely: the matcher takes the first way an alternative
  matches and does not go back into it, so \<open>(a*)b\<close> rejects \<open>aXb\<close>, which belongs to its
  language.
\<close>

theorem alternative_without_backtracking:
  "wildcards_match ''aXb'' ''(a*)b'' = Ok False \<and> glob_lang ''(a*)b'' ''aXb''"
proof
  show "wildcards_match ''aXb'' ''(a*)b'' = Ok False" by code_simp
  have g: "group_parts ''a*)b'' = Some ([''a*''], ''b'')" by code_simp
  have b: "glob_lang ''b'' ''b''" by (rule gl_literal) (simp_all add: gl_end)
  have "glob_lang ''*'' (''X'' @ [])" by (rule gl_star) (rule gl_end)
  then have a: "glob_lang ''a*'' ''aX''" by (intro gl_literal) simp_all
  from gl_group [OF g list.set_intros(1) a b] show "glob_lang ''(a*)b'' ''aXb''" by simp
qed

end
