(* ===== verification/Wildcards_Loops.thy ===== *)
theory Wildcards_Loops
  imports Wildcards
begin

text \<open>
  \<open>src/src/common/wildcards.hpp\<close> as it is compiled: the branches under \<open>cfg_HAS_CONSTEXPR14\<close>, with
  their loops and switches, on iterators. An iterator into the pattern \<open>P\<close> or the sequence \<open>S\<close> is
  an index, a range is a pair of them; reading at the end of the buffer, or a pair that is no
  range, is undefined. The properties relate them to the recursive forms of the theory \<open>Wildcards\<close>.
\<close>

section \<open>Sets\<close>

text \<open>The loops \<open>while(p != pend)\<close>, one turn for the switch and the step to the next character.\<close>

function is_set_loop :: "cards \<Rightarrow> string \<Rightarrow> nat \<Rightarrow> set_state \<Rightarrow> nat \<Rightarrow> bool outcome" where
  "is_set_loop c P pend st p =
     (if p = pend then Ok False
      else if length P \<le> p then UB
      else case st of
         St_open \<Rightarrow> if P ! p \<noteq> set_open c then Ok False else is_set_loop c P pend St_not_or_first (p + 1)
       | St_not_or_first \<Rightarrow> is_set_loop c P pend (if P ! p = set_not c then St_first else St_next) (p + 1)
       | St_first \<Rightarrow> is_set_loop c P pend St_next (p + 1)
       | St_next \<Rightarrow> if P ! p = set_close c then Ok True else is_set_loop c P pend St_next (p + 1))"
  by pat_completeness auto
termination by (relation "measure (\<lambda>(c, P, pend, st, p). length P - p)") auto

definition is_set_it :: "cards \<Rightarrow> string \<Rightarrow> nat \<Rightarrow> set_state \<Rightarrow> nat \<Rightarrow> bool outcome" where
  "is_set_it c P pend st p = (if \<not> set_enabled c then Ok False else is_set_loop c P pend st p)"

function set_end_loop :: "cards \<Rightarrow> string \<Rightarrow> nat \<Rightarrow> set_state \<Rightarrow> nat \<Rightarrow> nat outcome" where
  "set_end_loop c P pend st p =
     (if p = pend then Throw
      else if length P \<le> p then UB
      else case st of
         St_open \<Rightarrow> if P ! p \<noteq> set_open c then Throw else set_end_loop c P pend St_not_or_first (p + 1)
       | St_not_or_first \<Rightarrow> set_end_loop c P pend (if P ! p = set_not c then St_first else St_next) (p + 1)
       | St_first \<Rightarrow> set_end_loop c P pend St_next (p + 1)
       | St_next \<Rightarrow> if P ! p = set_close c then Ok (p + 1) else set_end_loop c P pend St_next (p + 1))"
  by pat_completeness auto
termination by (relation "measure (\<lambda>(c, P, pend, st, p). length P - p)") auto

definition set_end_it :: "cards \<Rightarrow> string \<Rightarrow> nat \<Rightarrow> set_state \<Rightarrow> nat \<Rightarrow> nat outcome" where
  "set_end_it c P pend st p = (if \<not> set_enabled c then Throw else set_end_loop c P pend st p)"

function match_set_loop ::
  "cards \<Rightarrow> string \<Rightarrow> string \<Rightarrow> nat \<Rightarrow> nat \<Rightarrow> match_set_state \<Rightarrow> nat \<Rightarrow> (bool \<times> nat \<times> nat) outcome" where
  "match_set_loop c S P s pend st p =
     (if p = pend then Throw
      else if length P \<le> p then UB
      else case st of
         Ms_open \<Rightarrow> if P ! p \<noteq> set_open c then Throw else match_set_loop c S P s pend Ms_not_or_first_in (p + 1)
       | Ms_not_or_first_in \<Rightarrow>
           if P ! p = set_not c then match_set_loop c S P s pend Ms_first_out (p + 1)
           else if s = length S then Ok (False, s, p)
           else if S ! s = P ! p then Ok (True, s, p)
           else match_set_loop c S P s pend Ms_next_in (p + 1)
       | Ms_first_out \<Rightarrow>
           if s = length S \<or> S ! s = P ! p then Ok (False, s, p) else match_set_loop c S P s pend Ms_next_out (p + 1)
       | Ms_next_in \<Rightarrow>
           if P ! p = set_close c \<or> s = length S then Ok (False, s, p)
           else if S ! s = P ! p then Ok (True, s, p)
           else match_set_loop c S P s pend Ms_next_in (p + 1)
       | Ms_next_out \<Rightarrow>
           if P ! p = set_close c then Ok (True, s, p)
           else if s = length S \<or> S ! s = P ! p then Ok (False, s, p)
           else match_set_loop c S P s pend Ms_next_out (p + 1))"
  by pat_completeness auto
termination by (relation "measure (\<lambda>(c, S, P, s, pend, st, p). length P - p)") auto

definition match_set_it ::
  "cards \<Rightarrow> string \<Rightarrow> string \<Rightarrow> nat \<Rightarrow> nat \<Rightarrow> match_set_state \<Rightarrow> nat \<Rightarrow> (bool \<times> nat \<times> nat) outcome" where
  "match_set_it c S P s pend st p = (if \<not> set_enabled c then Throw else match_set_loop c S P s pend st p)"

declare is_set_loop.simps [simp del] set_end_loop.simps [simp del] match_set_loop.simps [simp del]

lemma set_end_loop_gt: "set_end_loop c P e st p = Ok q \<Longrightarrow> p < q \<and> q \<le> length P"
  by (induction c P e st p rule: set_end_loop.induct)
    (subst (asm) (2) set_end_loop.simps, auto split: if_splits set_state.splits)

lemma set_end_it_gt: "set_end_it c P e st p = Ok q \<Longrightarrow> p < q \<and> q \<le> length P"
  by (auto simp: set_end_it_def dest: set_end_loop_gt split: if_splits)

section \<open>Alternatives\<close>

text \<open>Whether a set begins at \<open>p\<close>.\<close>

definition at_set :: "cards \<Rightarrow> string \<Rightarrow> nat \<Rightarrow> nat \<Rightarrow> bool outcome" where
  "at_set c P pend p =
     (if set_enabled c \<and> P ! p = set_open c then is_set_it c P pend St_not_or_first (p + 1) else Ok False)"

text \<open>A set is jumped over: \<open>p\<close> goes to the character before its end, and then to the next.\<close>

function is_alt_loop :: "cards \<Rightarrow> string \<Rightarrow> nat \<Rightarrow> alt_state \<Rightarrow> int \<Rightarrow> nat \<Rightarrow> bool outcome" where
  "is_alt_loop c P pend st depth p =
     (if p = pend then Ok False
      else if length P \<le> p then UB
      else case st of
         Alt_open \<Rightarrow> if P ! p \<noteq> alt_open c then Ok False else is_alt_loop c P pend Alt_next (depth + 1) (p + 1)
       | Alt_next \<Rightarrow>
           if P ! p = escape c then is_alt_loop c P pend Alt_escape depth (p + 1)
           else bind_o (at_set c P pend p) (\<lambda>b.
             if b then bind_o (set_end_it c P pend St_not_or_first (p + 1)) (\<lambda>q. is_alt_loop c P pend Alt_next depth (q - 1 + 1))
             else if P ! p = alt_open c then is_alt_loop c P pend Alt_next (depth + 1) (p + 1)
             else if P ! p = alt_close c then
               (if depth - 1 = 0 then Ok True else is_alt_loop c P pend Alt_next (depth - 1) (p + 1))
             else is_alt_loop c P pend Alt_next depth (p + 1))
       | Alt_escape \<Rightarrow> is_alt_loop c P pend Alt_next depth (p + 1))"
  by pat_completeness auto
termination by (relation "measure (\<lambda>(c, P, pend, st, d, p). length P - p)") (auto dest: set_end_it_gt)

definition is_alt_it :: "cards \<Rightarrow> string \<Rightarrow> nat \<Rightarrow> alt_state \<Rightarrow> int \<Rightarrow> nat \<Rightarrow> bool outcome" where
  "is_alt_it c P pend st depth p = (if \<not> alt_enabled c then Ok False else is_alt_loop c P pend st depth p)"

function alt_end_loop :: "cards \<Rightarrow> string \<Rightarrow> nat \<Rightarrow> alt_state \<Rightarrow> int \<Rightarrow> nat \<Rightarrow> nat outcome" where
  "alt_end_loop c P pend st depth p =
     (if p = pend then Throw
      else if length P \<le> p then UB
      else case st of
         Alt_open \<Rightarrow> if P ! p \<noteq> alt_open c then Throw else alt_end_loop c P pend Alt_next (depth + 1) (p + 1)
       | Alt_next \<Rightarrow>
           if P ! p = escape c then alt_end_loop c P pend Alt_escape depth (p + 1)
           else bind_o (at_set c P pend p) (\<lambda>b.
             if b then bind_o (set_end_it c P pend St_not_or_first (p + 1)) (\<lambda>q. alt_end_loop c P pend Alt_next depth (q - 1 + 1))
             else if P ! p = alt_open c then alt_end_loop c P pend Alt_next (depth + 1) (p + 1)
             else if P ! p = alt_close c then
               (if depth - 1 = 0 then Ok (p + 1) else alt_end_loop c P pend Alt_next (depth - 1) (p + 1))
             else alt_end_loop c P pend Alt_next depth (p + 1))
       | Alt_escape \<Rightarrow> alt_end_loop c P pend Alt_next depth (p + 1))"
  by pat_completeness auto
termination by (relation "measure (\<lambda>(c, P, pend, st, d, p). length P - p)") (auto dest: set_end_it_gt)

definition alt_end_it :: "cards \<Rightarrow> string \<Rightarrow> nat \<Rightarrow> alt_state \<Rightarrow> int \<Rightarrow> nat \<Rightarrow> nat outcome" where
  "alt_end_it c P pend st depth p = (if \<not> alt_enabled c then Throw else alt_end_loop c P pend st depth p)"

function alt_sub_end_loop :: "cards \<Rightarrow> string \<Rightarrow> nat \<Rightarrow> alt_state \<Rightarrow> int \<Rightarrow> nat \<Rightarrow> nat outcome" where
  "alt_sub_end_loop c P pend st depth p =
     (if p = pend then Throw
      else if length P \<le> p then UB
      else if st = Alt_escape then alt_sub_end_loop c P pend Alt_next depth (p + 1)
      else if P ! p = escape c then alt_sub_end_loop c P pend Alt_escape depth (p + 1)
      else bind_o (at_set c P pend p) (\<lambda>b.
        if b then bind_o (set_end_it c P pend St_not_or_first (p + 1)) (\<lambda>q. alt_sub_end_loop c P pend Alt_next depth (q - 1 + 1))
        else if P ! p = alt_open c then alt_sub_end_loop c P pend Alt_next (depth + 1) (p + 1)
        else if P ! p = alt_close c then
          (if depth - 1 = 0 then Ok p else alt_sub_end_loop c P pend Alt_next (depth - 1) (p + 1))
        else if P ! p = alt_or c then
          (if depth = 1 then Ok p else alt_sub_end_loop c P pend Alt_next depth (p + 1))
        else alt_sub_end_loop c P pend Alt_next depth (p + 1)))"
  by pat_completeness auto
termination by (relation "measure (\<lambda>(c, P, pend, st, d, p). length P - p)") (auto dest: set_end_it_gt)

definition alt_sub_end_it :: "cards \<Rightarrow> string \<Rightarrow> nat \<Rightarrow> alt_state \<Rightarrow> int \<Rightarrow> nat \<Rightarrow> nat outcome" where
  "alt_sub_end_it c P pend st depth p = (if \<not> alt_enabled c then Throw else alt_sub_end_loop c P pend st depth p)"

declare is_alt_loop.simps [simp del] alt_end_loop.simps [simp del] alt_sub_end_loop.simps [simp del]

section \<open>Matching\<close>

text \<open>
  \<open>match\<close> and \<open>match_alt\<close>. A pair of iterators that is no range of its buffer, and stepping over
  the end of the group, are undefined.
\<close>

function (sequential) match_it ::
    "cards \<Rightarrow> string \<Rightarrow> string \<Rightarrow> nat \<Rightarrow> nat \<Rightarrow> nat \<Rightarrow> bool \<Rightarrow> bool \<Rightarrow> (bool \<times> nat \<times> nat) outcome"
  and match_alt_it ::
    "cards \<Rightarrow> string \<Rightarrow> string \<Rightarrow> nat \<Rightarrow> nat \<Rightarrow> nat \<Rightarrow> nat \<Rightarrow> nat \<Rightarrow> bool \<Rightarrow> (bool \<times> nat \<times> nat) outcome" where
  "match_it c S P s p pend partial esc =
     (if \<not> (p \<le> pend \<and> pend \<le> length P \<and> s \<le> length S) then UB
      else if p = pend then Ok (partial \<or> s = length S, s, p)
      else if esc then
        (if s = length S \<or> S ! s \<noteq> P ! p then Ok (False, s, p) else match_it c S P (s + 1) (p + 1) pend partial False)
      else if P ! p = anything c then
        bind_o (match_it c S P s (p + 1) pend partial False) (\<lambda>(r, s1, p1).
          if r then Ok (r, s1, p1)
          else if s = length S then Ok (False, s, p)
          else match_it c S P (s + 1) p pend partial False)
      else if P ! p = single c then
        (if s = length S then Ok (False, s, p) else match_it c S P (s + 1) (p + 1) pend partial False)
      else if P ! p = escape c then match_it c S P s (p + 1) pend partial True
      else bind_o (at_set c P pend p) (\<lambda>is_set.
        if is_set then
          bind_o (match_set_it c S P s pend Ms_not_or_first_in (p + 1)) (\<lambda>(r, s1, p1).
            if \<not> r then Ok (r, s1, p1)
            else bind_o (set_end_it c P pend St_not_or_first (p + 1)) (\<lambda>q. match_it c S P (s + 1) q pend partial False))
        else bind_o (if alt_enabled c \<and> P ! p = alt_open c then is_alt_it c P pend Alt_next 1 (p + 1) else Ok False) (\<lambda>is_alt.
          if is_alt then
            bind_o (alt_end_it c P pend Alt_next 1 (p + 1)) (\<lambda>p_alt_end.
            bind_o (alt_sub_end_it c P p_alt_end Alt_next 1 (p + 1)) (\<lambda>q.
              match_alt_it c S P s (p + 1) q p_alt_end pend partial))
          else if s = length S \<or> S ! s \<noteq> P ! p then Ok (False, s, p)
          else match_it c S P (s + 1) (p + 1) pend partial False)))"
| "match_alt_it c S P s p1 p1end p2 p2end partial =
     (if \<not> (p1 \<le> p1end \<and> p1end \<le> p2 \<and> p2 \<le> p2end \<and> p2end \<le> length P \<and> s \<le> length S) then UB
      else bind_o (match_it c S P s p1 p1end True False) (\<lambda>(r1, s1, q1).
        bind_o (if r1 then match_it c S P s1 p2 p2end partial False else Ok (False, s, q1)) (\<lambda>(r2, s2, q2).
          if r2 then Ok (r2, s2, q2)
          else if p1end = p2 then UB
          else if p1end + 1 = p2 then Ok (False, s, p1end)
          else bind_o (alt_sub_end_it c P p2 Alt_next 1 (p1end + 1)) (\<lambda>q.
                 match_alt_it c S P s (p1end + 1) q p2 p2end partial))))"
  by pat_completeness auto
termination
  by (relation "measures [\<lambda>a. case a of Inl (c, S, P, s, p, e, f, x) \<Rightarrow> 2 * (e - p)
                                  | Inr (c, S, P, s, p1, p1e, p2, e, f) \<Rightarrow> 2 * (e - p1) + 1,
                          \<lambda>a. case a of Inl (c, S, P, s, p, e, f, x) \<Rightarrow> length S - s | Inr _ \<Rightarrow> 0]")
    (auto dest!: set_end_it_gt)

declare match_it.simps [simp del] match_alt_it.simps [simp del]

text \<open>\<open>match(sequence, pattern)\<close> on the iterators of the two strings.\<close>

definition match_strings :: "string \<Rightarrow> string \<Rightarrow> (bool \<times> nat \<times> nat) outcome" where
  "match_strings sequence pattern = match_it default_cards sequence pattern 0 0 (length pattern) False False"

section \<open>Iterators and lists\<close>

text \<open>The characters of a range, and the results that stand for the same positions.\<close>

definition slice :: "string \<Rightarrow> nat \<Rightarrow> nat \<Rightarrow> string" where
  "slice P p e = drop p (take e P)"

fun points :: "string \<Rightarrow> nat \<Rightarrow> nat outcome \<Rightarrow> string outcome \<Rightarrow> bool" where
  "points P e (Ok q) (Ok r) = (q \<le> e \<and> r = slice P q e)"
| "points P e Throw Throw = True"
| "points P e Abort Abort = True"
| "points P e UB UB = True"
| "points P e _ _ = False"

fun stands :: "string \<Rightarrow> string \<Rightarrow> nat \<Rightarrow> (bool \<times> nat \<times> nat) outcome \<Rightarrow> match_result outcome \<Rightarrow> bool" where
  "stands S P e (Ok (b, i, q)) (Ok (b', s, r)) = (b = b' \<and> i \<le> length S \<and> s = drop i S \<and> q \<le> e \<and> r = slice P q e)"
| "stands S P e Throw Throw = True"
| "stands S P e Abort Abort = True"
| "stands S P e UB UB = True"
| "stands S P e _ _ = False"

lemma slice_Cons: "p < e \<Longrightarrow> e \<le> length P \<Longrightarrow> slice P p e = P ! p # slice P (p + 1) e"
  by (simp add: slice_def Cons_nth_drop_Suc [symmetric])

lemma slice_same [simp]: "slice P e e = []"
  by (simp add: slice_def)

lemma length_slice [simp]: "e \<le> length P \<Longrightarrow> length (slice P p e) = e - p"
  by (simp add: slice_def)

lemma slice_inner: "p \<le> q \<Longrightarrow> q \<le> e \<Longrightarrow> e \<le> length P \<Longrightarrow> chars_between (slice P p e) (slice P q e) = slice P p q"
  by (simp add: chars_between_def) (simp add: slice_def min_def drop_take)

lemma drop_Cons: "s < length S \<Longrightarrow> drop s S = S ! s # drop (s + 1) S"
  by (simp add: Cons_nth_drop_Suc)

lemma is_set_loop_eq:
  "p \<le> e \<Longrightarrow> e \<le> length P \<Longrightarrow> set_enabled c \<Longrightarrow> is_set_loop c P e st p = Ok (is_set c st (slice P p e))"
proof (induction c P e st p rule: is_set_loop.induct)
  case (1 c P e st p)
  show ?case
  proof (cases "p = e")
    case False
    with 1 show ?thesis by (subst is_set_loop.simps) (auto simp: slice_Cons split: set_state.split)
  qed (simp add: is_set_loop.simps)
qed

lemma set_end_loop_eq:
  "p \<le> e \<Longrightarrow> e \<le> length P \<Longrightarrow> set_enabled c \<Longrightarrow> points P e (set_end_loop c P e st p) (set_end c st (slice P p e))"
proof (induction c P e st p rule: set_end_loop.induct)
  case (1 c P e st p)
  show ?case
  proof (cases "p = e")
    case False
    with 1 show ?thesis by (subst set_end_loop.simps) (auto simp: slice_Cons split: set_state.split)
  qed (simp add: set_end_loop.simps)
qed

lemma match_set_loop_eq:
  "p \<le> e \<Longrightarrow> e \<le> length P \<Longrightarrow> s \<le> length S \<Longrightarrow> set_enabled c \<Longrightarrow>
   stands S P e (match_set_loop c S P s e st p) (match_set c st (drop s S) (slice P p e))"
proof (induction c S P s e st p rule: match_set_loop.induct)
  case (1 c S P s e st p)
  show ?case
  proof (cases "p = e")
    case False
    have hd: "hd (drop s S) = S ! s" if "s \<noteq> length S" using 1 that by (simp add: hd_drop_conv_nth)
    from False 1 hd show ?thesis
      by (subst match_set_loop.simps) (auto simp: slice_Cons split: match_set_state.split)
  qed (simp add: match_set_loop.simps)
qed

lemma set_disabled: "\<not> set_enabled c \<Longrightarrow> \<not> is_set c st p" "\<not> set_enabled c \<Longrightarrow> set_end c st p = Throw"
  "\<not> set_enabled c \<Longrightarrow> match_set c ms s p = Throw"
  by (cases p; simp)+

lemma set_its:
  assumes "p \<le> e" and "e \<le> length P"
  shows "is_set_it c P e st p = Ok (is_set c st (slice P p e))"
    and "points P e (set_end_it c P e st p) (set_end c st (slice P p e))"
    and "s \<le> length S \<Longrightarrow> stands S P e (match_set_it c S P s e ms p) (match_set c ms (drop s S) (slice P p e))"
  using assms by (simp_all add: is_set_it_def set_end_it_def match_set_it_def set_disabled is_set_loop_eq set_end_loop_eq match_set_loop_eq)

lemma at_set_eq:
  "p < e \<Longrightarrow> e \<le> length P \<Longrightarrow>
   at_set c P e p = Ok (set_enabled c \<and> P ! p = set_open c \<and> is_set c St_not_or_first (slice P (p + 1) e))"
  by (auto simp: at_set_def set_its)

lemma set_jump:
  assumes "p < e" and "e \<le> length P" and "is_set c St_not_or_first (slice P (p + 1) e)"
  obtains q where "set_end_it c P e St_not_or_first (p + 1) = Ok q" "p + 1 < q" "q \<le> e"
    "set_end c St_not_or_first (slice P (p + 1) e) = Ok (slice P q e)"
proof -
  obtain r where r: "set_end c St_not_or_first (slice P (p + 1) e) = Ok r"
    using assms(3) by (auto simp: is_set_iff is_ok_iff)
  have "points P e (set_end_it c P e St_not_or_first (p + 1)) (Ok r)"
    using set_its(2) [of "p + 1" e P c St_not_or_first] assms(1,2) r by simp
  then obtain q where q: "set_end_it c P e St_not_or_first (p + 1) = Ok q" "q \<le> e" "r = slice P q e"
    by (cases "set_end_it c P e St_not_or_first (p + 1)") auto
  with set_end_it_gt [OF q(1)] r that show ?thesis by simp
qed

lemma is_alt_loop_eq:
  assumes "e \<le> length P" and "alt_enabled c"
  shows "p \<le> e \<Longrightarrow> is_alt_loop c P e st d p = is_alt c st d (slice P p e)"
proof (induction "e - p" arbitrary: p st d rule: less_induct)
  case less
  show ?case
  proof (cases "p = e")
    case False
    with less.prems have p: "p < e" by simp
    note here = slice_Cons [OF p assms(1)] at_set_eq [OF p assms(1)]
    have IH: "is_alt_loop c P e st' d' q = is_alt c st' d' (slice P q e)" if "p < q" "q \<le> e" for q st' d'
      using less.hyps that by simp
    show ?thesis
    proof (cases "is_set c St_not_or_first (slice P (p + 1) e)")
      case True
      from set_jump [OF p assms(1) True] obtain q where
        q: "set_end_it c P e St_not_or_first (p + 1) = Ok q" "p + 1 < q" "q \<le> e"
          "set_end c St_not_or_first (slice P (p + 1) e) = Ok (slice P q e)" .
      with p assms True show ?thesis
        by (cases st; subst is_alt_loop.simps) (auto simp: here IH)
    qed (use p assms in \<open>cases st; subst is_alt_loop.simps; auto simp: here IH\<close>)
  qed (simp add: is_alt_loop.simps)
qed

lemma alt_end_loop_eq:
  assumes "e \<le> length P" and "alt_enabled c"
  shows "p \<le> e \<Longrightarrow> points P e (alt_end_loop c P e st d p) (alt_end c st d (slice P p e))"
proof (induction "e - p" arbitrary: p st d rule: less_induct)
  case less
  show ?case
  proof (cases "p = e")
    case False
    with less.prems have p: "p < e" by simp
    note here = slice_Cons [OF p assms(1)] at_set_eq [OF p assms(1)]
    have IH: "points P e (alt_end_loop c P e st' d' q) (alt_end c st' d' (slice P q e))" if "p < q" "q \<le> e" for q st' d'
      using less.hyps that by simp
    show ?thesis
    proof (cases "is_set c St_not_or_first (slice P (p + 1) e)")
      case True
      from set_jump [OF p assms(1) True] obtain q where
        q: "set_end_it c P e St_not_or_first (p + 1) = Ok q" "p + 1 < q" "q \<le> e"
          "set_end c St_not_or_first (slice P (p + 1) e) = Ok (slice P q e)" .
      with p assms True show ?thesis
        by (cases st; subst alt_end_loop.simps) (auto simp: here IH)
    qed (use p assms in \<open>cases st; subst alt_end_loop.simps; auto simp: here IH\<close>)
  qed (simp add: alt_end_loop.simps)
qed

lemma alt_sub_end_loop_eq:
  assumes "e \<le> length P" and "alt_enabled c"
  shows "p \<le> e \<Longrightarrow> points P e (alt_sub_end_loop c P e st d p) (alt_sub_end c st d (slice P p e))"
proof (induction "e - p" arbitrary: p st d rule: less_induct)
  case less
  show ?case
  proof (cases "p = e")
    case False
    with less.prems have p: "p < e" by simp
    note here = slice_Cons [OF p assms(1)] at_set_eq [OF p assms(1)]
    have IH: "points P e (alt_sub_end_loop c P e st' d' q) (alt_sub_end c st' d' (slice P q e))" if "p < q" "q \<le> e" for q st' d'
      using less.hyps that by simp
    show ?thesis
    proof (cases "is_set c St_not_or_first (slice P (p + 1) e)")
      case True
      from set_jump [OF p assms(1) True] obtain q where
        q: "set_end_it c P e St_not_or_first (p + 1) = Ok q" "p + 1 < q" "q \<le> e"
          "set_end c St_not_or_first (slice P (p + 1) e) = Ok (slice P q e)" .
      with p assms True show ?thesis
        by (subst alt_sub_end_loop.simps) (auto simp: here IH)
    qed (use p assms in \<open>subst alt_sub_end_loop.simps, auto simp: here IH\<close>)
  qed (simp add: alt_sub_end_loop.simps)
qed

lemma alt_disabled: "\<not> alt_enabled c \<Longrightarrow> is_alt c st d p = Ok False" "\<not> alt_enabled c \<Longrightarrow> alt_end c st d p = Throw"
  "\<not> alt_enabled c \<Longrightarrow> alt_sub_end c st d p = Throw"
  by (cases p; simp)+

lemma alt_its:
  assumes "p \<le> e" and "e \<le> length P"
  shows "is_alt_it c P e st d p = is_alt c st d (slice P p e)"
    and "points P e (alt_end_it c P e st d p) (alt_end c st d (slice P p e))"
    and "points P e (alt_sub_end_it c P e st d p) (alt_sub_end c st d (slice P p e))"
  using assms by (simp_all add: is_alt_it_def alt_end_it_def alt_sub_end_it_def alt_disabled is_alt_loop_eq
      alt_end_loop_eq alt_sub_end_loop_eq)

section \<open>The matcher\<close>

lemma points_bind:
  assumes "points P e x y" and "\<And>q. y = Ok (slice P q e) \<Longrightarrow> q \<le> e \<Longrightarrow> stands S P e' (f q) (g (slice P q e))"
  shows "stands S P e' (bind_o x f) (bind_o y g)"
  using assms by (cases x; cases y) auto

lemma stands_bind:
  assumes "stands S P e x y"
    and "\<And>b i q. i \<le> length S \<Longrightarrow> q \<le> e \<Longrightarrow> stands S P e' (f (b, i, q)) (g (b, drop i S, slice P q e))"
  shows "stands S P e' (bind_o x f) (bind_o y g)"
  using assms by (cases x; cases y) auto

text \<open>The three parts of a step: at the start of a set, at the start of a group, and elsewhere.\<close>

lemma step_set:
  assumes "s \<le> length S" and p: "p < e" and e: "e \<le> length P" and "is_set c St_not_or_first (slice P (p + 1) e)"
    and later: "\<And>q. s < length S \<Longrightarrow> p < q \<Longrightarrow> q \<le> e \<Longrightarrow>
      stands S P e (match_it c S P (s + 1) q e f False) (wmatch c (drop (s + 1) S) (slice P q e) f False)"
  shows "stands S P e
      (bind_o (match_set_it c S P s e Ms_not_or_first_in (p + 1)) (\<lambda>(r, s1, p1). if \<not> r then Ok (r, s1, p1)
         else bind_o (set_end_it c P e St_not_or_first (p + 1)) (\<lambda>q. match_it c S P (s + 1) q e f False)))
      (bind_o (match_set c Ms_not_or_first_in (drop s S) (slice P (p + 1) e)) (\<lambda>(r, s1, p1). if \<not> r then Ok (r, s1, p1)
         else if drop s S = [] then UB
         else bind_o (set_end c St_not_or_first (slice P (p + 1) e)) (\<lambda>q. wmatch c (tl (drop s S)) q f False)))"
proof -
  obtain q where q: "set_end_it c P e St_not_or_first (p + 1) = Ok q" "p + 1 < q" "q \<le> e"
      "set_end c St_not_or_first (slice P (p + 1) e) = Ok (slice P q e)"
    using set_jump [OF p e assms(4)] .
  have "stands S P e (match_it c S P (s + 1) q e f False) (if drop s S = [] then UB else wmatch c (tl (drop s S)) (slice P q e) f False)"
  proof (cases "s = length S")
    case True
    then show ?thesis by (subst match_it.simps) simp
  qed (use later [of q] q assms(1) in \<open>simp add: drop_Suc tl_drop\<close>)
  moreover have "p + 1 \<le> e" using p by simp
  ultimately show ?thesis
    by (intro stands_bind [OF set_its(3) [OF _ e assms(1)]]) (auto simp: q [simplified])
qed

lemma step_group:
  assumes p1: "p + 1 \<le> e" and e: "e \<le> length P"
    and group: "\<And>q p2. p + 1 \<le> q \<Longrightarrow> q \<le> p2 \<Longrightarrow> p2 \<le> e \<Longrightarrow>
      stands S P e (match_alt_it c S P s (p + 1) q p2 e f) (match_alt c (drop s S) (slice P (p + 1) q) (slice P q p2) (slice P p2 e) f)"
  shows "stands S P e
      (bind_o (alt_end_it c P e Alt_next 1 (p + 1)) (\<lambda>p2. bind_o (alt_sub_end_it c P p2 Alt_next 1 (p + 1)) (\<lambda>q.
         match_alt_it c S P s (p + 1) q p2 e f)))
      (bind_o (alt_end c Alt_next 1 (slice P (p + 1) e)) (\<lambda>r2.
       bind_o (alt_sub_end c Alt_next 1 (chars_between (slice P (p + 1) e) r2)) (\<lambda>q.
         match_alt c (drop s S) (chars_between (chars_between (slice P (p + 1) e) r2) q) q r2 f)))"
proof (rule points_bind [OF alt_its(2) [OF p1 e]])
  fix p2 assume p2: "alt_end c Alt_next 1 (slice P (p + 1) e) = Ok (slice P p2 e)" "p2 \<le> e"
  have lt: "p + 1 < p2" using alt_end_length [OF p2(1)] p2(2) e by simp
  then have between: "chars_between (slice P (p + 1) e) (slice P p2 e) = slice P (p + 1) p2"
    using p2(2) e by (intro slice_inner) simp_all
  have p2': "p + 1 \<le> p2" "p2 \<le> length P" using lt p2(2) e by simp_all
  show "stands S P e (bind_o (alt_sub_end_it c P p2 Alt_next 1 (p + 1)) (\<lambda>q. match_alt_it c S P s (p + 1) q p2 e f))
      (bind_o (alt_sub_end c Alt_next 1 (chars_between (slice P (p + 1) e) (slice P p2 e))) (\<lambda>q.
         match_alt c (drop s S) (chars_between (chars_between (slice P (p + 1) e) (slice P p2 e)) q) q (slice P p2 e) f))"
    unfolding between
  proof (rule points_bind [OF alt_its(3) [OF p2']])
    fix q assume q: "alt_sub_end c Alt_next 1 (slice P (p + 1) p2) = Ok (slice P q p2)" "q \<le> p2"
    have "p + 1 \<le> q" using alt_sub_end_length [OF q(1)] q(2) p2' by simp
    with group [of q p2] q(2) p2(2) p2' show "stands S P e (match_alt_it c S P s (p + 1) q p2 e f)
        (match_alt c (drop s S) (chars_between (slice P (p + 1) p2) (slice P q p2)) (slice P q p2) (slice P p2 e) f)"
      by (simp add: slice_inner)
  qed
qed

lemma step_anything:
  assumes "s \<le> length S" and p: "p < e" and e: "e \<le> length P"
    and one: "stands S P e (match_it c S P s (p + 1) e f False) (wmatch c (drop s S) (slice P (p + 1) e) f False)"
    and again: "s < length S \<Longrightarrow> stands S P e (match_it c S P (s + 1) p e f False) (wmatch c (drop (s + 1) S) (slice P p e) f False)"
  shows "stands S P e
      (bind_o (match_it c S P s (p + 1) e f False) (\<lambda>(r, s1, p1). if r then Ok (r, s1, p1)
         else if s = length S then Ok (False, s, p) else match_it c S P (s + 1) p e f False))
      (bind_o (wmatch c (drop s S) (slice P (p + 1) e) f False) (\<lambda>(r, s1, p1). if r then Ok (r, s1, p1)
         else if drop s S = [] then Ok (False, drop s S, P ! p # slice P (p + 1) e)
         else wmatch c (tl (drop s S)) (P ! p # slice P (p + 1) e) f False))"
  using assms(1) p again by (intro stands_bind [OF one]) (auto simp: slice_Cons [OF p e] drop_Suc tl_drop)

lemma match_step:
  assumes "s \<le> length S" and p: "p < e" and e: "e \<le> length P"
    and later: "\<And>s q f x. s \<le> length S \<Longrightarrow> p < q \<Longrightarrow> q \<le> e \<Longrightarrow>
      stands S P e (match_it c S P s q e f x) (wmatch c (drop s S) (slice P q e) f x)"
    and again: "\<And>f x. s < length S \<Longrightarrow> stands S P e (match_it c S P (s + 1) p e f x) (wmatch c (drop (s + 1) S) (slice P p e) f x)"
    and group: "\<And>q p2 f. p + 1 \<le> q \<Longrightarrow> q \<le> p2 \<Longrightarrow> p2 \<le> e \<Longrightarrow>
      stands S P e (match_alt_it c S P s (p + 1) q p2 e f) (match_alt c (drop s S) (slice P (p + 1) q) (slice P q p2) (slice P p2 e) f)"
  shows "stands S P e (match_it c S P s p e f x) (wmatch c (drop s S) (slice P p e) f x)"
proof -
  note here = slice_Cons [OF p e]
  note step = match_it.simps [of c S P s p e f x]
  note step' = wmatch.simps(2) [of c "drop s S" "P ! p" "slice P (p + 1) e" f x]
  have ranges: "p \<le> e \<and> e \<le> length P \<and> s \<le> length S" "p \<noteq> e" "p + 1 \<le> e" using assms(1-3) by simp_all
  have empty: "drop s S = [] \<longleftrightarrow> s = length S" using assms(1) by auto
  have head: "hd (drop s S) = S ! s" if "s \<noteq> length S" using assms(1) that by (simp add: hd_drop_conv_nth)
  have both: "stands S P e (match_it c S P (s + 1) (p + 1) e f x') (wmatch c (tl (drop s S)) (slice P (p + 1) e) f x')"
    if "s \<noteq> length S" for f x'
    using later [of "s + 1" "p + 1"] assms(1) p that by (simp add: drop_Suc tl_drop)
  have one: "stands S P e (match_it c S P s (p + 1) e f x') (wmatch c (drop s S) (slice P (p + 1) e) f x')" for f x'
    using later [of s "p + 1"] assms(1) p by simp
  have stay: "stands S P e (Ok (b, s, p)) (Ok (b, drop s S, P ! p # slice P (p + 1) e))" for b
    using assms(1) p by (simp add: here)
  consider (escaped) x | (anything) "\<not> x" "P ! p = anything c" | (single) "\<not> x" "P ! p \<noteq> anything c" "P ! p = single c"
    | (escape) "\<not> x" "P ! p \<noteq> anything c" "P ! p \<noteq> single c" "P ! p = escape c"
    | (other) "\<not> x" "P ! p \<noteq> anything c" "P ! p \<noteq> single c" "P ! p \<noteq> escape c" by blast
  then show ?thesis
  proof cases
    case anything
    with step_anything [OF assms(1) p e one again] show ?thesis
      unfolding here step step' using ranges by simp
  next
    case other
    have set_here: "at_set c P e p = Ok (set_enabled c \<and> P ! p = set_open c \<and> is_set c St_not_or_first (slice P (p + 1) e))"
      and alt_here: "is_alt_it c P e Alt_next 1 (p + 1) = Ok (is_ok (alt_end c Alt_next 1 (slice P (p + 1) e)))"
      using at_set_eq [OF p e] alt_its(1) [OF ranges(3) e, of c Alt_next 1] by (simp_all add: is_alt_eq)
    note simps = ranges other bind_o.simps if_True if_False simp_thms
    show ?thesis
    proof (cases "set_enabled c \<and> P ! p = set_open c \<and> is_set c St_not_or_first (slice P (p + 1) e)")
      case True
      have "at_set c P e p = Ok True" using set_here True by metis
      then show ?thesis unfolding here step step' if_P [OF True]
        by (simp only: simps) (rule step_set [OF assms(1) p e], use True later in auto)
    next
      case no_set: False
      have "at_set c P e p = Ok False" using set_here no_set by metis
      note simps' = simps no_set this alt_here is_alt_eq
      show ?thesis
      proof (cases "alt_enabled c \<and> P ! p = alt_open c \<and> is_ok (alt_end c Alt_next 1 (slice P (p + 1) e))")
        case True
        then have alt: "alt_enabled c \<and> P ! p = alt_open c" "is_ok (alt_end c Alt_next 1 (slice P (p + 1) e))" by blast+
        show ?thesis unfolding here step step' if_P [OF alt(1)]
          by (simp only: simps' alt(2)) (rule step_group [OF ranges(3) e group])
      next
        case False
        have "(if alt_enabled c \<and> P ! p = alt_open c then Ok (is_ok (alt_end c Alt_next 1 (slice P (p + 1) e))) else Ok False) = Ok False"
          using False by (simp del: One_nat_def)
        then show ?thesis unfolding here step step'
          by (simp only: simps') (use both stay in \<open>auto simp: empty head\<close>)
      qed
    qed
  qed (unfold here step step', use ranges both one stay in \<open>auto simp: empty head\<close>)
qed

lemma next_alternative:
  assumes "s \<le> length S" and "p1e \<le> p2" and "p2 \<le> e" and "e \<le> length P"
    and other: "\<And>q. p1e + 1 \<le> q \<Longrightarrow> q \<le> p2 \<Longrightarrow>
      stands S P e (match_alt_it c S P s (p1e + 1) q p2 e f) (match_alt c (drop s S) (slice P (p1e + 1) q) (slice P q p2) (slice P p2 e) f)"
  shows "stands S P e
      (if p1e = p2 then UB else if p1e + 1 = p2 then Ok (False, s, p1e)
       else bind_o (alt_sub_end_it c P p2 Alt_next 1 (p1e + 1)) (\<lambda>q. match_alt_it c S P s (p1e + 1) q p2 e f))
      (if slice P p1e p2 = [] then UB else if tl (slice P p1e p2) = [] then Ok (False, drop s S, slice P p1e p2 @ slice P p2 e)
       else bind_o (alt_sub_end c Alt_next 1 (tl (slice P p1e p2))) (\<lambda>q.
              match_alt c (drop s S) (chars_between (tl (slice P p1e p2)) q) q (slice P p2 e) f))"
proof (cases "p1e = p2")
  case False
  with assms(2-4) have lt: "p1e < p2" "p2 \<le> length P" "p1e + 1 \<le> p2" by simp_all
  have tl: "slice P p1e p2 = P ! p1e # slice P (p1e + 1) p2" by (rule slice_Cons [OF lt(1,2)])
  show ?thesis
  proof (cases "p1e + 1 = p2")
    case True
    have "slice P p1e e = P ! p1e # slice P (p1e + 1) e" using True assms(3,4) by (intro slice_Cons) auto
    with True tl assms(1-3) show ?thesis by simp
  next
    case more: False
    with lt have "length (slice P (p1e + 1) p2) \<noteq> 0" by simp
    then have ne: "slice P (p1e + 1) p2 \<noteq> []" by auto
    have "stands S P e
        (bind_o (alt_sub_end_it c P p2 Alt_next 1 (p1e + 1)) (\<lambda>q. match_alt_it c S P s (p1e + 1) q p2 e f))
        (bind_o (alt_sub_end c Alt_next 1 (slice P (p1e + 1) p2)) (\<lambda>q.
           match_alt c (drop s S) (chars_between (slice P (p1e + 1) p2) q) q (slice P p2 e) f))"
    proof (rule points_bind [OF alt_its(3) [OF lt(3,2)]])
      fix q assume q: "alt_sub_end c Alt_next 1 (slice P (p1e + 1) p2) = Ok (slice P q p2)" "q \<le> p2"
      have "p1e + 1 \<le> q" using alt_sub_end_length [OF q(1)] q(2) lt by simp
      with other [of q] q(2) lt show "stands S P e (match_alt_it c S P s (p1e + 1) q p2 e f)
          (match_alt c (drop s S) (chars_between (slice P (p1e + 1) p2) (slice P q p2)) (slice P q p2) (slice P p2 e) f)"
        by (simp add: slice_inner)
    qed
    then show ?thesis using False more ne tl by simp
  qed
qed simp

lemma match_alt_step:
  assumes "s \<le> length S" and "p1 \<le> p1e" and "p1e \<le> p2" and "p2 \<le> e" and "e \<le> length P"
    and one: "stands S P p1e (match_it c S P s p1 p1e True False) (wmatch c (drop s S) (slice P p1 p1e) True False)"
    and rest: "\<And>s. s \<le> length S \<Longrightarrow> stands S P e (match_it c S P s p2 e f False) (wmatch c (drop s S) (slice P p2 e) f False)"
    and other: "\<And>q. p1e + 1 \<le> q \<Longrightarrow> q \<le> p2 \<Longrightarrow>
      stands S P e (match_alt_it c S P s (p1e + 1) q p2 e f) (match_alt c (drop s S) (slice P (p1e + 1) q) (slice P q p2) (slice P p2 e) f)"
  shows "stands S P e (match_alt_it c S P s p1 p1e p2 e f)
    (match_alt c (drop s S) (slice P p1 p1e) (slice P p1e p2) (slice P p2 e) f)"
proof -
  note next_one = next_alternative [OF assms(1,3-5) other]
  have ranges: "p1 \<le> p1e \<and> p1e \<le> p2 \<and> p2 \<le> e \<and> e \<le> length P \<and> s \<le> length S" using assms(1-5) by blast
  show ?thesis
    unfolding match_alt_it.simps [of c S P s p1 p1e p2 e f]
      match_alt.simps [of c "drop s S" "slice P p1 p1e" "slice P p1e p2" "slice P p2 e" f]
  proof (simp only: ranges if_False simp_thms, rule stands_bind [OF one])
    fix b i q assume i: "i \<le> length S" "q \<le> p1e"
    show "stands S P e
       (case (b, i, q) of (r1, s1, q1) \<Rightarrow>
          bind_o (if r1 then match_it c S P s1 p2 e f False else Ok (False, s, q1)) (\<lambda>(r2, s2, q2).
            if r2 then Ok (r2, s2, q2) else if p1e = p2 then UB else if p1e + 1 = p2 then Ok (False, s, p1e)
            else bind_o (alt_sub_end_it c P p2 Alt_next 1 (p1e + 1)) (\<lambda>q. match_alt_it c S P s (p1e + 1) q p2 e f)))
       (case (b, drop i S, slice P q p1e) of (r1, s1, q1) \<Rightarrow>
          bind_o (if r1 then wmatch c s1 (slice P p2 e) f False else Ok (False, drop s S, q1)) (\<lambda>(r2, s2, q2).
            if r2 then Ok (r2, s2, q2) else if slice P p1e p2 = [] then UB
            else if tl (slice P p1e p2) = [] then Ok (False, drop s S, slice P p1e p2 @ slice P p2 e)
            else bind_o (alt_sub_end c Alt_next 1 (tl (slice P p1e p2))) (\<lambda>q.
                   match_alt c (drop s S) (chars_between (tl (slice P p1e p2)) q) q (slice P p2 e) f)))"
    proof (cases b)
      case True
      show ?thesis using next_one by (simp only: True prod.case if_True, intro stands_bind [OF rest [OF i(1)]]) auto
    next
      case False
      then show ?thesis using next_one by (simp only: False prod.case if_False bind_o.simps)
    qed
  qed
qed

text \<open>By the size of the range, and for one range by what is left of the sequence.\<close>

lemma match_stands:
  shows "n = 2 * (e - p) \<Longrightarrow> s \<le> length S \<Longrightarrow> p \<le> e \<Longrightarrow> e \<le> length P \<Longrightarrow>
      stands S P e (match_it c S P s p e f x) (wmatch c (drop s S) (slice P p e) f x)"
    and "n = 2 * (e - p) + 1 \<Longrightarrow> s \<le> length S \<Longrightarrow> p \<le> p1e \<Longrightarrow> p1e \<le> p2 \<Longrightarrow> p2 \<le> e \<Longrightarrow> e \<le> length P \<Longrightarrow>
      stands S P e (match_alt_it c S P s p p1e p2 e f) (match_alt c (drop s S) (slice P p p1e) (slice P p1e p2) (slice P p2 e) f)"
proof (induction n arbitrary: s p e p1e p2 f x rule: less_induct)
  case (less n)
  case 1
  have "stands S P e (match_it c S P s p e f x) (wmatch c (drop s S) (slice P p e) f x)" if "s \<le> length S" for s f x
    using that
  proof (induction "length S - s" arbitrary: s f x rule: less_induct)
    case again: less
    show ?case
    proof (cases "p = e")
      case True
      then show ?thesis using again.prems 1 by (subst match_it.simps) (auto simp: wmatch.simps(1))
    next
      case False
      then have p: "p < e" using 1 by simp
      show ?thesis
        by (rule match_step [OF again.prems p 1(4)]) (use 1 p again.prems in \<open>auto intro!: less.IH again.hyps\<close>)
    qed
  qed
  with 1 show ?case by blast
next
  case (less n)
  case 2
  show ?case
    by (rule match_alt_step [OF 2(2-6)])
      (rule less.IH(1) [OF _ refl] less.IH(2) [OF _ refl]; use 2 in simp)+
qed

section \<open>Property\<close>

text \<open>
  C19. The matcher that is compiled is the matcher of the recursive forms: for every sequence and
  every pattern, the loops over iterators end, read no character outside of the two strings, fail
  exactly where the recursive functions on lists fail, and otherwise give the same answer and the
  iterators of the same positions; so \<open>match\<close> on the strings is the function the other theorems
  are about.
\<close>

theorem loops_refine_recursion:
  "stands sequence pattern (length pattern) (match_strings sequence pattern) (wmatch default_cards sequence pattern False False)
   \<and> bind_o (match_strings sequence pattern) (\<lambda>(r, s, p). Ok r) = wildcards_match sequence pattern"
proof -
  have "stands sequence pattern (length pattern) (match_strings sequence pattern) (wmatch default_cards sequence pattern False False)"
    using match_stands(1) [OF refl, of 0 sequence 0 "length pattern" pattern default_cards False False]
    by (simp add: match_strings_def slice_def)
  then show ?thesis
    by (cases "match_strings sequence pattern"; cases "wmatch default_cards sequence pattern False False")
      (auto simp: wildcards_match_def)
qed

end
