(* ===== verification/File_Reader.thy ===== *)
theory File_Reader
  imports Cdcm_Prelude "HOL-Library.Word"
begin

text \<open>
  \<open>src/src/common/file_reader_interface.hpp\<close>, the interface through which files are read, and its
  implementation for local files, \<open>src/src/backend/utils/file_reader.cpp\<close>. A call of \<open>read\<close> returns
  the result, the bytes it stored at the destination, and the new state of the reader.
\<close>

section \<open>The interface\<close>

type_synonym 's reader = "'s \<Rightarrow> nat \<Rightarrow> nat \<Rightarrow> ((int \<times> string) \<times> 's) outcome"

text \<open>
  The contract: inside the file, a read returns all the bytes asked for, and the file stays what
  it was.
\<close>

locale file_source =
  fixes rd :: "'s reader" and contents :: "'s \<Rightarrow> string" and good :: "'s \<Rightarrow> bool"
  assumes read_inside: "good s \<Longrightarrow> off + n \<le> length (contents s) \<Longrightarrow> off + n < 2 ^ 63 \<Longrightarrow>
    \<exists>s'. rd s off n = Ok ((int n, take n (drop off (contents s))), s') \<and> good s' \<and> contents s' = contents s"

section \<open>Local files\<close>

text \<open>
  The reader of a local file: the size found when it was opened (the largest number when there
  was an error), the bytes of the file and whether the stream is still good. The stream is opened
  with \<open>std::ios::out\<close>, that is, for reading and writing.
\<close>

record file_reader =
  fsize :: "64 word"
  stream_bytes :: string
  stream_good :: bool

definition new_file_reader :: "nat option \<Rightarrow> string \<Rightarrow> bool \<Rightarrow> file_reader" where
  "new_file_reader size_v bytes writable =
     \<lparr>fsize = (case size_v of None \<Rightarrow> - 1 | Some n \<Rightarrow> of_nat n), stream_bytes = bytes, stream_good = writable\<rparr>"

text \<open>A read that meets the end of the stream stores what there was and makes the stream bad for ever.\<close>

definition file_reader_read :: "file_reader reader" where
  "file_reader_read R offset size_v =
     (if (of_nat offset + of_nat size_v :: 64 word) > fsize R then Ok ((-1, []), R)
      else if \<not> stream_good R then Ok ((-1, []), R)
      else let bs = take size_v (drop offset (stream_bytes R))
        in if length bs = size_v then Ok ((int size_v, bs), R)
           else Ok ((-1, bs), R\<lparr>stream_good := False\<rparr>))"

definition file_reader_validate :: "file_reader \<Rightarrow> (bool \<times> file_reader) outcome" where
  "file_reader_validate R = Ok (True, R)"

definition file_reader_size :: "file_reader \<Rightarrow> 64 word" where
  "file_reader_size R = fsize R"

definition local_file :: "file_reader \<Rightarrow> bool" where
  "local_file R \<longleftrightarrow> stream_good R \<and> length (stream_bytes R) < 2 ^ 63 \<and> fsize R = of_nat (length (stream_bytes R))"

lemma file_reader_read_inside:
  assumes "local_file R" "off + n \<le> length (stream_bytes R)" "off + n < 2 ^ 63"
  shows "file_reader_read R off n = Ok ((int n, take n (drop off (stream_bytes R))), R)"
proof -
  have "(of_nat off + of_nat n :: 64 word) = of_nat (off + n)" by simp
  moreover have "(of_nat (off + n) :: 64 word) \<le> of_nat (length (stream_bytes R))"
    using assms by (simp add: local_file_def word_le_nat_alt unat_of_nat take_bit_nat_eq_self del: of_nat_add)
  ultimately show ?thesis using assms by (auto simp: file_reader_read_def local_file_def Let_def)
qed

interpretation local_source: file_source file_reader_read stream_bytes local_file
  by unfold_locales (auto simp: file_reader_read_inside)

end
