(* ===== verification/File_Mapper.thy ===== *)
theory File_Mapper
  imports File_Reader
begin

text \<open>
  \<open>src/src/backend/utils/file_mapper.cpp\<close>, \<open>file_mapper.hpp\<close> and \<open>bounded_chunk.hpp\<close>: a file whose bytes
  are fetched into a buffer of its size piece by piece, when they are asked for. Pointers into the
  buffer are given by their distance from its beginning.
\<close>

record 's file_mapper =
  fr :: 's
  allocated_size :: "64 word"
  map_data :: "string option"
  chunks :: "(64 word \<times> 64 word) list"

text \<open>
  The constructor. When the reader cannot be opened the size stays uninitialised (\<open>garbage\<close>) and
  there is no buffer; otherwise a buffer of zeros of the size of the file is allocated.
\<close>

definition new_file_mapper ::
  "('s \<Rightarrow> (bool \<times> 's) outcome) \<Rightarrow> ('s \<Rightarrow> 64 word) \<Rightarrow> (nat \<Rightarrow> bool) \<Rightarrow> 64 word \<Rightarrow> 's \<Rightarrow> 's file_mapper outcome" where
  "new_file_mapper validate size_of allocates garbage s =
     bind_o (validate s) (\<lambda>(ok, s').
       if \<not> ok then Ok \<lparr>fr = s', allocated_size = garbage, map_data = None, chunks = []\<rparr>
       else if \<not> allocates (unat (size_of s')) then Throw
       else Ok \<lparr>fr = s', allocated_size = size_of s', map_data = Some (replicate (unat (size_of s')) (CHR 0x00)), chunks = []\<rparr>)"

definition in_bound :: "'s file_mapper \<Rightarrow> 64 word \<Rightarrow> 64 word \<Rightarrow> bool" where
  "in_bound M offset size_v \<longleftrightarrow> size_v + offset \<le> allocated_size M"

definition minimum_read_size :: "'s file_mapper \<Rightarrow> 64 word \<Rightarrow> 64 word \<Rightarrow> 64 word" where
  "minimum_read_size M offset size_v = min (allocated_size M - offset) (max (1024 * 16) size_v)"

text \<open>
  The interval set joins intervals that touch, so the interval that a chunk meets contains it
  exactly when every position of the chunk belongs to some chunk added before; the empty chunk is
  not found.
\<close>

definition covered :: "(64 word \<times> 64 word) list \<Rightarrow> nat \<Rightarrow> bool" where
  "covered chs i = list_ex (\<lambda>(lo, hi). unat lo \<le> i \<and> i < unat hi) chs"

definition chunk_contained :: "(64 word \<times> 64 word) list \<Rightarrow> 64 word \<Rightarrow> 64 word \<Rightarrow> bool" where
  "chunk_contained chs lo hi \<longleftrightarrow> lo < hi \<and> list_all (covered chs) [unat lo..<unat hi]"

definition overwrite :: "nat \<Rightarrow> string \<Rightarrow> string \<Rightarrow> string" where
  "overwrite off bs d = take off d @ bs @ drop (off + length bs) d"

definition map_chunk :: "'s reader \<Rightarrow> 's file_mapper \<Rightarrow> 64 word \<Rightarrow> 64 word \<Rightarrow> (bool \<times> 's file_mapper) outcome" where
  "map_chunk rd M offset size_v =
     (if in_bound M offset size_v then
        let end_v = offset + minimum_read_size M offset size_v
        in if chunk_contained (chunks M) offset end_v then Ok (True, M)
           else bind_o (rd (fr M) (unat offset) (unat (end_v - offset))) (\<lambda>((r, bs), s').
             case map_data M of
               None \<Rightarrow> UB
             | Some d \<Rightarrow>
                 if unat offset + length bs > length d then UB
                 else let M' = M\<lparr>fr := s', map_data := Some (overwrite (unat offset) bs d)\<rparr>
                   in if 0 < r then Ok (True, M'\<lparr>chunks := (offset, end_v) # chunks M\<rparr>) else Ok (False, M'))
      else Ok (False, M))"

definition map_chunk_by_pointer :: "'s reader \<Rightarrow> 's file_mapper \<Rightarrow> nat \<Rightarrow> nat \<Rightarrow> (bool \<times> 's file_mapper) outcome" where
  "map_chunk_by_pointer rd M p size_v =
     (if 0 \<le> sint (of_nat p :: 64 word) then map_chunk rd M (of_nat p) (of_nat size_v) else Ok (False, M))"

text \<open>Bytes read through a pointer into the buffer, and little-endian numbers.\<close>

definition bytes_at :: "'s file_mapper \<Rightarrow> nat \<Rightarrow> nat \<Rightarrow> string outcome" where
  "bytes_at M p n =
     (case map_data M of None \<Rightarrow> UB | Some d \<Rightarrow> if p + n \<le> length d then Ok (take n (drop p d)) else UB)"

fun le_value :: "string \<Rightarrow> nat" where
  "le_value [] = 0"
| "le_value (c # cs) = of_char c + 256 * le_value cs"

definition number_at :: "'s file_mapper \<Rightarrow> nat \<Rightarrow> nat \<Rightarrow> nat outcome" where
  "number_at M p n = bind_o (bytes_at M p n) (\<lambda>bs. Ok (le_value bs))"

section \<open>Lemmas\<close>

lemma le_value_bound: "le_value bs < 256 ^ length bs"
proof (induction bs)
  case (Cons c cs)
  have "of_char c < (256 :: nat)" by simp
  with Cons have "of_char c + 256 * le_value cs < 256 * 256 ^ length cs" by linarith
  then show ?case by simp
qed simp

lemma number_at_bound: "number_at M p n = Ok v \<Longrightarrow> v < 256 ^ n"
proof -
  assume "number_at M p n = Ok v"
  then obtain d where "p + n \<le> length d" "v = le_value (take n (drop p d))"
    by (auto simp: number_at_def bytes_at_def split: option.splits if_splits)
  with le_value_bound [of "take n (drop p d)"] show "v < 256 ^ n" by simp
qed

lemma length_overwrite: "off + length bs \<le> length d \<Longrightarrow> length (overwrite off bs d) = length d"
  by (simp add: overwrite_def)

lemma nth_overwrite:
  "off + length bs \<le> length d \<Longrightarrow> i < length d \<Longrightarrow>
   overwrite off bs d ! i = (if off \<le> i \<and> i < off + length bs then bs ! (i - off) else d ! i)"
  by (auto simp: overwrite_def nth_append min_def)

lemma covered_Cons: "covered ((lo, hi) # chs) i \<longleftrightarrow> (unat lo \<le> i \<and> i < unat hi) \<or> covered chs i"
  by (simp add: covered_def)

lemma chunk_contained_iff:
  "chunk_contained chs lo hi \<longleftrightarrow> lo < hi \<and> (\<forall>i. unat lo \<le> i \<and> i < unat hi \<longrightarrow> covered chs i)"
  by (auto simp: chunk_contained_def list_all_iff)

text \<open>
  A sound mapper over a readable file: the buffer has the length of the file, and where a chunk was
  mapped it has the bytes of the file.
\<close>

definition mapper_ok :: "('s \<Rightarrow> string) \<Rightarrow> ('s \<Rightarrow> bool) \<Rightarrow> 's file_mapper \<Rightarrow> bool" where
  "mapper_ok contents good M \<longleftrightarrow> good (fr M) \<and> length (contents (fr M)) < 2 ^ 63
     \<and> allocated_size M = of_nat (length (contents (fr M)))
     \<and> (\<exists>d. map_data M = Some d \<and> length d = length (contents (fr M))
          \<and> (\<forall>i. covered (chunks M) i \<longrightarrow> i < length d \<and> d ! i = contents (fr M) ! i))"

text \<open>Bounds of a chunk in the numbers of the file.\<close>

lemma chunk_bounds:
  fixes off n :: "64 word"
  assumes "L < 2 ^ 63" "allocated_size M = of_nat L" "unat off + unat n < 2 ^ 64"
  shows "in_bound M off n \<longleftrightarrow> unat off + unat n \<le> L"
    and "in_bound M off n \<Longrightarrow> unat (minimum_read_size M off n) = min (L - unat off) (max 16384 (unat n))"
    and "in_bound M off n \<Longrightarrow> unat (off + minimum_read_size M off n) = unat off + min (L - unat off) (max 16384 (unat n))"
proof -
  have L: "unat (of_nat L :: 64 word) = L" using assms(1) by (simp add: unat_of_nat take_bit_nat_eq_self)
  have "unat (n + off) = unat n + unat off" using assms(3) by (simp add: unat_word_ariths(1))
  then show ib: "in_bound M off n \<longleftrightarrow> unat off + unat n \<le> L"
    by (simp add: in_bound_def assms(2) word_le_nat_alt L add.commute)
  assume "in_bound M off n"
  with ib have le: "unat off + unat n \<le> L" by simp
  then have "off \<le> of_nat L" by (simp add: word_le_nat_alt L)
  then have s: "unat (of_nat L - off) = L - unat off" by (simp add: unat_sub L)
  show m: "unat (minimum_read_size M off n) = min (L - unat off) (max 16384 (unat n))"
    by (simp add: minimum_read_size_def assms(2) min_def max_def word_le_nat_alt s)
  have "unat off + unat (minimum_read_size M off n) \<le> L" using m le by simp
  then show "unat (off + minimum_read_size M off n) = unat off + min (L - unat off) (max 16384 (unat n))"
    using assms(1) by (simp add: unat_word_ariths(1) m)
qed

context file_source begin

lemma map_chunk_ok:
  assumes "mapper_ok contents good M" "unat off + unat n < 2 ^ 64"
  shows "\<exists>b M'. map_chunk rd M off n = Ok (b, M') \<and> mapper_ok contents good M' \<and> contents (fr M') = contents (fr M)
    \<and> (\<forall>i. covered (chunks M) i \<longrightarrow> covered (chunks M') i)
    \<and> (b \<longleftrightarrow> unat off + unat n \<le> length (contents (fr M)) \<and> unat off < length (contents (fr M)))
    \<and> (b \<longrightarrow> (\<forall>i. unat off \<le> i \<and> i < unat off + unat n \<longrightarrow> covered (chunks M') i))"
proof -
  define L where "L = length (contents (fr M))"
  obtain d where d: "map_data M = Some d" "length d = L" "L < 2 ^ 63" "allocated_size M = of_nat L" "good (fr M)"
    "\<And>i. covered (chunks M) i \<Longrightarrow> i < L \<and> d ! i = contents (fr M) ! i"
    using assms(1) by (auto simp: mapper_ok_def L_def)
  note cb = chunk_bounds [OF d(3,4) assms(2)]
  show ?thesis
  proof (cases "in_bound M off n")
    case False
    with assms(1) cb(1) show ?thesis by (auto simp: map_chunk_def L_def)
  next
    case True
    define m where "m = min (L - unat off) (max 16384 (unat n))"
    have e: "unat (off + minimum_read_size M off n) = unat off + m" using cb(3) [OF True] by (simp add: m_def)
    have le: "unat off + unat n \<le> L" using True cb(1) by simp
    then have m: "unat n \<le> m" "unat off + m \<le> L" "0 < m \<longleftrightarrow> unat off < L" by (auto simp: m_def)
    show ?thesis
    proof (cases "chunk_contained (chunks M) off (off + minimum_read_size M off n)")
      case contained: True
      then have "0 < m" "\<And>i. unat off \<le> i \<Longrightarrow> i < unat off + m \<Longrightarrow> covered (chunks M) i"
        using e by (auto simp: chunk_contained_iff word_less_nat_alt)
      with assms(1) True contained m le show ?thesis by (auto simp: map_chunk_def Let_def L_def)
    next
      case fetch: False
      have z: "unat (off + minimum_read_size M off n - off) = m" using cb(2) [OF True] by (simp add: m_def)
      obtain s' where r: "rd (fr M) (unat off) m = Ok ((int m, take m (drop (unat off) (contents (fr M)))), s')" "good s'"
        "contents s' = contents (fr M)"
        using read_inside [OF d(5), of "unat off" m] m(2) d(3) by (auto simp: L_def)
      define bs where "bs = take m (drop (unat off) (contents (fr M)))"
      have bs: "length bs = m" "\<And>i. unat off \<le> i \<Longrightarrow> i < unat off + m \<Longrightarrow> bs ! (i - unat off) = contents (fr M) ! i"
        using m(2) by (auto simp: bs_def L_def)
      define M' where "M' = M\<lparr>fr := s', map_data := Some (overwrite (unat off) bs d)\<rparr>"
      define M'' where "M'' = (if 0 < m then M'\<lparr>chunks := (off, off + minimum_read_size M off n) # chunks M\<rparr> else M')"
      have mc: "map_chunk rd M off n = Ok (0 < m, M'')"
        using True fetch z r(1) d(1,2) m(2) bs(1) by (simp add: map_chunk_def Let_def bs_def [symmetric] M''_def M'_def)
      have data: "map_data M'' = Some (overwrite (unat off) bs d)" "length (overwrite (unat off) bs d) = L"
        using bs(1) m(2) d(2) by (simp_all add: M''_def M'_def length_overwrite)
      have cov: "covered (chunks M'') i \<longleftrightarrow> (unat off \<le> i \<and> i < unat off + m) \<or> covered (chunks M) i" for i
        using e by (auto simp: M''_def M'_def covered_Cons)
      have "i < L \<and> overwrite (unat off) bs d ! i = contents (fr M) ! i" if "covered (chunks M'') i" for i
        using that d(6) [of i] bs m(2) d(2) cov by (cases "unat off \<le> i \<and> i < unat off + m") (auto simp: nth_overwrite)
      then have "mapper_ok contents good M''"
        using data r(2,3) d(3,4) by (auto simp: mapper_ok_def M''_def M'_def L_def)
      moreover have "contents (fr M'') = contents (fr M)" using r(3) by (simp add: M''_def M'_def)
      ultimately show ?thesis using mc cov m le by (auto simp: L_def)
    qed
  qed
qed

end

end
