(* ===== verification/Pe_Context.thy ===== *)
theory Pe_Context
  imports File_Mapper
begin

text \<open>
  \<open>src/src/backend/utils/pe_context.cpp\<close>: reading the version information of a Windows executable
  through a \<open>file_mapper\<close>. Offsets of fields and sizes of headers are those of the PE format. What
  libpe (a submodule) defines itself is a parameter: the largest numbers of directories and
  sections, and the size of its record for resource names; so is whether \<open>malloc\<close> succeeds.
\<close>

record pe_lib =
  max_directories :: nat
  max_sections :: nat
  data_string_size :: nat
  malloc_ok :: "nat \<Rightarrow> bool"

section \<open>Parsing the headers\<close>

datatype libpe_e =
    E_READ | NOT_A_PE_FILE | INVALID_LFANEW | INVALID_SIGNATURE | MISSING_COFF_HEADER | MISSING_OPTIONAL_HEADER
  | UNSUPPORTED_IMAGE | TOO_MANY_DIRECTORIES | TOO_MANY_SECTIONS | ALLOCATION_FAILURE

definition MAGIC_MZ :: nat where "MAGIC_MZ = 0x5A4D"
definition SIGNATURE_NE :: nat where "SIGNATURE_NE = 0x454E"
definition SIGNATURE_PE :: nat where "SIGNATURE_PE = 0x4550"
definition MAGIC_PE32 :: nat where "MAGIC_PE32 = 0x10B"
definition MAGIC_PE64 :: nat where "MAGIC_PE64 = 0x20B"

text \<open>The parsed headers: pointers to the entries of the directories and to the sections (empty for a null array).\<close>

record pe_file =
  num_sections :: nat
  num_directories :: nat
  entrypoint :: nat
  imagebase :: nat
  directories :: "nat list"
  pe_sections :: "nat list"

text \<open>The two steps \<open>parse\<close> is made of: map a piece of the file or leave with a code, and read a field.\<close>

definition need ::
  "'s reader \<Rightarrow> 's file_mapper \<Rightarrow> nat \<Rightarrow> nat \<Rightarrow> 'e \<Rightarrow> ('s file_mapper \<Rightarrow> (('e + 'a) \<times> 's file_mapper) outcome)
    \<Rightarrow> (('e + 'a) \<times> 's file_mapper) outcome" where
  "need rd M p n e k = bind_o (map_chunk_by_pointer rd M p n) (\<lambda>(ok, M'). if ok then k M' else Ok (Inl e, M'))"

definition leave :: "'s file_mapper \<Rightarrow> 'e \<Rightarrow> (('e + 'a) \<times> 's file_mapper) outcome" where
  "leave M e = Ok (Inl e, M)"

definition allocate_elements :: "pe_lib \<Rightarrow> nat \<Rightarrow> nat \<Rightarrow> nat \<Rightarrow> nat list option" where
  "allocate_elements P e_count elem_size dest_ptr =
     (if e_count = 0 then Some []
      else if malloc_ok P (e_count * 8) then Some (map (\<lambda>i. dest_ptr + i * elem_size) [0..<e_count])
      else None)"

text \<open>From the optional header on; \<open>len\<close> is its length, the other two give the place of two of its fields.\<close>

definition parse_tables ::
  "pe_lib \<Rightarrow> 's reader \<Rightarrow> nat \<Rightarrow> nat \<Rightarrow> nat \<Rightarrow> nat \<Rightarrow> nat \<times> nat \<Rightarrow> 's file_mapper \<Rightarrow> ((libpe_e + pe_file) \<times> 's file_mapper) outcome" where
  "parse_tables P rd sig coff n_sec len base M =
     (let opt = coff + 20
      in bind_o (number_at M (opt + len - 4) 4) (\<lambda>n_dir.
         bind_o (number_at M (opt + 16) 4) (\<lambda>entry.
         bind_o (number_at M (opt + fst base) (snd base)) (\<lambda>image.
         if n_dir > max_directories P then leave M TOO_MANY_DIRECTORIES
         else if n_sec > max_sections P then leave M TOO_MANY_SECTIONS
         else need rd M (opt + len) (8 * n_dir) ALLOCATION_FAILURE (\<lambda>M1.
              bind_o (number_at M1 (coff + 16) 2) (\<lambda>soh.
              let secs = sig + (4 + 20 + soh)
              in need rd M1 secs (40 * n_sec) ALLOCATION_FAILURE (\<lambda>M2.
                 case allocate_elements P n_dir 8 (opt + len) of
                   None \<Rightarrow> leave M2 ALLOCATION_FAILURE
                 | Some dirs \<Rightarrow>
                     (case allocate_elements P n_sec 40 secs of
                        None \<Rightarrow> leave M2 ALLOCATION_FAILURE
                      | Some ss \<Rightarrow> Ok (Inr \<lparr>num_sections = n_sec, num_directories = n_dir, entrypoint = entry,
                                         imagebase = image, directories = dirs, pe_sections = ss\<rparr>, M2)))))))))"

text \<open>The optional header decides between PE32 and PE32+.\<close>

definition parse_optional ::
  "pe_lib \<Rightarrow> 's reader \<Rightarrow> nat \<Rightarrow> nat \<Rightarrow> 's file_mapper \<Rightarrow> ((libpe_e + pe_file) \<times> 's file_mapper) outcome" where
  "parse_optional P rd sig n_sec M =
     bind_o (number_at M (sig + 24) 2) (\<lambda>type.
       if type = MAGIC_PE32 then
         need rd M (sig + 24) 96 MISSING_OPTIONAL_HEADER (parse_tables P rd sig (sig + 4) n_sec 96 (28, 4))
       else if type = MAGIC_PE64 then
         need rd M (sig + 24) 112 MISSING_OPTIONAL_HEADER (parse_tables P rd sig (sig + 4) n_sec 112 (24, 8))
       else leave M UNSUPPORTED_IMAGE)"

text \<open>The signature, and the COFF header behind it.\<close>

definition parse_image ::
  "pe_lib \<Rightarrow> 's reader \<Rightarrow> nat \<Rightarrow> 's file_mapper \<Rightarrow> ((libpe_e + pe_file) \<times> 's file_mapper) outcome" where
  "parse_image P rd sig M =
     bind_o (number_at M sig 4) (\<lambda>signature.
       if signature \<noteq> SIGNATURE_NE \<and> signature \<noteq> SIGNATURE_PE then leave M INVALID_SIGNATURE
       else need rd M (sig + 4) 20 MISSING_COFF_HEADER (\<lambda>M1.
            bind_o (number_at M1 (sig + 6) 2) (\<lambda>n_sec.
            need rd M1 (sig + 24) 2 MISSING_OPTIONAL_HEADER (parse_optional P rd sig n_sec))))"

definition parse :: "pe_lib \<Rightarrow> 's reader \<Rightarrow> 's file_mapper \<Rightarrow> ((libpe_e + pe_file) \<times> 's file_mapper) outcome" where
  "parse P rd M =
     bind_o (map_chunk rd M 0 64) (\<lambda>(ok, M1).
     if \<not> ok then leave M1 E_READ
     else bind_o (number_at M1 0 2) (\<lambda>magic.
       if magic \<noteq> MAGIC_MZ then leave M1 NOT_A_PE_FILE
       else bind_o (number_at M1 60 4) (\<lambda>sig. need rd M1 sig 4 INVALID_LFANEW (parse_image P rd sig))))"

section \<open>Addresses\<close>

fun rva_scan :: "'s file_mapper \<Rightarrow> nat list \<Rightarrow> nat \<Rightarrow> nat option outcome" where
  "rva_scan M [] rva = Ok None"
| "rva_scan M (s # ss) rva =
     bind_o (number_at M (s + 8) 4) (\<lambda>vsize.
     bind_o (number_at M (s + 16) 4) (\<lambda>rsize.
     bind_o (number_at M (s + 12) 4) (\<lambda>va.
     bind_o (number_at M (s + 20) 4) (\<lambda>raw.
       if va \<le> rva \<and> va + (if vsize = 0 then rsize else vsize) > rva then Ok (Some (rva - va + raw))
       else rva_scan M ss rva))))"

definition pe_rva2ofs :: "'s file_mapper \<Rightarrow> pe_file \<Rightarrow> nat \<Rightarrow> nat outcome" where
  "pe_rva2ofs M pe rva =
     (if rva = 0 \<or> pe_sections pe = [] then Ok 0
      else bind_o (rva_scan M (pe_sections pe) rva) (\<lambda>found.
        case found of
          Some ofs \<Rightarrow> Ok ofs
        | None \<Rightarrow>
            if num_sections pe = 1 then
              bind_o (number_at M (hd (pe_sections pe) + 12) 4) (\<lambda>va.
              bind_o (number_at M (hd (pe_sections pe) + 20) 4) (\<lambda>raw.
                Ok ((rva + (2 ^ 64 - va) + raw) mod 2 ^ 64)))
            else Ok rva))"

definition pe_directory_by_entry :: "pe_file \<Rightarrow> nat \<Rightarrow> nat option" where
  "pe_directory_by_entry pe entry =
     (if directories pe = [] \<or> entry > num_directories pe - 1 then None else Some (directories pe ! entry))"

definition IMAGE_DIRECTORY_ENTRY_RESOURCE :: nat where "IMAGE_DIRECTORY_ENTRY_RESOURCE = 2"

section \<open>The headers of a file\<close>

text \<open>
  The reference: the same decisions on the bytes of a file, a piece being there when it begins and
  ends inside the file.
\<close>

definition inside :: "string \<Rightarrow> nat \<Rightarrow> nat \<Rightarrow> bool" where
  "inside bytes p n \<longleftrightarrow> p < length bytes \<and> p + n \<le> length bytes"

definition field :: "string \<Rightarrow> nat \<Rightarrow> nat \<Rightarrow> nat" where
  "field bytes p n = le_value (take n (drop p bytes))"

definition tables_of_file :: "pe_lib \<Rightarrow> string \<Rightarrow> nat \<Rightarrow> nat \<Rightarrow> nat \<times> nat \<Rightarrow> libpe_e + pe_file" where
  "tables_of_file P bytes sig len base =
     (let coff = sig + 4; opt = coff + 20; n_sec = field bytes (coff + 2) 2; n_dir = field bytes (opt + len - 4) 4;
          secs = sig + (4 + 20 + field bytes (coff + 16) 2)
      in if n_dir > max_directories P then Inl TOO_MANY_DIRECTORIES
         else if n_sec > max_sections P then Inl TOO_MANY_SECTIONS
         else if inside bytes (opt + len) (8 * n_dir) then
           (if inside bytes secs (40 * n_sec) then
              (case (allocate_elements P n_dir 8 (opt + len), allocate_elements P n_sec 40 secs) of
                 (Some dirs, Some ss) \<Rightarrow>
                   Inr \<lparr>num_sections = n_sec, num_directories = n_dir, entrypoint = field bytes (opt + 16) 4,
                     imagebase = field bytes (opt + fst base) (snd base), directories = dirs, pe_sections = ss\<rparr>
               | _ \<Rightarrow> Inl ALLOCATION_FAILURE)
            else Inl ALLOCATION_FAILURE)
         else Inl ALLOCATION_FAILURE)"

definition optional_of_file :: "pe_lib \<Rightarrow> string \<Rightarrow> nat \<Rightarrow> libpe_e + pe_file" where
  "optional_of_file P bytes sig =
     (if field bytes (sig + 24) 2 = MAGIC_PE32 then
        (if inside bytes (sig + 24) 96 then tables_of_file P bytes sig 96 (28, 4) else Inl MISSING_OPTIONAL_HEADER)
      else if field bytes (sig + 24) 2 = MAGIC_PE64 then
        (if inside bytes (sig + 24) 112 then tables_of_file P bytes sig 112 (24, 8) else Inl MISSING_OPTIONAL_HEADER)
      else Inl UNSUPPORTED_IMAGE)"

definition image_of_file :: "pe_lib \<Rightarrow> string \<Rightarrow> nat \<Rightarrow> libpe_e + pe_file" where
  "image_of_file P bytes sig =
     (if field bytes sig 4 \<noteq> SIGNATURE_NE \<and> field bytes sig 4 \<noteq> SIGNATURE_PE then Inl INVALID_SIGNATURE
      else if inside bytes (sig + 4) 20 then
        (if inside bytes (sig + 24) 2 then optional_of_file P bytes sig else Inl MISSING_OPTIONAL_HEADER)
      else Inl MISSING_COFF_HEADER)"

definition headers_of_file :: "pe_lib \<Rightarrow> string \<Rightarrow> libpe_e + pe_file" where
  "headers_of_file P bytes =
     (if \<not> inside bytes 0 64 then Inl E_READ
      else if field bytes 0 2 \<noteq> MAGIC_MZ then Inl NOT_A_PE_FILE
      else if inside bytes (field bytes 60 4) 4 then image_of_file P bytes (field bytes 60 4)
      else Inl INVALID_LFANEW)"

lemma field_bound: "field bytes p n < 256 ^ n"
proof -
  have "field bytes p n < 256 ^ length (take n (drop p bytes))" by (simp only: field_def le_value_bound)
  also have "\<dots> \<le> 256 ^ n" by (rule power_increasing) simp_all
  finally show ?thesis .
qed

text \<open>Which parts of the buffer are mapped.\<close>

definition has :: "'s file_mapper \<Rightarrow> nat \<Rightarrow> nat \<Rightarrow> bool" where
  "has M p n \<longleftrightarrow> (\<forall>i. p \<le> i \<and> i < p + n \<longrightarrow> covered (chunks M) i)"

lemma has_part: "has M p n \<Longrightarrow> p \<le> q \<Longrightarrow> q + m \<le> p + n \<Longrightarrow> has M q m"
  by (auto simp: has_def)

definition maps :: "('s \<Rightarrow> string) \<Rightarrow> ('s \<Rightarrow> bool) \<Rightarrow> string \<Rightarrow> 's file_mapper \<Rightarrow> bool" where
  "maps contents good bytes M \<longleftrightarrow> mapper_ok contents good M \<and> contents (fr M) = bytes"

lemma maps_number:
  assumes "maps contents good bytes M" "has M p n" "0 < n"
  shows "number_at M p n = Ok (field bytes p n)"
proof -
  obtain d where d: "map_data M = Some d" "length d = length bytes" "\<And>i. covered (chunks M) i \<Longrightarrow> i < length d \<and> d ! i = bytes ! i"
    using assms(1) by (auto simp: maps_def mapper_ok_def)
  have le: "p + n \<le> length d"
    using assms(2,3) d(3) [of "p + n - 1"] by (auto simp: has_def)
  have "take n (drop p d) = take n (drop p bytes)"
    by (rule nth_equalityI) (use le d assms(2) in \<open>auto simp: has_def\<close>)
  with d(1) le show ?thesis by (simp add: number_at_def bytes_at_def field_def)
qed

text \<open>An outcome that returns a given result and leaves the mapper sound.\<close>

definition returns :: "('s \<Rightarrow> string) \<Rightarrow> ('s \<Rightarrow> bool) \<Rightarrow> string \<Rightarrow> ('a \<Rightarrow> 's file_mapper \<Rightarrow> bool) \<Rightarrow> ('a \<times> 's file_mapper) outcome \<Rightarrow> 'a \<Rightarrow> bool" where
  "returns contents good bytes Q r x \<longleftrightarrow> (\<exists>M'. r = Ok (x, M') \<and> maps contents good bytes M' \<and> Q x M')"

lemma returns_leave: "maps contents good bytes M \<Longrightarrow> Q (Inl e) M \<Longrightarrow> returns contents good bytes Q (leave M e) (Inl e)"
  by (simp add: returns_def leave_def)

lemma returns_if:
  "(c \<Longrightarrow> returns contents good bytes Q r1 x1) \<Longrightarrow> (\<not> c \<Longrightarrow> returns contents good bytes Q r2 x2) \<Longrightarrow>
   returns contents good bytes Q (if c then r1 else r2) (if c then x1 else x2)"
  by simp

context file_source begin

lemma map_pointer:
  assumes "maps contents good bytes M" "p + n < 2 ^ 63"
  shows "\<exists>M'. map_chunk_by_pointer rd M p n = Ok (inside bytes p n, M') \<and> maps contents good bytes M'
    \<and> (\<forall>q m. has M q m \<longrightarrow> has M' q m) \<and> (inside bytes p n \<longrightarrow> has M' p n)"
proof -
  have w: "unat (of_nat p :: 64 word) = p" "unat (of_nat n :: 64 word) = n" "sint (of_nat p :: 64 word) = int p"
    using assms(2) by (simp_all add: unat_of_nat take_bit_nat_eq_self signed_of_nat signed_take_bit_int_eq_self)
  have ok: "mapper_ok contents good M" "contents (fr M) = bytes" using assms(1) by (simp_all add: maps_def)
  have "unat (of_nat p :: 64 word) + unat (of_nat n :: 64 word) < 2 ^ 64" using assms(2) by (simp add: w)
  from map_chunk_ok [OF ok(1) this]
  show ?thesis by (auto simp: map_chunk_by_pointer_def w ok(2) inside_def maps_def has_def)
qed

lemma returns_need:
  assumes "maps contents good bytes M" "p + n < 2 ^ 63" "\<And>M'. Q (Inl e) M'"
    and "\<And>M'. maps contents good bytes M' \<Longrightarrow> (\<And>q m. has M q m \<Longrightarrow> has M' q m) \<Longrightarrow> has M' p n \<Longrightarrow>
      returns contents good bytes Q (k M') x"
  shows "returns contents good bytes Q (need rd M p n e k) (if inside bytes p n then x else Inl e)"
proof -
  obtain M' where m: "map_chunk_by_pointer rd M p n = Ok (inside bytes p n, M')" "maps contents good bytes M'"
    "\<forall>q m. has M q m \<longrightarrow> has M' q m" "inside bytes p n \<longrightarrow> has M' p n"
    using map_pointer [OF assms(1,2)] by blast
  show ?thesis
  proof (cases "inside bytes p n")
    case True
    with m assms(4) [of M'] show ?thesis by (simp add: need_def)
  next
    case False
    with m assms(3) show ?thesis by (simp add: need_def returns_def)
  qed
qed

end

text \<open>What a successful parse leaves mapped: the entries of the directories and the section headers.\<close>

definition tables_mapped :: "libpe_e + pe_file \<Rightarrow> 's file_mapper \<Rightarrow> bool" where
  "tables_mapped x M \<longleftrightarrow>
     (case x of Inl _ \<Rightarrow> True
      | Inr pe \<Rightarrow> length (directories pe) = num_directories pe \<and> length (pe_sections pe) = num_sections pe
          \<and> (\<forall>d \<in> set (directories pe). has M d 8) \<and> (\<forall>s \<in> set (pe_sections pe). has M s 40))"

lemma allocate_elements_Some:
  assumes "allocate_elements P n k p = Some xs" "has M p (k * n)"
  shows "length xs = n \<and> (\<forall>x \<in> set xs. has M x k)"
proof -
  have "has M (p + i * k) k" if "i < n" for i
  proof (rule has_part [OF assms(2)])
    have "i * k + k \<le> n * k" using that by (metis add.commute mult_Suc mult_le_mono1 Suc_leI)
    then show "p + i * k + k \<le> p + k * n" by (simp add: mult.commute)
  qed simp
  then show ?thesis using assms(1) by (auto simp: allocate_elements_def split: if_splits)
qed

context file_source begin

lemma parse_tables_returns:
  assumes "maps contents good bytes M" "has M (sig + 4) 20" "has M (sig + 24) len" "sig < 2 ^ 32" "20 \<le> len" "len < 1000"
    "0 < snd base" "fst base + snd base \<le> len"
  shows "returns contents good bytes tables_mapped
     (parse_tables P rd sig (sig + 4) (field bytes (sig + 6) 2) len base M) (tables_of_file P bytes sig len base)"
proof -
  define n_dir where "n_dir = field bytes (sig + 24 + len - 4) 4"
  define n_sec where "n_sec = field bytes (sig + 6) 2"
  have b: "n_dir < 2 ^ 32" "n_sec < 2 ^ 16" "field bytes (sig + 20) 2 < 2 ^ 16"
    using field_bound [of bytes "sig + 24 + len - 4" 4] field_bound [of bytes _ 2] by (simp_all add: n_dir_def n_sec_def)
  have r: "number_at M (sig + 24 + len - 4) 4 = Ok n_dir" "number_at M (sig + 40) 4 = Ok (field bytes (sig + 40) 4)"
    "number_at M (sig + 24 + fst base) (snd base) = Ok (field bytes (sig + 24 + fst base) (snd base))"
    using assms unfolding n_dir_def by (auto intro!: maps_number [OF assms(1)] has_part [OF assms(3)])
  have r2: "number_at M1 (sig + 20) 2 = Ok (field bytes (sig + 20) 2)"
    if "maps contents good bytes M1" "\<And>q m. has M q m \<Longrightarrow> has M1 q m" for M1
    by (rule maps_number [OF that(1)]) (auto intro: has_part [OF that(2) [OF assms(2)]])
  have e: "sig + 4 + 20 = sig + 24" "sig + 4 + 2 = sig + 6" "sig + 4 + 16 = sig + 20" "sig + 24 + 16 = sig + 40" by simp_all
  have step: "returns contents good bytes tables_mapped
      (bind_o (number_at M1 (sig + 20) 2) (\<lambda>soh. need rd M1 (sig + (4 + 20 + soh)) (40 * n_sec) ALLOCATION_FAILURE (k soh)))
      (if inside bytes (sig + (4 + 20 + field bytes (sig + 20) 2)) (40 * n_sec) then x else Inl ALLOCATION_FAILURE)"
    if "maps contents good bytes M1" "\<And>q m. has M q m \<Longrightarrow> has M1 q m"
      "\<And>M2. maps contents good bytes M2 \<Longrightarrow> (\<And>q m. has M1 q m \<Longrightarrow> has M2 q m) \<Longrightarrow>
         has M2 (sig + (4 + 20 + field bytes (sig + 20) 2)) (40 * n_sec) \<Longrightarrow>
         returns contents good bytes tables_mapped (k (field bytes (sig + 20) 2) M2) x" for M1 k x
  proof -
    have "number_at M1 (sig + 20) 2 = Ok (field bytes (sig + 20) 2)" by (rule r2) (use that(1,2) in auto)
    moreover have "returns contents good bytes tables_mapped
        (need rd M1 (sig + (4 + 20 + field bytes (sig + 20) 2)) (40 * n_sec) ALLOCATION_FAILURE (k (field bytes (sig + 20) 2)))
        (if inside bytes (sig + (4 + 20 + field bytes (sig + 20) 2)) (40 * n_sec) then x else Inl ALLOCATION_FAILURE)"
      by (rule returns_need [OF that(1)]) (use assms(4) b that(3) in \<open>auto simp: tables_mapped_def\<close>)
    ultimately show ?thesis by simp
  qed
  show ?thesis
    unfolding parse_tables_def tables_of_file_def Let_def e n_sec_def [symmetric] n_dir_def [symmetric] r bind_o.simps
  proof (intro returns_if returns_leave assms(1) returns_need step)
    fix M1 M2
    assume M1: "has M1 (sig + 24 + len) (8 * n_dir)" and M2: "maps contents good bytes M2"
      "\<And>q m. has M1 q m \<Longrightarrow> has M2 q m" "has M2 (sig + (4 + 20 + field bytes (sig + 20) 2)) (40 * n_sec)"
    from M1 M2(2) have h: "has M2 (sig + 24 + len) (8 * n_dir)" by blast
    show "returns contents good bytes tables_mapped
        (case allocate_elements P n_dir 8 (sig + 24 + len) of None \<Rightarrow> leave M2 ALLOCATION_FAILURE
         | Some dirs \<Rightarrow> (case allocate_elements P n_sec 40 (sig + (4 + 20 + field bytes (sig + 20) 2)) of
             None \<Rightarrow> leave M2 ALLOCATION_FAILURE
           | Some ss \<Rightarrow> Ok (Inr \<lparr>num_sections = n_sec, num_directories = n_dir, entrypoint = field bytes (sig + 40) 4,
               imagebase = field bytes (sig + 24 + fst base) (snd base), directories = dirs, pe_sections = ss\<rparr>, M2)))
        (case (allocate_elements P n_dir 8 (sig + 24 + len), allocate_elements P n_sec 40 (sig + (4 + 20 + field bytes (sig + 20) 2))) of
           (Some dirs, Some ss) \<Rightarrow> Inr \<lparr>num_sections = n_sec, num_directories = n_dir, entrypoint = field bytes (sig + 40) 4,
               imagebase = field bytes (sig + 24 + fst base) (snd base), directories = dirs, pe_sections = ss\<rparr>
         | _ \<Rightarrow> Inl ALLOCATION_FAILURE)"
      using M2(1) allocate_elements_Some [OF _ h] allocate_elements_Some [OF _ M2(3)]
      by (auto simp: returns_def leave_def tables_mapped_def split: option.split)
  qed (use assms(4,6) b in \<open>auto simp: tables_mapped_def\<close>)
qed

lemma parse_optional_returns:
  assumes "maps contents good bytes M" "has M (sig + 4) 20" "has M (sig + 24) 2" "sig < 2 ^ 32"
  shows "returns contents good bytes tables_mapped (parse_optional P rd sig (field bytes (sig + 6) 2) M) (optional_of_file P bytes sig)"
proof -
  have r: "number_at M (sig + 24) 2 = Ok (field bytes (sig + 24) 2)" by (rule maps_number [OF assms(1,3)]) simp
  show ?thesis
    unfolding parse_optional_def optional_of_file_def r bind_o.simps
    by (intro returns_if returns_leave returns_need parse_tables_returns assms(1))
      (use assms(2,4) in \<open>auto simp: tables_mapped_def\<close>)
qed

lemma parse_image_returns:
  assumes "maps contents good bytes M" "has M sig 4" "sig < 2 ^ 32"
  shows "returns contents good bytes tables_mapped (parse_image P rd sig M) (image_of_file P bytes sig)"
proof -
  have r: "number_at M sig 4 = Ok (field bytes sig 4)" by (rule maps_number [OF assms(1,2)]) simp
  have step: "returns contents good bytes tables_mapped
      (bind_o (number_at M1 (sig + 6) 2) (\<lambda>n_sec. need rd M1 (sig + 24) 2 MISSING_OPTIONAL_HEADER (parse_optional P rd sig n_sec)))
      (if inside bytes (sig + 24) 2 then optional_of_file P bytes sig else Inl MISSING_OPTIONAL_HEADER)"
    if M1: "maps contents good bytes M1" "has M1 (sig + 4) 20" for M1
  proof -
    have r1: "number_at M1 (sig + 6) 2 = Ok (field bytes (sig + 6) 2)"
      by (rule maps_number [OF M1(1)]) (auto intro: has_part [OF M1(2)])
    show ?thesis
      unfolding r1 bind_o.simps
      by (intro returns_need parse_optional_returns M1(1)) (use assms(3) M1(2) in \<open>auto simp: tables_mapped_def\<close>)
  qed
  show ?thesis
    unfolding parse_image_def image_of_file_def r bind_o.simps
    by (intro returns_if returns_leave returns_need step assms(1)) (use assms(3) in \<open>auto simp: tables_mapped_def\<close>)
qed

lemma parse_returns:
  assumes "maps contents good bytes M"
  shows "returns contents good bytes tables_mapped (parse P rd M) (headers_of_file P bytes)"
proof -
  obtain M1 where M1: "map_chunk rd M 0 64 = Ok (inside bytes 0 64, M1)" "maps contents good bytes M1"
      "inside bytes 0 64 \<Longrightarrow> has M1 0 64"
    using map_pointer [OF assms, of 0 64] by (auto simp: map_chunk_by_pointer_def)
  show ?thesis
  proof (cases "inside bytes 0 64")
    case True
    then have h: "has M1 0 64" by (rule M1(3))
    have r: "number_at M1 0 2 = Ok (field bytes 0 2)" "number_at M1 60 4 = Ok (field bytes 60 4)"
      by (auto intro!: maps_number [OF M1(2)] has_part [OF h])
    have b: "field bytes 60 4 < 2 ^ 32" using field_bound [of bytes 60 4] by simp
    have "returns contents good bytes tables_mapped
       (if field bytes 0 2 \<noteq> MAGIC_MZ then leave M1 NOT_A_PE_FILE
        else need rd M1 (field bytes 60 4) 4 INVALID_LFANEW (parse_image P rd (field bytes 60 4)))
       (if field bytes 0 2 \<noteq> MAGIC_MZ then Inl NOT_A_PE_FILE
        else if inside bytes (field bytes 60 4) 4 then image_of_file P bytes (field bytes 60 4) else Inl INVALID_LFANEW)"
      by (intro returns_if returns_leave returns_need parse_image_returns M1(2)) (use b in \<open>auto simp: tables_mapped_def\<close>)
    with True show ?thesis
      unfolding parse_def headers_of_file_def M1(1) bind_o.simps prod.case r by (simp only: if_False simp_thms not_True_eq_False)
  next
    case False
    with M1 show ?thesis by (simp add: parse_def headers_of_file_def returns_def leave_def tables_mapped_def)
  qed
qed

end

end
