(* ===== verification/Pe_Resources.thy ===== *)
theory Pe_Resources
  imports Pe_Context
begin

text \<open>
  \<open>src/src/backend/utils/pe_context.cpp\<close>, continued: the walk through the resource directories
  (\<open>discoveryNodesPeres\<close>) and the version strings (\<open>extract_info\<close>). The linked list of nodes is the list of
  the nodes from the newest to the root; creating a node adds one in front; \<open>Pe_Nodes\<close>
  has the pointers. Allocation of nodes does not fail.
\<close>

section \<open>Nodes\<close>

datatype node_type = RDT_RESOURCE_DIRECTORY | RDT_DIRECTORY_ENTRY | RDT_DATA_STRING | RDT_DATA_ENTRY

text \<open>A node points at its piece of the file; its root is always the directory entry of a first-level node.\<close>

record pe_node =
  node_type :: node_type
  node_level :: nat
  root_entry :: "nat option"
  resource :: nat

definition mk_node :: "node_type \<Rightarrow> nat \<Rightarrow> nat option \<Rightarrow> nat \<Rightarrow> pe_node" where
  "mk_node t l r p = \<lparr>node_type = t, node_level = l, root_entry = r, resource = p\<rparr>"

definition lastNodeByTypeAndLevel :: "pe_node list \<Rightarrow> node_type \<Rightarrow> nat \<Rightarrow> pe_node option" where
  "lastNodeByTypeAndLevel nodes t l = find (\<lambda>n. node_type n = t \<and> node_level n = l) nodes"

definition lastNodeByType :: "pe_node list \<Rightarrow> node_type \<Rightarrow> pe_node option" where
  "lastNodeByType nodes t = find (\<lambda>n. node_type n = t) nodes"

text \<open>Fields of the resource structures; the bit fields of an entry share a number with their flag.\<close>

definition deref :: "pe_node option \<Rightarrow> nat outcome" where
  "deref n = (case n of None \<Rightarrow> UB | Some n \<Rightarrow> Ok (resource n))"

definition entry_count :: "'s file_mapper \<Rightarrow> pe_node list \<Rightarrow> nat \<Rightarrow> nat outcome" where
  "entry_count M nodes l =
     bind_o (deref (lastNodeByTypeAndLevel nodes RDT_RESOURCE_DIRECTORY l)) (\<lambda>p.
     bind_o (number_at M (p + 12) 2) (\<lambda>named. bind_o (number_at M (p + 14) 2) (\<lambda>ids. Ok (named + ids))))"

definition directory_data :: "'s file_mapper \<Rightarrow> pe_node list \<Rightarrow> nat \<Rightarrow> (nat \<times> bool) outcome" where
  "directory_data M nodes l =
     bind_o (deref (lastNodeByTypeAndLevel nodes RDT_DIRECTORY_ENTRY l)) (\<lambda>p.
     bind_o (number_at M (p + 4) 4) (\<lambda>v. Ok (v mod 2 ^ 31, v div 2 ^ 31 = 1)))"

lemma entry_count_bound:
  assumes "entry_count M nodes l = Ok n"
  shows "n \<le> 131070"
proof -
  obtain p a b where "number_at M (p + 12) 2 = Ok a" "number_at M (p + 14) 2 = Ok b" "n = a + b"
    using assms by (auto simp: entry_count_def bind_o_Ok_iff)
  with number_at_bound [of M "p + 12" 2 a] number_at_bound [of M "p + 14" 2 b] show ?thesis by simp
qed

type_synonym 's walk = "((unit + pe_node list) \<times> 's file_mapper) outcome"

text \<open>The node for the name of an entry that is a string; the offset moves to the string.\<close>

definition name_node ::
  "pe_lib \<Rightarrow> 's reader \<Rightarrow> nat \<Rightarrow> 's file_mapper \<Rightarrow> nat \<Rightarrow> nat \<Rightarrow> nat option \<Rightarrow> pe_node list \<Rightarrow> (nat \<Rightarrow> pe_node list \<Rightarrow> 's file_mapper \<Rightarrow> 's walk) \<Rightarrow> 's walk" where
  "name_node P rd rdo M entry l root nodes k =
     bind_o (number_at M entry 4) (\<lambda>v.
       if v div 2 ^ 31 = 1 then
         need rd M (rdo + v mod 2 ^ 31) (data_string_size P) () (\<lambda>M1.
           k (rdo + v mod 2 ^ 31) (mk_node RDT_DATA_STRING l root (rdo + v mod 2 ^ 31) # nodes) M1)
       else k entry nodes M)"

definition continue_with :: "'s walk \<Rightarrow> (pe_node list \<Rightarrow> 's file_mapper \<Rightarrow> 's walk) \<Rightarrow> 's walk" where
  "continue_with r k = bind_o r (\<lambda>(x, M). case x of Inl e \<Rightarrow> Ok (Inl e, M) | Inr nodes \<Rightarrow> k nodes M)"

lemma need_cong [fundef_cong]:
  assumes "M = N" "\<And>M'. k M' = k' M'"
  shows "need rd M p n e k = need rd N p n e k'"
proof -
  have "k = k'" using assms(2) by (rule ext)
  with assms(1) show ?thesis by simp
qed

lemma name_node_cong [fundef_cong]:
  assumes "M = N" "ns = ns'" "\<And>o' n' M'. k o' n' M' = k' o' n' M'"
  shows "name_node P rd rdo M e l root ns k = name_node P rd rdo N e l root ns' k'"
proof -
  have "k = k'" using assms(3) by (intro ext)
  with assms(1,2) show ?thesis by simp
qed

lemma continue_with_cong [fundef_cong]:
  assumes "r = r'" "\<And>ns M. k ns M = k' ns M"
  shows "continue_with r k = continue_with r' k'"
proof -
  have "k = k'" using assms(2) by (intro ext)
  with assms(1) show ?thesis by simp
qed

section \<open>The three nested loops\<close>

text \<open>
  The third level. Only the first entry leads to its own data entry: for the others the data entry
  is read where the offset happens to be.
\<close>

function level3 :: "pe_lib \<Rightarrow> 's reader \<Rightarrow> nat \<Rightarrow> nat option \<Rightarrow> nat \<Rightarrow> nat \<Rightarrow> pe_node list \<Rightarrow> 's file_mapper \<Rightarrow> 's walk" where
  "level3 P rd rdo root y ofs nodes M =
     bind_o (entry_count M nodes 3) (\<lambda>count.
       if y \<le> count then
         need rd M ofs 8 () (\<lambda>M1.
         name_node P rd rdo M1 ofs 3 root (mk_node RDT_DIRECTORY_ENTRY 3 root ofs # nodes) (\<lambda>ofs1 nodes1 M2.
         bind_o (if y = 1 then bind_o (directory_data M2 nodes1 3) (\<lambda>(off, _). Ok (rdo + off)) else Ok ofs1) (\<lambda>ofs2.
         need rd M2 ofs2 16 () (\<lambda>M3.
           level3 P rd rdo root (y + 1) (ofs2 + 16) (mk_node RDT_DATA_ENTRY 3 root ofs2 # nodes1) M3))))
       else Ok (Inr nodes, M))"
  by pat_completeness auto
termination by (relation "measure (\<lambda>(P, rd, rdo, root, y, ofs, nodes, M). 131071 - y)") (auto dest: entry_count_bound)

declare level3.simps [simp del]

function level2 :: "pe_lib \<Rightarrow> 's reader \<Rightarrow> nat \<Rightarrow> nat option \<Rightarrow> nat \<Rightarrow> nat \<Rightarrow> pe_node list \<Rightarrow> 's file_mapper \<Rightarrow> 's walk" where
  "level2 P rd rdo root j od nodes M =
     bind_o (entry_count M nodes 2) (\<lambda>count.
       if j \<le> count then
         bind_o (directory_data M nodes 1) (\<lambda>(off1, _).
         let od' = od + (if j = 1 then 16 else 8); ofs = rdo + off1 + od'
         in need rd M ofs 8 () (\<lambda>M1.
            name_node P rd rdo M1 ofs 2 root (mk_node RDT_DIRECTORY_ENTRY 2 root ofs # nodes) (\<lambda>_ nodes1 M2.
            bind_o (directory_data M2 nodes1 2) (\<lambda>(off2, _).
            need rd M2 (rdo + off2) 16 () (\<lambda>M3.
            continue_with
              (level3 P rd rdo root 1 (rdo + off2 + 16) (mk_node RDT_RESOURCE_DIRECTORY 3 root (rdo + off2) # nodes1) M3)
              (\<lambda>nodes2 M4. level2 P rd rdo root (j + 1) od' nodes2 M4))))))
       else Ok (Inr nodes, M))"
  by pat_completeness auto
termination by (relation "measure (\<lambda>(P, rd, rdo, root, j, od, nodes, M). 131071 - j)") (auto dest: entry_count_bound)

declare level2.simps [simp del]

function level1 :: "pe_lib \<Rightarrow> 's reader \<Rightarrow> nat \<Rightarrow> nat \<Rightarrow> nat \<Rightarrow> pe_node list \<Rightarrow> 's file_mapper \<Rightarrow> 's walk" where
  "level1 P rd rdo i od nodes M =
     bind_o (entry_count M nodes 1) (\<lambda>count.
       if i \<le> count then
         let od' = od + (if i = 1 then 16 else 8); ofs = rdo + od'
         in need rd M ofs 8 () (\<lambda>M1.
            name_node P rd rdo M1 ofs 1 (Some ofs) (mk_node RDT_DIRECTORY_ENTRY 1 (Some ofs) ofs # nodes) (\<lambda>_ nodes1 M2.
            bind_o (directory_data M2 nodes1 1) (\<lambda>(off, is_dir).
            if is_dir then
              need rd M2 (rdo + off) 16 () (\<lambda>M3.
              continue_with
                (level2 P rd rdo (Some ofs) 1 0 (mk_node RDT_RESOURCE_DIRECTORY 2 (Some ofs) (rdo + off) # nodes1) M3)
                (\<lambda>nodes2 M4. level1 P rd rdo (i + 1) od' nodes2 M4))
            else level1 P rd rdo (i + 1) od' nodes1 M2)))
       else Ok (Inr nodes, M))"
  by pat_completeness auto
termination by (relation "measure (\<lambda>(P, rd, rdo, i, od, nodes, M). 131071 - i)") (auto dest: entry_count_bound)

declare level1.simps [simp del]

definition discoveryNodesPeres :: "pe_lib \<Rightarrow> 's reader \<Rightarrow> pe_file \<Rightarrow> 's file_mapper \<Rightarrow> 's walk" where
  "discoveryNodesPeres P rd pe M =
     (case pe_directory_by_entry pe IMAGE_DIRECTORY_ENTRY_RESOURCE of
        None \<Rightarrow> Ok (Inl (), M)
      | Some d \<Rightarrow>
          bind_o (number_at M (d + 4) 4) (\<lambda>size_v.
          if size_v = 0 then Ok (Inl (), M)
          else bind_o (number_at M d 4) (\<lambda>va.
               bind_o (pe_rva2ofs M pe va) (\<lambda>rdo.
               need rd M rdo 16 () (\<lambda>M1. level1 P rd rdo 1 0 [mk_node RDT_RESOURCE_DIRECTORY 1 None rdo] M1)))))"

section \<open>The walk stays inside the file\<close>

fun piece_size :: "pe_lib \<Rightarrow> node_type \<Rightarrow> nat" where
  "piece_size P RDT_RESOURCE_DIRECTORY = 16"
| "piece_size P RDT_DIRECTORY_ENTRY = 8"
| "piece_size P RDT_DATA_STRING = data_string_size P"
| "piece_size P RDT_DATA_ENTRY = 16"

text \<open>Every node points at a mapped piece of the size of its structure, and so does its root.\<close>

definition nodes_ok :: "pe_lib \<Rightarrow> 's file_mapper \<Rightarrow> pe_node list \<Rightarrow> bool" where
  "nodes_ok P M nodes \<longleftrightarrow> (\<forall>n \<in> set nodes. has M (resource n) (piece_size P (node_type n))
     \<and> (\<forall>r. root_entry n = Some r \<longrightarrow> has M r 8))"

definition holds :: "pe_node list \<Rightarrow> node_type \<Rightarrow> nat \<Rightarrow> bool" where
  "holds nodes t l \<longleftrightarrow> (\<exists>n \<in> set nodes. node_type n = t \<and> node_level n = l)"

definition grows :: "'s file_mapper \<Rightarrow> 's file_mapper \<Rightarrow> bool" where
  "grows M M' \<longleftrightarrow> (\<forall>q m. has M q m \<longrightarrow> has M' q m)"

definition walk_ok :: "('s \<Rightarrow> string) \<Rightarrow> ('s \<Rightarrow> bool) \<Rightarrow> string \<Rightarrow> pe_lib \<Rightarrow> 's file_mapper \<Rightarrow> pe_node list \<Rightarrow> 's walk \<Rightarrow> bool" where
  "walk_ok contents good bytes P M nodes r \<longleftrightarrow> (\<exists>x M'. r = Ok (x, M') \<and> maps contents good bytes M' \<and> grows M M'
     \<and> (\<forall>ns. x = Inr ns \<longrightarrow> nodes_ok P M' ns \<and> set nodes \<subseteq> set ns))"

lemma grows_refl [simp]: "grows M M"
  by (simp add: grows_def)

lemma grows_trans: "grows M M1 \<Longrightarrow> grows M1 M2 \<Longrightarrow> grows M M2"
  by (simp add: grows_def)

lemma nodes_ok_grows: "nodes_ok P M nodes \<Longrightarrow> grows M M' \<Longrightarrow> nodes_ok P M' nodes"
  by (simp add: nodes_ok_def grows_def)

lemma nodes_ok_mk:
  "nodes_ok P M (mk_node t l r p # nodes) \<longleftrightarrow> has M p (piece_size P t) \<and> (\<forall>q. r = Some q \<longrightarrow> has M q 8) \<and> nodes_ok P M nodes"
  by (auto simp: nodes_ok_def mk_node_def)

lemma holds_mk [simp]: "holds (mk_node t l r p # nodes) t' l' \<longleftrightarrow> (t = t' \<and> l = l') \<or> holds nodes t' l'"
  by (auto simp: holds_def mk_node_def)

lemma holds_mono: "holds nodes t l \<Longrightarrow> set nodes \<subseteq> set ns \<Longrightarrow> holds ns t l"
  by (auto simp: holds_def)

lemma last_node:
  assumes "nodes_ok P M nodes" "holds nodes t l"
  obtains p where "deref (lastNodeByTypeAndLevel nodes t l) = Ok p" "has M p (piece_size P t)"
proof -
  obtain n where n: "lastNodeByTypeAndLevel nodes t l = Some n"
    using assms(2) by (cases "lastNodeByTypeAndLevel nodes t l") (auto simp: lastNodeByTypeAndLevel_def find_None_iff holds_def)
  then have "n \<in> set nodes" "node_type n = t" by (auto simp: lastNodeByTypeAndLevel_def find_Some_iff)
  with n assms(1) that [of "resource n"] show thesis by (auto simp: deref_def nodes_ok_def)
qed

lemma entry_count_ok:
  assumes "maps contents good bytes M" "nodes_ok P M nodes" "holds nodes RDT_RESOURCE_DIRECTORY l"
  shows "\<exists>n. entry_count M nodes l = Ok n"
proof -
  obtain p where p: "deref (lastNodeByTypeAndLevel nodes RDT_RESOURCE_DIRECTORY l) = Ok p" "has M p 16"
    using last_node [OF assms(2,3)] by auto
  have "number_at M (p + 12) 2 = Ok (field bytes (p + 12) 2)" "number_at M (p + 14) 2 = Ok (field bytes (p + 14) 2)"
    by (auto intro!: maps_number [OF assms(1)] has_part [OF p(2)])
  with p(1) show ?thesis by (simp add: entry_count_def)
qed

lemma directory_data_ok:
  assumes "maps contents good bytes M" "nodes_ok P M nodes" "holds nodes RDT_DIRECTORY_ENTRY l"
  shows "\<exists>off d. directory_data M nodes l = Ok (off, d) \<and> off < 2 ^ 31"
proof -
  obtain p where p: "deref (lastNodeByTypeAndLevel nodes RDT_DIRECTORY_ENTRY l) = Ok p" "has M p 8"
    using last_node [OF assms(2,3)] by auto
  have "number_at M (p + 4) 4 = Ok (field bytes (p + 4) 4)"
    by (auto intro!: maps_number [OF assms(1)] has_part [OF p(2)])
  with p(1) show ?thesis by (simp add: directory_data_def)
qed

lemma has_end: "maps contents good bytes M \<Longrightarrow> has M p n \<Longrightarrow> 0 < n \<Longrightarrow> p + n \<le> length bytes"
proof -
  assume a: "maps contents good bytes M" "has M p n" "0 < n"
  then have "\<forall>i. covered (chunks M) i \<longrightarrow> i < length bytes" by (auto simp: maps_def mapper_ok_def)
  moreover have "covered (chunks M) (p + n - 1)" using a(2,3) by (simp add: has_def)
  ultimately have "p + n - 1 < length bytes" by blast
  with a(3) show ?thesis by simp
qed

lemma walk_ok_weaken:
  assumes "walk_ok contents good bytes P M1 nodes1 r" "grows M M1" "set nodes \<subseteq> set nodes1"
  shows "walk_ok contents good bytes P M nodes r"
proof -
  obtain x M' where "r = Ok (x, M')" "maps contents good bytes M'" "grows M1 M'"
    "\<forall>ns. x = Inr ns \<longrightarrow> nodes_ok P M' ns \<and> set nodes1 \<subseteq> set ns"
    using assms(1) by (auto simp: walk_ok_def)
  with assms(2,3) grows_trans [OF assms(2)] show ?thesis by (auto simp: walk_ok_def)
qed

lemma walk_ok_end: "maps contents good bytes M \<Longrightarrow> nodes_ok P M nodes \<Longrightarrow> walk_ok contents good bytes P M nodes (Ok (Inr nodes, M))"
  by (simp add: walk_ok_def)

lemma walk_ok_continue:
  assumes "walk_ok contents good bytes P M nodes r"
    and "\<And>ns M1. maps contents good bytes M1 \<Longrightarrow> grows M M1 \<Longrightarrow> nodes_ok P M1 ns \<Longrightarrow> set nodes \<subseteq> set ns \<Longrightarrow>
      walk_ok contents good bytes P M1 ns (k ns M1)"
  shows "walk_ok contents good bytes P M nodes (continue_with r k)"
proof -
  obtain x M' where r: "r = Ok (x, M')" "maps contents good bytes M'" "grows M M'"
    "\<forall>ns. x = Inr ns \<longrightarrow> nodes_ok P M' ns \<and> set nodes \<subseteq> set ns"
    using assms(1) by (auto simp: walk_ok_def)
  show ?thesis
  proof (cases x)
    case (Inl e)
    with r show ?thesis by (auto simp: continue_with_def walk_ok_def)
  next
    case (Inr ns)
    with r assms(2) [of M' ns] have "walk_ok contents good bytes P M nodes (k ns M')"
      by (blast intro: walk_ok_weaken)
    with Inr r(1) show ?thesis by (simp add: continue_with_def)
  qed
qed

context file_source begin

lemma walk_ok_need:
  assumes "maps contents good bytes M" "p + n < 2 ^ 63"
    and "\<And>M'. maps contents good bytes M' \<Longrightarrow> grows M M' \<Longrightarrow> has M' p n \<Longrightarrow> walk_ok contents good bytes P M' nodes (k M')"
  shows "walk_ok contents good bytes P M nodes (need rd M p n () k)"
proof -
  obtain M' where m: "map_chunk_by_pointer rd M p n = Ok (inside bytes p n, M')" "maps contents good bytes M'"
    "grows M M'" "inside bytes p n \<longrightarrow> has M' p n"
    using map_pointer [OF assms(1,2)] by (auto simp: grows_def)
  show ?thesis
  proof (cases "inside bytes p n")
    case True
    with m assms(3) [of M'] show ?thesis by (auto simp: need_def intro: walk_ok_weaken)
  next
    case False
    with m show ?thesis by (auto simp: need_def walk_ok_def)
  qed
qed

lemma walk_ok_name:
  assumes "maps contents good bytes M" "has M e 8" "e < 2 ^ 62" "rdo < 2 ^ 62" "data_string_size P < 2 ^ 32"
    and "nodes_ok P M nodes" "\<forall>r. root = Some r \<longrightarrow> has M r 8"
    and "\<And>ofs ns M'. maps contents good bytes M' \<Longrightarrow> grows M M' \<Longrightarrow> nodes_ok P M' ns \<Longrightarrow> set nodes \<subseteq> set ns \<Longrightarrow>
      ofs < 2 ^ 62 + 2 ^ 31 \<Longrightarrow> walk_ok contents good bytes P M' ns (k ofs ns M')"
  shows "walk_ok contents good bytes P M nodes (name_node P rd rdo M e l root nodes k)"
proof -
  have v: "number_at M e 4 = Ok (field bytes e 4)" by (rule maps_number [OF assms(1)]) (auto intro: has_part [OF assms(2)])
  define q where "q = rdo + field bytes e 4 mod 2 ^ 31"
  have q: "q < 2 ^ 62 + 2 ^ 31" using assms(4) by (simp add: q_def)
  have "walk_ok contents good bytes P M nodes
      (need rd M q (data_string_size P) () (\<lambda>M1. k q (mk_node RDT_DATA_STRING l root q # nodes) M1))"
  proof (rule walk_ok_need [OF assms(1)])
    fix M1
    assume M1: "maps contents good bytes M1" "grows M M1" "has M1 q (data_string_size P)"
    then have "nodes_ok P M1 (mk_node RDT_DATA_STRING l root q # nodes)"
      using nodes_ok_grows [OF assms(6) M1(2)] assms(7) by (auto simp: nodes_ok_mk grows_def)
    then have "walk_ok contents good bytes P M1 (mk_node RDT_DATA_STRING l root q # nodes) (k q (mk_node RDT_DATA_STRING l root q # nodes) M1)"
      by (rule assms(8) [OF M1(1,2)]) (use q in auto)
    then show "walk_ok contents good bytes P M1 nodes (k q (mk_node RDT_DATA_STRING l root q # nodes) M1)"
      by (rule walk_ok_weaken) auto
  qed (use q assms(5) in simp)
  moreover have "walk_ok contents good bytes P M nodes (k e nodes M)"
    using assms(8) [OF assms(1) grows_refl assms(6)] assms(3) by simp
  ultimately show ?thesis by (simp add: name_node_def v q_def)
qed

text \<open>The first half of a turn of each loop: the entry and its name.\<close>

lemma entry_step:
  assumes "length bytes < 2 ^ 62" "rdo < 2 ^ 62" "data_string_size P < 2 ^ 32"
    and "maps contents good bytes M" "nodes_ok P M nodes" "\<forall>r. root = Some r \<longrightarrow> r = ofs \<or> has M r 8" "ofs < 2 ^ 62 + 2 ^ 40"
    and "\<And>ofs1 ns M'. maps contents good bytes M' \<Longrightarrow> grows M M' \<Longrightarrow> nodes_ok P M' ns \<Longrightarrow> set nodes \<subseteq> set ns \<Longrightarrow>
      holds ns RDT_DIRECTORY_ENTRY l \<Longrightarrow> has M' ofs 8 \<Longrightarrow> ofs1 < 2 ^ 62 + 2 ^ 31 \<Longrightarrow> walk_ok contents good bytes P M' ns (k ofs1 ns M')"
  shows "walk_ok contents good bytes P M nodes
    (need rd M ofs 8 () (\<lambda>M1. name_node P rd rdo M1 ofs l root (mk_node RDT_DIRECTORY_ENTRY l root ofs # nodes) k))"
proof (rule walk_ok_need [OF assms(4)])
  fix M1
  assume M1: "maps contents good bytes M1" "grows M M1" "has M1 ofs 8"
  define nodes' where "nodes' = mk_node RDT_DIRECTORY_ENTRY l root ofs # nodes"
  have root1: "\<forall>r. root = Some r \<longrightarrow> has M1 r 8" using assms(6) M1(2,3) by (auto simp: grows_def)
  have ok1: "nodes_ok P M1 nodes'"
    using nodes_ok_grows [OF assms(5) M1(2)] M1(3) root1 by (simp add: nodes'_def nodes_ok_mk)
  have e: "ofs < 2 ^ 62" using has_end [OF M1(1,3)] assms(1) by simp
  have "walk_ok contents good bytes P M1 nodes' (name_node P rd rdo M1 ofs l root nodes' k)"
  proof (rule walk_ok_name [OF M1(1,3) e assms(2,3) ok1 root1])
    fix ofs1 :: nat and nodes1 M2
    assume M2: "maps contents good bytes M2" "grows M1 M2" "nodes_ok P M2 nodes1" "set nodes' \<subseteq> set nodes1" "ofs1 < 2 ^ 62 + 2 ^ 31"
    show "walk_ok contents good bytes P M2 nodes1 (k ofs1 nodes1 M2)"
    proof (rule assms(8) [OF M2(1) grows_trans [OF M1(2) M2(2)] M2(3)])
      show "set nodes \<subseteq> set nodes1" "holds nodes1 RDT_DIRECTORY_ENTRY l" "has M2 ofs 8"
        using M2(4) holds_mono [OF _ M2(4)] M1(3) M2(2) by (auto simp: nodes'_def grows_def)
    qed (rule M2(5))
  qed
  then show "walk_ok contents good bytes P M1 nodes
      (name_node P rd rdo M1 ofs l root (mk_node RDT_DIRECTORY_ENTRY l root ofs # nodes) k)"
    unfolding nodes'_def by (rule walk_ok_weaken) auto
qed (use assms(7) in simp)

text \<open>The second half: a piece below the entry and the node for it.\<close>

lemma piece_step:
  assumes "maps contents good bytes M" "nodes_ok P M nodes" "\<forall>r. root = Some r \<longrightarrow> has M r 8" "p < 2 ^ 62 + 2 ^ 40"
    "piece_size P t = 16"
    and "\<And>M'. maps contents good bytes M' \<Longrightarrow> grows M M' \<Longrightarrow> nodes_ok P M' (mk_node t l root p # nodes) \<Longrightarrow>
      p + 16 \<le> length bytes \<Longrightarrow> \<forall>r. root = Some r \<longrightarrow> has M' r 8 \<Longrightarrow>
      walk_ok contents good bytes P M' (mk_node t l root p # nodes) (k M')"
  shows "walk_ok contents good bytes P M nodes (need rd M p 16 () k)"
proof (rule walk_ok_need [OF assms(1)])
  fix M1
  assume M1: "maps contents good bytes M1" "grows M M1" "has M1 p 16"
  have root1: "\<forall>r. root = Some r \<longrightarrow> has M1 r 8" using assms(3) M1(2) by (simp add: grows_def)
  have ok1: "nodes_ok P M1 (mk_node t l root p # nodes)"
    using nodes_ok_grows [OF assms(2) M1(2)] M1(3) root1 assms(5) by (simp add: nodes_ok_mk)
  have "walk_ok contents good bytes P M1 (mk_node t l root p # nodes) (k M1)"
    by (rule assms(6) [OF M1(1,2) ok1 _ root1]) (use has_end [OF M1(1,3)] in simp)
  then show "walk_ok contents good bytes P M1 nodes (k M1)" by (rule walk_ok_weaken) auto
qed (use assms(4) in simp)

lemma level3_ok:
  assumes "length bytes < 2 ^ 62" "rdo < 2 ^ 62" "data_string_size P < 2 ^ 32"
    and "maps contents good bytes M" "nodes_ok P M nodes" "holds nodes RDT_RESOURCE_DIRECTORY 3"
    and "\<forall>r. root = Some r \<longrightarrow> has M r 8" "ofs < 2 ^ 62 + 2 ^ 40"
  shows "walk_ok contents good bytes P M nodes (level3 P rd rdo root y ofs nodes M)"
  using assms(4-)
proof (induction "131071 - y" arbitrary: y ofs nodes M rule: less_induct)
  case less
  obtain count where c: "entry_count M nodes 3 = Ok count" using entry_count_ok [OF less(2,3,4)] by blast
  show ?case
  proof (cases "y \<le> count")
    case False
    with c less(2,3) show ?thesis by (subst level3.simps) (simp add: walk_ok_end)
  next
    case True
    then have dec: "131071 - (y + 1) < 131071 - y" using entry_count_bound [OF c] by simp
    have "walk_ok contents good bytes P M nodes (need rd M ofs 8 () (\<lambda>M1.
         name_node P rd rdo M1 ofs 3 root (mk_node RDT_DIRECTORY_ENTRY 3 root ofs # nodes) (\<lambda>ofs1 nodes1 M2.
         bind_o (if y = 1 then bind_o (directory_data M2 nodes1 3) (\<lambda>(off, _). Ok (rdo + off)) else Ok ofs1) (\<lambda>ofs2.
         need rd M2 ofs2 16 () (\<lambda>M3.
           level3 P rd rdo root (y + 1) (ofs2 + 16) (mk_node RDT_DATA_ENTRY 3 root ofs2 # nodes1) M3)))))"
    proof (rule entry_step [OF assms(1-3) less(2,3) _ less(6)])
      fix ofs1 :: nat and nodes1 M2
      assume M2: "maps contents good bytes M2" "grows M M2" "nodes_ok P M2 nodes1" "set nodes \<subseteq> set nodes1"
        "holds nodes1 RDT_DIRECTORY_ENTRY 3" "ofs1 < 2 ^ 62 + 2 ^ 31"
      have h: "holds nodes1 RDT_RESOURCE_DIRECTORY 3" by (rule holds_mono [OF less(4) M2(4)])
      obtain off d where dd: "directory_data M2 nodes1 3 = Ok (off, d)" "off < 2 ^ 31"
        using directory_data_ok [OF M2(1,3,5)] by blast
      define ofs2 where "ofs2 = (if y = 1 then rdo + off else ofs1)"
      have "walk_ok contents good bytes P M2 nodes1 (need rd M2 ofs2 16 () (\<lambda>M3.
           level3 P rd rdo root (y + 1) (ofs2 + 16) (mk_node RDT_DATA_ENTRY 3 root ofs2 # nodes1) M3))"
      proof (rule piece_step [OF M2(1,3), of root _ RDT_DATA_ENTRY 3])
        fix M3
        assume "maps contents good bytes M3" "nodes_ok P M3 (mk_node RDT_DATA_ENTRY 3 root ofs2 # nodes1)"
          "ofs2 + 16 \<le> length bytes" "\<forall>r. root = Some r \<longrightarrow> has M3 r 8"
        then show "walk_ok contents good bytes P M3 (mk_node RDT_DATA_ENTRY 3 root ofs2 # nodes1)
          (level3 P rd rdo root (y + 1) (ofs2 + 16) (mk_node RDT_DATA_ENTRY 3 root ofs2 # nodes1) M3)"
          by (intro less(1) [OF dec]) (use h assms(1) in simp_all)
      qed (use M2(2,6) dd(2) assms(2) less(5) in \<open>auto simp: ofs2_def grows_def\<close>)
      then show "walk_ok contents good bytes P M2 nodes1
        (bind_o (if y = 1 then bind_o (directory_data M2 nodes1 3) (\<lambda>(off, _). Ok (rdo + off)) else Ok ofs1) (\<lambda>ofs2.
         need rd M2 ofs2 16 () (\<lambda>M3.
           level3 P rd rdo root (y + 1) (ofs2 + 16) (mk_node RDT_DATA_ENTRY 3 root ofs2 # nodes1) M3)))"
        by (cases "y = 1") (simp_all add: dd(1) ofs2_def)
    qed (use less(5) in simp)
    with c True show ?thesis by (subst level3.simps) simp
  qed
qed

lemma level2_ok:
  assumes "length bytes < 2 ^ 62" "rdo < 2 ^ 62" "data_string_size P < 2 ^ 32"
    and "maps contents good bytes M" "nodes_ok P M nodes" "holds nodes RDT_RESOURCE_DIRECTORY 2" "holds nodes RDT_DIRECTORY_ENTRY 1"
    and "\<forall>r. root = Some r \<longrightarrow> has M r 8" "od \<le> 16 * j"
  shows "walk_ok contents good bytes P M nodes (level2 P rd rdo root j od nodes M)"
  using assms(4-)
proof (induction "131071 - j" arbitrary: j od nodes M rule: less_induct)
  case less
  obtain count where c: "entry_count M nodes 2 = Ok count" using entry_count_ok [OF less(2,3,4)] by blast
  obtain off1 d1 where d1: "directory_data M nodes 1 = Ok (off1, d1)" "off1 < 2 ^ 31"
    using directory_data_ok [OF less(2,3,5)] by blast
  define od' where "od' = od + (if j = 1 then 16 else 8)"
  define ofs where "ofs = rdo + off1 + od'"
  show ?case
  proof (cases "j \<le> count")
    case False
    with c less(2,3) show ?thesis by (subst level2.simps) (simp add: walk_ok_end)
  next
    case True
    then have dec: "131071 - (j + 1) < 131071 - j" and jb: "j \<le> 131070" using entry_count_bound [OF c] by simp_all
    have od': "od' \<le> 16 * (j + 1)" using less(7) by (simp add: od'_def)
    have "walk_ok contents good bytes P M nodes (need rd M ofs 8 () (\<lambda>M1.
            name_node P rd rdo M1 ofs 2 root (mk_node RDT_DIRECTORY_ENTRY 2 root ofs # nodes) (\<lambda>_ nodes1 M2.
            bind_o (directory_data M2 nodes1 2) (\<lambda>(off2, _).
            need rd M2 (rdo + off2) 16 () (\<lambda>M3.
            continue_with
              (level3 P rd rdo root 1 (rdo + off2 + 16) (mk_node RDT_RESOURCE_DIRECTORY 3 root (rdo + off2) # nodes1) M3)
              (\<lambda>nodes2 M4. level2 P rd rdo root (j + 1) od' nodes2 M4))))))"
    proof (rule entry_step [OF assms(1-3) less(2,3)])
      fix o1 :: nat and nodes1 M2
      assume M2: "maps contents good bytes M2" "grows M M2" "nodes_ok P M2 nodes1" "set nodes \<subseteq> set nodes1"
        "holds nodes1 RDT_DIRECTORY_ENTRY 2"
      obtain off2 d where dd: "directory_data M2 nodes1 2 = Ok (off2, d)" "off2 < 2 ^ 31"
        using directory_data_ok [OF M2(1,3,5)] by blast
      have "walk_ok contents good bytes P M2 nodes1 (need rd M2 (rdo + off2) 16 () (\<lambda>M3.
            continue_with
              (level3 P rd rdo root 1 (rdo + off2 + 16) (mk_node RDT_RESOURCE_DIRECTORY 3 root (rdo + off2) # nodes1) M3)
              (\<lambda>nodes2 M4. level2 P rd rdo root (j + 1) od' nodes2 M4)))"
      proof (rule piece_step [OF M2(1,3), of root _ RDT_RESOURCE_DIRECTORY 3])
        fix M3
        assume M3: "maps contents good bytes M3" "grows M2 M3" "nodes_ok P M3 (mk_node RDT_RESOURCE_DIRECTORY 3 root (rdo + off2) # nodes1)"
          "rdo + off2 + 16 \<le> length bytes" "\<forall>r. root = Some r \<longrightarrow> has M3 r 8"
        let ?ns = "mk_node RDT_RESOURCE_DIRECTORY 3 root (rdo + off2) # nodes1"
        show "walk_ok contents good bytes P M3 ?ns
            (continue_with (level3 P rd rdo root 1 (rdo + off2 + 16) ?ns M3) (\<lambda>nodes2 M4. level2 P rd rdo root (j + 1) od' nodes2 M4))"
        proof (rule walk_ok_continue)
          show "walk_ok contents good bytes P M3 ?ns (level3 P rd rdo root 1 (rdo + off2 + 16) ?ns M3)"
            by (rule level3_ok [OF assms(1-3) M3(1,3) _ M3(5)]) (use dd(2) assms(2) in simp_all)
        next
          fix ns M4
          assume M4: "maps contents good bytes M4" "grows M3 M4" "nodes_ok P M4 ns" "set ?ns \<subseteq> set ns"
          have sub: "set nodes \<subseteq> set ns" using M2(4) M4(4) by auto
          show "walk_ok contents good bytes P M4 ns (level2 P rd rdo root (j + 1) od' ns M4)"
            by (rule less(1) [OF dec M4(1,3) holds_mono [OF less(4) sub] holds_mono [OF less(5) sub] _ od'])
              (use M3(5) M4(2) in \<open>simp add: grows_def\<close>)
        qed
      qed (use M2(2) dd(2) assms(2) less(6) in \<open>auto simp: grows_def\<close>)
      then show "walk_ok contents good bytes P M2 nodes1 (bind_o (directory_data M2 nodes1 2) (\<lambda>(off2, _).
            need rd M2 (rdo + off2) 16 () (\<lambda>M3.
            continue_with
              (level3 P rd rdo root 1 (rdo + off2 + 16) (mk_node RDT_RESOURCE_DIRECTORY 3 root (rdo + off2) # nodes1) M3)
              (\<lambda>nodes2 M4. level2 P rd rdo root (j + 1) od' nodes2 M4))))"
        by (simp add: dd(1))
    qed (use less(6) assms(2) d1(2) od' jb in \<open>auto simp: ofs_def\<close>)
    with c True d1(1) show ?thesis by (subst level2.simps) (simp add: od'_def ofs_def Let_def)
  qed
qed

lemma level1_ok:
  assumes "length bytes < 2 ^ 62" "rdo < 2 ^ 62" "data_string_size P < 2 ^ 32"
    and "maps contents good bytes M" "nodes_ok P M nodes" "holds nodes RDT_RESOURCE_DIRECTORY 1" "od \<le> 16 * i"
  shows "walk_ok contents good bytes P M nodes (level1 P rd rdo i od nodes M)"
  using assms(4-)
proof (induction "131071 - i" arbitrary: i od nodes M rule: less_induct)
  case less
  obtain count where c: "entry_count M nodes 1 = Ok count" using entry_count_ok [OF less(2,3,4)] by blast
  define od' where "od' = od + (if i = 1 then 16 else 8)"
  define ofs where "ofs = rdo + od'"
  show ?case
  proof (cases "i \<le> count")
    case False
    with c less(2,3) show ?thesis by (subst level1.simps) (simp add: walk_ok_end)
  next
    case True
    then have dec: "131071 - (i + 1) < 131071 - i" and ib: "i \<le> 131070" using entry_count_bound [OF c] by simp_all
    have od': "od' \<le> 16 * (i + 1)" using less(5) by (simp add: od'_def)
    let ?again = "\<lambda>ns M. level1 P rd rdo (i + 1) od' ns M"
    let ?below = "\<lambda>nodes1 M3 off. continue_with
        (level2 P rd rdo (Some ofs) 1 0 (mk_node RDT_RESOURCE_DIRECTORY 2 (Some ofs) (rdo + off) # nodes1) M3) ?again"
    have "walk_ok contents good bytes P M nodes (need rd M ofs 8 () (\<lambda>M1.
            name_node P rd rdo M1 ofs 1 (Some ofs) (mk_node RDT_DIRECTORY_ENTRY 1 (Some ofs) ofs # nodes) (\<lambda>_ nodes1 M2.
            bind_o (directory_data M2 nodes1 1) (\<lambda>(off, is_dir).
            if is_dir then need rd M2 (rdo + off) 16 () (\<lambda>M3. ?below nodes1 M3 off) else ?again nodes1 M2))))"
    proof (rule entry_step [OF assms(1-3) less(2,3)])
      fix o1 :: nat and nodes1 M2
      assume M2: "maps contents good bytes M2" "grows M M2" "nodes_ok P M2 nodes1" "set nodes \<subseteq> set nodes1"
        "holds nodes1 RDT_DIRECTORY_ENTRY 1" "has M2 ofs 8"
      obtain off d where dd: "directory_data M2 nodes1 1 = Ok (off, d)" "off < 2 ^ 31"
        using directory_data_ok [OF M2(1,3,5)] by blast
      have again: "walk_ok contents good bytes P M2 nodes1 (?again nodes1 M2)"
        by (rule less(1) [OF dec M2(1,3) holds_mono [OF less(4) M2(4)] od'])
      have "walk_ok contents good bytes P M2 nodes1 (need rd M2 (rdo + off) 16 () (\<lambda>M3. ?below nodes1 M3 off))"
      proof (rule piece_step [OF M2(1,3), of "Some ofs" _ RDT_RESOURCE_DIRECTORY 2])
        fix M3
        assume M3: "maps contents good bytes M3" "grows M2 M3" "nodes_ok P M3 (mk_node RDT_RESOURCE_DIRECTORY 2 (Some ofs) (rdo + off) # nodes1)"
          "rdo + off + 16 \<le> length bytes" "\<forall>r. Some ofs = Some r \<longrightarrow> has M3 r 8"
        let ?ns = "mk_node RDT_RESOURCE_DIRECTORY 2 (Some ofs) (rdo + off) # nodes1"
        show "walk_ok contents good bytes P M3 ?ns (?below nodes1 M3 off)"
        proof (rule walk_ok_continue)
          show "walk_ok contents good bytes P M3 ?ns (level2 P rd rdo (Some ofs) 1 0 ?ns M3)"
            by (rule level2_ok [OF assms(1-3) M3(1,3) _ _ M3(5)]) (use M2(5) in simp_all)
        next
          fix ns M4
          assume M4: "maps contents good bytes M4" "grows M3 M4" "nodes_ok P M4 ns" "set ?ns \<subseteq> set ns"
          have "set nodes \<subseteq> set ns" using M2(4) M4(4) by auto
          then show "walk_ok contents good bytes P M4 ns (?again ns M4)"
            by (intro less(1) [OF dec M4(1,3) _ od'] holds_mono [OF less(4)])
        qed
      qed (use M2(6) dd(2) assms(2) in auto)
      with again show "walk_ok contents good bytes P M2 nodes1 (bind_o (directory_data M2 nodes1 1) (\<lambda>(off, is_dir).
            if is_dir then need rd M2 (rdo + off) 16 () (\<lambda>M3. ?below nodes1 M3 off) else ?again nodes1 M2))"
        unfolding dd(1) bind_o.simps prod.case by (cases d) (simp_all only: if_True if_False)
    qed (use assms(2) od' ib in \<open>auto simp: ofs_def\<close>)
    with c True show ?thesis
      by (subst level1.simps) (simp only: bind_o.simps if_True Let_def od'_def [symmetric] ofs_def [symmetric])
  qed
qed

end

text \<open>The header tables of a parsed file are enough to translate addresses.\<close>

definition pe_ready :: "'s file_mapper \<Rightarrow> pe_file \<Rightarrow> bool" where
  "pe_ready M pe \<longleftrightarrow> tables_mapped (Inr pe) M"

lemma pe_ready_grows: "pe_ready M pe \<Longrightarrow> grows M M' \<Longrightarrow> pe_ready M' pe"
  by (auto simp: pe_ready_def tables_mapped_def grows_def)

lemma section_number:
  assumes "maps contents good bytes M" "has M s 40" "o' + n \<le> 40" "0 < n"
  shows "number_at M (s + o') n = Ok (field bytes (s + o') n)"
  by (rule maps_number [OF assms(1) _ assms(4)]) (rule has_part [OF assms(2)], use assms(3) in simp_all)

text \<open>What the translation computes: the first section that contains the address decides.\<close>

definition section_size :: "string \<Rightarrow> nat \<Rightarrow> nat" where
  "section_size bytes s = (if field bytes (s + 8) 4 = 0 then field bytes (s + 16) 4 else field bytes (s + 8) 4)"

definition in_section :: "string \<Rightarrow> nat \<Rightarrow> nat \<Rightarrow> bool" where
  "in_section bytes rva s \<longleftrightarrow> field bytes (s + 12) 4 \<le> rva \<and> rva < field bytes (s + 12) 4 + section_size bytes s"

definition rva_in_file :: "string \<Rightarrow> pe_file \<Rightarrow> nat \<Rightarrow> nat" where
  "rva_in_file bytes pe rva =
     (if rva = 0 \<or> pe_sections pe = [] then 0
      else case find (in_section bytes rva) (pe_sections pe) of
          Some s \<Rightarrow> rva - field bytes (s + 12) 4 + field bytes (s + 20) 4
        | None \<Rightarrow>
            if num_sections pe = 1 then
              (rva + (2 ^ 64 - field bytes (hd (pe_sections pe) + 12) 4) + field bytes (hd (pe_sections pe) + 20) 4) mod 2 ^ 64
            else rva)"

lemma rva_scan_eq:
  assumes "maps contents good bytes M" "\<forall>s \<in> set ss. has M s 40"
  shows "rva_scan M ss rva = Ok (map_option (\<lambda>s. rva - field bytes (s + 12) 4 + field bytes (s + 20) 4)
    (find (in_section bytes rva) ss))"
  using assms(2)
proof (induction ss)
  case (Cons s ss)
  then have "has M s 40" by simp
  note r = section_number [OF assms(1) this, of 8 4] section_number [OF assms(1) this, of 12 4]
    section_number [OF assms(1) this, of 16 4] section_number [OF assms(1) this, of 20 4]
  from Cons r show ?case by (auto simp: in_section_def section_size_def)
qed simp

lemma pe_rva2ofs_eq:
  assumes "maps contents good bytes M" "pe_ready M pe"
  shows "pe_rva2ofs M pe rva = Ok (rva_in_file bytes pe rva)"
proof -
  have s: "\<forall>s \<in> set (pe_sections pe). has M s 40" using assms(2) by (simp add: pe_ready_def tables_mapped_def)
  show ?thesis
  proof (cases "pe_sections pe")
    case (Cons s ss)
    with s have "has M s 40" by simp
    note r = section_number [OF assms(1) this, of 12 4] section_number [OF assms(1) this, of 20 4]
    from Cons rva_scan_eq [OF assms(1) s, of rva] r show ?thesis
      by (auto simp: pe_rva2ofs_def rva_in_file_def split: option.split)
  qed (simp add: pe_rva2ofs_def rva_in_file_def)
qed

context file_source begin

lemma map_pointer_outside:
  assumes "maps contents good bytes M" "p < 2 ^ 64" "n < 2 ^ 63" "length bytes \<le> p"
  shows "\<exists>M'. map_chunk_by_pointer rd M p n = Ok (False, M') \<and> maps contents good bytes M' \<and> grows M M'"
proof (cases "p < 2 ^ 63")
  case True
  have w: "unat (of_nat p :: 64 word) = p" "unat (of_nat n :: 64 word) = n"
    using True assms(3) by (simp_all add: unat_of_nat take_bit_nat_eq_self)
  have ok: "mapper_ok contents good M" "contents (fr M) = bytes" using assms(1) by (simp_all add: maps_def)
  have "unat (of_nat p :: 64 word) + unat (of_nat n :: 64 word) < 2 ^ 64" using True assms(3) by (simp add: w)
  from map_chunk_ok [OF ok(1) this] assms(4) ok(1) show ?thesis
    by (auto simp: map_chunk_by_pointer_def w ok(2) maps_def grows_def has_def)
next
  case False
  then have "p div 2 ^ 63 = 1" using assms(2) by (intro div_nat_eqI) simp_all
  then have "bit p 63" by (simp add: bit_iff_odd)
  then have "sint (of_nat p :: 64 word) < 0"
    by (simp add: signed_of_nat bit_of_nat_iff_bit [of p 63, where 'a=int, symmetric])
  with assms(1) show ?thesis by (simp add: map_chunk_by_pointer_def)
qed

lemma discovery_ok:
  assumes "length bytes < 2 ^ 62" "data_string_size P < 2 ^ 32" "maps contents good bytes M" "pe_ready M pe"
  shows "walk_ok contents good bytes P M [] (discoveryNodesPeres P rd pe M)"
proof (cases "pe_directory_by_entry pe IMAGE_DIRECTORY_ENTRY_RESOURCE")
  case None
  with assms(3) show ?thesis by (simp add: discoveryNodesPeres_def walk_ok_def)
next
  case (Some d)
  have "d = directories pe ! 2" "directories pe \<noteq> []" "\<not> 2 > num_directories pe - 1"
    using Some by (simp_all add: pe_directory_by_entry_def IMAGE_DIRECTORY_ENTRY_RESOURCE_def split: if_splits)
  moreover have "length (directories pe) = num_directories pe" using assms(4) by (simp add: pe_ready_def tables_mapped_def)
  ultimately have "d \<in> set (directories pe)" by (cases "num_directories pe") (auto intro!: nth_mem)
  then have d: "has M d 8" using assms(4) by (simp add: pe_ready_def tables_mapped_def)
  have r: "number_at M d 4 = Ok (field bytes d 4)" "number_at M (d + 4) 4 = Ok (field bytes (d + 4) 4)"
    by (auto intro!: maps_number [OF assms(3)] has_part [OF d])
  define rdo where "rdo = rva_in_file bytes pe (field bytes d 4)"
  have q: "pe_rva2ofs M pe (field bytes d 4) = Ok rdo" unfolding rdo_def by (rule pe_rva2ofs_eq [OF assms(3,4)])
  have rdo: "rdo < 2 ^ 64"
  proof -
    have "field bytes d 4 < 2 ^ 32" "field bytes s 4 < 2 ^ 32" for s using field_bound [of bytes _ 4] by simp_all
    moreover have "x - a + b < 2 ^ 64" if "x < 2 ^ 32" "b < 2 ^ 32" for x a b :: nat using that by simp
    moreover have le: "field bytes d 4 < 18446744073709551616" using field_bound [of bytes d 4] by simp
    ultimately show ?thesis by (auto simp: rdo_def rva_in_file_def le split: option.split)
  qed
  have "walk_ok contents good bytes P M [] (need rd M rdo 16 () (\<lambda>M1. level1 P rd rdo 1 0 [mk_node RDT_RESOURCE_DIRECTORY 1 None rdo] M1))"
  proof (cases "rdo < 2 ^ 62")
    case True
    show ?thesis
    proof (rule piece_step [where nodes = "[]" and root = None and t = RDT_RESOURCE_DIRECTORY and l = 1, OF assms(3)])
      fix M1
      assume M1: "maps contents good bytes M1" "nodes_ok P M1 [mk_node RDT_RESOURCE_DIRECTORY 1 None rdo]"
      show "walk_ok contents good bytes P M1 [mk_node RDT_RESOURCE_DIRECTORY 1 None rdo]
         (level1 P rd rdo 1 0 [mk_node RDT_RESOURCE_DIRECTORY 1 None rdo] M1)"
        by (rule level1_ok [OF assms(1) True assms(2) M1]) simp_all
    qed (use True in \<open>simp_all add: nodes_ok_def\<close>)
  next
    case False
    have "\<exists>M'. map_chunk_by_pointer rd M rdo 16 = Ok (False, M') \<and> maps contents good bytes M' \<and> grows M M'"
      by (rule map_pointer_outside [OF assms(3) rdo]) (use False assms(1) in simp_all)
    then show ?thesis by (auto simp: need_def walk_ok_def)
  qed
  then show ?thesis using assms(3) by (simp add: discoveryNodesPeres_def Some r q walk_ok_def)
qed

end

end
