(* ===== verification/Smb_Client.thy ===== *)
theory Smb_Client
  imports Service_Configuration Session_Cache Pe_Resources
begin

text \<open>
  \<open>src/src/backend/services/samba_based/smb/smb_client.cpp\<close> and \<open>smb_client.hpp\<close>: the client that reads
  files and directories of a remote host through libsmbclient, which is a parameter of the
  model. It implements the interface of \<open>File_Reader\<close>.
\<close>

section \<open>The library\<close>

text \<open>
  What libsmbclient answers: opening a path gives a descriptor and \<open>errno\<close>; reading is given the
  number of the call, the position and the size wanted, and returns the bytes or an error; the
  calls of \<open>smbc_getdents\<close> return batches of entries (type and name), then zero or an error.
\<close>

record smb_lib =
  smb_init_ok :: bool
  smb_ctx_ok :: bool
  smb_open :: "string \<Rightarrow> int \<times> int"
  smb_fstat :: "string \<Rightarrow> (int \<times> int) option"
  smb_lseek :: "string \<Rightarrow> int \<Rightarrow> int"
  smb_read_at :: "string \<Rightarrow> nat \<Rightarrow> nat \<Rightarrow> nat \<Rightarrow> string option"
  smb_opendir :: "string \<Rightarrow> int \<times> int"
  smb_getdents :: "string \<Rightarrow> (nat \<times> string) list list \<times> int option"
  strerror :: "int \<Rightarrow> string"

definition SMB_DEFAULT_BLOCKSIZE :: nat where "SMB_DEFAULT_BLOCKSIZE = 1024 * 64"
definition SMB_MAXPATHLEN :: nat where "SMB_MAXPATHLEN = 4096"

section \<open>Authentication\<close>

text \<open>
  \<open>strncpy\<close>: at most \<open>n\<close> characters of the source into the buffer, filled up with zeros; a longer
  source is cut and leaves the rest of the buffer as it was.
\<close>

definition strncpy :: "nat \<Rightarrow> string \<Rightarrow> string \<Rightarrow> string" where
  "strncpy n src buf = take n (c_str src @ replicate n (CHR 0x00)) @ drop n buf"

text \<open>
  The callback that gives the library the workgroup, user and password for a server. The session
  is the one of the cache for that server; \<open>sess->\<close> on an empty pointer fails its assertion.
  \<open>krb5\<close> is the static flag, \<open>ccname\<close> whether the environment names a Kerberos cache.
\<close>

record auth_buffers =
  pWorkgroup :: string
  pUsername :: string
  pPassword :: string

definition smbc_auth_fn ::
  "(string \<Rightarrow> 128 word option) \<Rightarrow> int \<Rightarrow> bool \<Rightarrow> string \<Rightarrow> auth_buffers \<Rightarrow> bool \<Rightarrow> sessions_cache
    \<Rightarrow> (auth_buffers \<times> bool \<times> sessions_cache) outcome" where
  "smbc_auth_fn stu now ccname pServer b krb5 C =
     (case get_session_by stu element_remote now pServer C of
        (None, _) \<Rightarrow> Abort
      | (Some sess, C') \<Rightarrow>
          if \<not> is_nil sess then
            Ok (\<lparr>pWorkgroup = strncpy (length (pWorkgroup b) - 1)
                    (if username (creds sess) = [] then ''WORKGROUP'' else domain (creds sess)) (pWorkgroup b),
                 pUsername = strncpy (length (pUsername b) - 1) (username (creds sess)) (pUsername b),
                 pPassword = strncpy (length (pPassword b) - 1) (password (creds sess)) (pPassword b)\<rparr>, krb5, C')
          else if krb5 \<and> ccname then Ok (b, False, C')
          else Ok (b, True, C'))"

section \<open>The client\<close>

record smb_client =
  ctx_set :: bool
  remote_fd :: int
  remotestat :: "int \<times> int"
  current_open_path :: "string option"
  reads :: nat

definition new_smb_client :: smb_client where
  "new_smb_client = \<lparr>ctx_set = False, remote_fd = -1, remotestat = (0, 0), current_open_path = None, reads = 0\<rparr>"

definition open_file :: "smb_lib \<Rightarrow> string \<Rightarrow> smb_client \<Rightarrow> (bool \<times> int) \<times> smb_client" where
  "open_file L path C =
     (if \<not> smb_init_ok L then ((False, -1), C)
      else let (fd, errno) = smb_open L path;
               C' = C\<lparr>ctx_set := smb_ctx_ok L, remote_fd := fd, current_open_path := Some path\<rparr>
        in if fd \<le> 0 then ((False, errno), C')
           else case smb_fstat L path of
             None \<Rightarrow> ((False, -1), C')
           | Some st \<Rightarrow> ((True, 0), C'\<lparr>remotestat := st\<rparr>))"

definition smb_file_size :: "smb_client \<Rightarrow> 64 word" where
  "smb_file_size C = word_of_int (fst (remotestat C))"

definition last_modified :: "smb_client \<Rightarrow> int" where
  "last_modified C = snd (remotestat C)"

text \<open>
  \<open>validate_open\<close>: an empty \<open>string_view\<close> that was never assigned has a null pointer as data, which
  \<open>open_file\<close> turns into a \<open>string_view\<close> again.
\<close>

definition validate_open :: "smb_lib \<Rightarrow> smb_client \<Rightarrow> (bool \<times> smb_client) outcome" where
  "validate_open L C =
     (case current_open_path C of
        None \<Rightarrow> if smb_init_ok L then UB else Ok (False, C)
      | Some path \<Rightarrow>
          if ctx_set C \<and> path \<noteq> [] then Ok (True, C)
          else let ((ok, _), C') = open_file L path C in Ok (ok, C'))"

text \<open>
  The loop of \<open>read\<close>; \<open>acc\<close> is what was stored in the destination. A library that returned more
  than it was asked for would have written behind the destination.
\<close>

function read_loop :: "(nat \<Rightarrow> nat \<Rightarrow> nat \<Rightarrow> string option) \<Rightarrow> nat \<Rightarrow> nat \<Rightarrow> nat \<Rightarrow> string \<Rightarrow> ((int \<times> string) \<times> nat) outcome" where
  "read_loop rd k off size_v acc =
     (if length acc < size_v then
        (case rd k (off + length acc) (size_v - length acc) of
           None \<Rightarrow> Ok ((-1, acc), k + 1)
         | Some bs \<Rightarrow>
             if length bs > size_v - length acc then UB
             else if bs = [] then Ok ((int (length acc), acc), k + 1)
             else read_loop rd (k + 1) off size_v (acc @ bs))
      else Ok ((int (length acc), acc), k))"
  by pat_completeness auto
termination by (relation "measure (\<lambda>(rd, k, off, size_v, acc). size_v - length acc)") (auto intro!: diff_less_mono2)

declare read_loop.simps [simp del]

definition smb_read :: "smb_lib \<Rightarrow> smb_client reader" where
  "smb_read L C offset size_v =
     (case current_open_path C of
        None \<Rightarrow> Ok ((-1, []), C)
      | Some path \<Rightarrow>
          let off = smb_lseek L path (sint (of_nat offset :: 64 word))
          in if off < 0 then Ok ((-1, []), C)
             else bind_o (read_loop (smb_read_at L path) (reads C) (nat off) size_v [])
                    (\<lambda>(r, k). Ok (r, C\<lparr>reads := k\<rparr>)))"

text \<open>
  \<open>download_portion\<close> (not called by the actions): it counts a whole block for every read, however
  many bytes came; \<open>written\<close> says what the local \<open>write\<close> returned.
\<close>

function download_portion ::
  "(nat \<Rightarrow> nat \<Rightarrow> nat \<Rightarrow> string option) \<Rightarrow> (string \<Rightarrow> int) \<Rightarrow> int \<Rightarrow> int \<Rightarrow> bool \<Rightarrow> nat \<Rightarrow> nat \<Rightarrow> bool \<times> nat \<times> nat" where
  "download_portion rd written curpos count to_file k pos =
     (if curpos < count then
        (case rd k pos SMB_DEFAULT_BLOCKSIZE of
           None \<Rightarrow> (False, k + 1, pos)
         | Some bs \<Rightarrow>
             if (if to_file then written bs else int (length bs)) \<noteq> int (length bs) then (False, k + 1, pos + length bs)
             else download_portion rd written (curpos + int SMB_DEFAULT_BLOCKSIZE) count to_file (k + 1) (pos + length bs))
      else (True, k, pos))"
  by pat_completeness auto
termination
  by (relation "measure (\<lambda>(rd, written, curpos, count, to_file, k, pos). nat (count - curpos))")
    (auto simp: SMB_DEFAULT_BLOCKSIZE_def)

declare download_portion.simps [simp del]

definition portion_path :: "string \<Rightarrow> string \<Rightarrow> string" where
  "portion_path base name =
     take (SMB_MAXPATHLEN - 2)
       (base @ (if base \<noteq> [] \<and> name \<noteq> [] \<and> hd name \<noteq> CHR ''/'' \<and> last base \<noteq> CHR ''/'' then ''/'' else []) @ name)"

definition download_portion_to_memory ::
  "smb_lib \<Rightarrow> string \<Rightarrow> string \<Rightarrow> int \<Rightarrow> int \<Rightarrow> smb_client \<Rightarrow> bool \<times> smb_client" where
  "download_portion_to_memory L base name offset count C =
     (let path = portion_path base name; ((ok, _), C1) = open_file L path C
      in if \<not> ok then (False, C1)
         else let off = smb_lseek L path offset
           in if off < 0 then (False, C1)
              else let (ok, k, _) = download_portion (smb_read_at L path) (\<lambda>_. 0) off (off + count) False (reads C1) (nat off)
                in (ok, C1\<lparr>reads := k\<rparr>))"

section \<open>Directories\<close>

record dirent =
  dir_name :: string
  dir_type :: string

text \<open>The entries of a batch that are kept: type 7 is a directory, type 8 a file.\<close>

definition keep_entries :: "(nat \<times> string) list \<Rightarrow> dirent list" where
  "keep_entries b =
     map (\<lambda>(t, n). \<lparr>dir_name = c_str n, dir_type = (if t = 7 then ''DIR'' else ''FILE'')\<rparr>)
       (filter (\<lambda>(t, n). t = 7 \<or> t = 8) b)"

fun getdents_loop :: "(nat \<times> string) list list \<Rightarrow> int option \<Rightarrow> dirent list \<Rightarrow> (bool \<times> int) \<times> dirent list" where
  "getdents_loop [] failed acc = (case failed of None \<Rightarrow> ((True, 0), acc) | Some errno \<Rightarrow> ((False, errno), acc))"
| "getdents_loop (b # bs) failed acc = (if b = [] then ((True, 0), acc) else getdents_loop bs failed (acc @ keep_entries b))"

text \<open>The result, with the \<open>errno\<close> a failure leaves behind.\<close>

definition list_dir :: "smb_lib \<Rightarrow> string \<Rightarrow> int \<Rightarrow> smb_client \<Rightarrow> ((bool \<times> int) \<times> dirent list) \<times> smb_client" where
  "list_dir L path errno0 C =
     (if \<not> smb_init_ok L then (((False, errno0), []), C)
      else let C' = C\<lparr>ctx_set := smb_ctx_ok L\<rparr>; (dh, errno) = smb_opendir L path
        in if dh < 1 then (((False, errno), []), C')
           else let (bs, failed) = smb_getdents L path in (getdents_loop bs failed [], C'))"

section \<open>Reading\<close>

text \<open>
  What libsmbclient documents: a read returns at most what was asked for, bytes of the file from
  the position on, and nothing only at its end; seeking to a position in the file succeeds.
\<close>

definition serves :: "(nat \<Rightarrow> nat \<Rightarrow> nat \<Rightarrow> string option) \<Rightarrow> string \<Rightarrow> bool" where
  "serves rd bytes \<longleftrightarrow> (\<forall>k pos n. \<exists>bs. rd k pos n = Some bs \<and> length bs \<le> n \<and> bs = take (length bs) (drop pos bytes)
     \<and> (bs = [] \<longrightarrow> n = 0 \<or> length bytes \<le> pos))"

definition remote_file :: "smb_lib \<Rightarrow> string \<Rightarrow> string \<Rightarrow> bool" where
  "remote_file L path bytes \<longleftrightarrow> serves (smb_read_at L path) bytes \<and> (\<forall>i \<ge> 0. smb_lseek L path i = i)"

lemma take_drop_append:
  "take n (drop off xs) @ take m (drop (off + n) xs) = take (n + m) (drop off xs)"
  by (simp only: take_add drop_drop add.commute [of off])

lemma read_loop_serves:
  assumes "serves rd bytes" "acc = take (length acc) (drop off bytes)" "length acc \<le> size_v"
  shows "\<exists>k'. read_loop rd k off size_v acc =
    Ok ((int (length (take size_v (drop off bytes))), take size_v (drop off bytes)), k')"
  using assms
proof (induction rd k off size_v acc rule: read_loop.induct)
  case (1 rd k off size_v acc)
  show ?case
  proof (cases "length acc < size_v")
    case True
    obtain bs where bs: "rd k (off + length acc) (size_v - length acc) = Some bs" "length bs \<le> size_v - length acc"
      "bs = take (length bs) (drop (off + length acc) bytes)" "bs = [] \<longrightarrow> length bytes \<le> off + length acc"
      using 1(2) True unfolding serves_def by (metis zero_less_diff less_not_refl)
    show ?thesis
    proof (cases "bs = []")
      case True
      with bs(4) have "take size_v (drop off bytes) = drop off bytes" "take (length acc) (drop off bytes) = drop off bytes"
        using 1(4) by simp_all
      with 1(3) have "take size_v (drop off bytes) = acc" by simp
      with bs True \<open>length acc < size_v\<close> show ?thesis by (subst read_loop.simps) simp
    next
      case False
      have "acc @ bs = take (length acc) (drop off bytes) @ take (length bs) (drop (off + length acc) bytes)"
        by (rule arg_cong2 [of _ _ _ _ "(@)", OF 1(3) bs(3)])
      then have e: "acc @ bs = take (length (acc @ bs)) (drop off bytes)" unfolding take_drop_append length_append .
      have l: "\<not> length bs > size_v - length acc" "length (acc @ bs) \<le> size_v" using bs(2) True by simp_all
      show ?thesis
        using 1(1) [OF True bs(1) l(1) False 1(2) e l(2)] bs(1) True False l(1) by (subst read_loop.simps) simp
    qed
  next
    case False
    with 1(3,4) show ?thesis by (subst read_loop.simps) simp
  qed
qed

lemma smb_read_exact:
  assumes "current_open_path C = Some path" "remote_file L path bytes" "off < 2 ^ 63"
  shows "\<exists>k. smb_read L C off n = Ok ((int (length (take n (drop off bytes))), take n (drop off bytes)), C\<lparr>reads := k\<rparr>)"
proof -
  have s: "sint (of_nat off :: 64 word) = int off"
    using assms(3) by (simp add: signed_of_nat signed_take_bit_int_eq_self)
  show ?thesis
    using read_loop_serves [of "smb_read_at L path" bytes "[]" off n "reads C"] assms(1,2)
    by (auto simp: smb_read_def s remote_file_def Let_def)
qed

interpretation smb_source: file_source "smb_read L" "\<lambda>_. bytes" "\<lambda>C :: smb_client. \<exists>path. current_open_path C = Some path \<and> remote_file L path bytes"
  for L bytes
proof
  fix C :: smb_client and off n
  assume "\<exists>path. current_open_path C = Some path \<and> remote_file L path bytes" "off + n \<le> length bytes" "off + n < 2 ^ 63"
  then show "\<exists>s'. smb_read L C off n = Ok ((int n, take n (drop off bytes)), s') \<and>
     (\<exists>path. current_open_path s' = Some path \<and> remote_file L path bytes) \<and> bytes = bytes"
    using smb_read_exact [of C _ L bytes off n] by fastforce
qed

section \<open>Credentials\<close>

lemma length_strncpy: "n \<le> length buf \<Longrightarrow> length (strncpy n src buf) = length buf"
  by (simp add: strncpy_def)

lemma c_str_append_NUL: "nul_free xs \<Longrightarrow> c_str (xs @ CHR 0x00 # ys) = xs"
  by (induction xs) (simp_all add: c_str_def)

lemma c_str_strncpy:
  assumes "nul_free src" "length src < n"
  shows "c_str (strncpy n src buf) = src"
proof -
  have "replicate n (CHR 0x00) = CHR 0x00 # replicate (n - 1) (CHR 0x00)"
    using assms(2) by (cases n) simp_all
  then have "strncpy n src buf = src @ CHR 0x00 # (take (n - length src - 1) (replicate (n - 1) (CHR 0x00)) @ drop n buf)"
    using assms by (cases "n - length src") (simp_all add: strncpy_def)
  with assms(1) show ?thesis by (simp only: c_str_append_NUL)
qed

section \<open>Properties\<close>

text \<open>
  Reading a remote file is exact: whatever pieces the library returns the bytes in, a read at an
  offset stores the bytes of the file from the offset, as many as asked for or as there are, and
  returns their number.
\<close>

theorem remote_read_exact:
  assumes "current_open_path C = Some path" and "remote_file L path bytes" and "off < 2 ^ 63"
  shows "\<exists>k. smb_read L C off n =
    Ok ((int (min n (length bytes - off)), take n (drop off bytes)), C\<lparr>reads := k\<rparr>)"
  using smb_read_exact [OF assms] by (simp add: min.commute)

definition sample_smb :: smb_lib where
  "sample_smb = \<lparr>smb_init_ok = True, smb_ctx_ok = True,
     smb_open = (\<lambda>p. if p = ''smb://host/share/a.txt'' then (3, 0) else (-1, 2)),
     smb_fstat = (\<lambda>p. Some (5, 77)), smb_lseek = (\<lambda>p i. i),
     smb_read_at = (\<lambda>p k pos n. Some (take (min n 2) (drop pos ''hello''))),
     smb_opendir = (\<lambda>p. (3, 0)),
     smb_getdents = (\<lambda>p. ([[(7, ''.''), (8, ''a.txt'')], [(8, ''b.exe''), (3, ''IPC'')]], None)),
     strerror = (\<lambda>e. ''error'')\<rparr>"

lemma sample_serves: "remote_file sample_smb path ''hello''"
  by (auto simp: remote_file_def serves_def sample_smb_def take_all_iff min_def)

theorem remote_read_exact_witness:
  "\<exists>k. smb_read sample_smb (new_smb_client\<lparr>current_open_path := Some ''p''\<rparr>) 1 3 =
     Ok ((3, ''ell''), new_smb_client\<lparr>current_open_path := Some ''p'', reads := k\<rparr>)"
  using remote_read_exact [OF _ sample_serves, of "new_smb_client\<lparr>current_open_path := Some ''p''\<rparr>" "''p''" 1 3] by simp

text \<open>
  The authentication callback: when the cache has a valid session for the server and the
  buffers have room, the library gets exactly the user and password of that session, as strings
  with their terminator, and its domain or, without a user, the name WORKGROUP; the buffers keep
  their length. Without a session for the server the process is aborted.
\<close>

theorem auth_uses_host_session:
  assumes "get_session_by stu element_remote now pServer C = (Some ss, C')" and "\<not> is_nil ss"
    and "\<forall>f \<in> {domain (creds ss), username (creds ss), password (creds ss), ''WORKGROUP''}. nul_free f \<and>
        (\<forall>buf \<in> {pWorkgroup b, pUsername b, pPassword b}. length f + 1 < length buf)"
  shows "\<exists>b'. smbc_auth_fn stu now ccname pServer b krb5 C = Ok (b', krb5, C')
    \<and> c_str (pUsername b') = username (creds ss) \<and> c_str (pPassword b') = password (creds ss)
    \<and> c_str (pWorkgroup b') = (if username (creds ss) = [] then ''WORKGROUP'' else domain (creds ss))
    \<and> map length [pWorkgroup b', pUsername b', pPassword b'] = map length [pWorkgroup b, pUsername b, pPassword b]"
  using assms by (auto simp: smbc_auth_fn_def length_strncpy intro!: c_str_strncpy)

definition sample_cache :: sessions_cache where
  "sample_cache = \<lparr>elements = [\<lparr>expiration_time = 0, stored = \<lparr>s_id = ''i'', s_remote = ''host'',
     s_creds = \<lparr>domain = ''D'', username = ''u'', password = ''p'', workstation = []\<rparr>\<rparr>\<rparr>], idle_timeout = 60\<rparr>"

theorem auth_uses_host_session_witness:
  "\<exists>b' C'. smbc_auth_fn (\<lambda>_. Some 1) 7 False ''host'' \<lparr>pWorkgroup = replicate 16 CHR 0x00, pUsername = replicate 16 CHR 0x00,
      pPassword = replicate 16 CHR 0x00\<rparr> True sample_cache = Ok (b', True, C')
    \<and> c_str (pUsername b') = ''u'' \<and> c_str (pPassword b') = ''p'' \<and> c_str (pWorkgroup b') = ''D''"
proof -
  define b where "b = \<lparr>pWorkgroup = replicate 16 CHR 0x00, pUsername = replicate 16 CHR 0x00, pPassword = replicate 16 CHR 0x00\<rparr>"
  obtain ss C' where g: "get_session_by (\<lambda>_. Some 1) element_remote 7 ''host'' sample_cache = (Some ss, C')" "uuid ss = 1"
    "creds ss = \<lparr>domain = ''D'', username = ''u'', password = ''p'', workstation = []\<rparr>"
    by (auto simp: get_session_by_def sample_cache_def lookup_by_def element_remote_def convert_from_shared_def session_default_def
        set_session_id_def c_str_Cons)
  then show ?thesis
    using auth_uses_host_session [OF g(1), of b False True] by (auto simp: b_def is_nil_def)
qed

end
