(* ===== verification/Base64.thy ===== *)
theory Base64
  imports Cdcm_Prelude "HOL-Library.Word"
begin

text \<open>
  The encoder of \<open>src/src/backend/services/samba_based/smb/actions/read_file.cpp\<close>, with its container
  of 24 bits in an \<open>unsigned int\<close>, and the Base64 encoding of RFC 4648 as the reference it is
  compared with.
\<close>

unbundle bit_operations_syntax

section \<open>The encoder\<close>

definition base64Alphabet :: string where
  "base64Alphabet = ''ABCDEFGHIJKLMNOPQRSTUVWXYZabcdefghijklmnopqrstuvwxyz0123456789+/''"

definition PAD :: char where "PAD = CHR ''=''"

definition base64_encoded_length :: "nat \<Rightarrow> nat" where
  "base64_encoded_length origLen = (origLen + 2) div 3 * 4"

text \<open>A letter of the alphabet: the low six bits of a number select it.\<close>

definition letter :: "32 word \<Rightarrow> char" where
  "letter w = base64Alphabet ! unat (w AND 0x3F)"

text \<open>
  The state of the scan: the container, the count of bytes in it, and what was written to the
  output so far. One step takes a byte.
\<close>

type_synonym scan = "32 word \<times> nat \<times> string"

fun scan_byte :: "char \<Rightarrow> scan \<Rightarrow> scan" where
  "scan_byte currByte (bitsContainer, charCount, out) =
     (let b = bitsContainer OR of_char currByte; n = charCount + 1
      in if n = 3 then
           (0, 0, out @ [letter (drop_bit 18 b), letter (drop_bit 12 b), letter (drop_bit 6 b), letter b])
         else (push_bit 8 b, n, out))"

fun scan_end :: "scan \<Rightarrow> string" where
  "scan_end (bitsContainer, charCount, out) =
     (if charCount = 0 then out
      else let b = push_bit (16 - 8 * charCount) bitsContainer
        in out @ [letter (drop_bit 18 b), letter (drop_bit 12 b)]
             @ (if charCount = 1 then [PAD] else [letter (drop_bit 6 b)]) @ [PAD])"

text \<open>
  The output string has its length from the beginning; the letters are written over its zeros,
  and past its end nothing may be written.
\<close>

definition base64_encode :: "string \<Rightarrow> string outcome" where
  "base64_encode inBuf =
     (if inBuf = [] then Ok []
      else let out = scan_end (fold scan_byte inBuf (0, 0, [])); len = base64_encoded_length (length inBuf)
        in if length out > len then UB else Ok (out @ replicate (len - length out) (CHR 0x00)))"

section \<open>The encoding of RFC 4648\<close>

definition digit64 :: "nat \<Rightarrow> char" where
  "digit64 n = base64Alphabet ! n"

abbreviation byte_val :: "char \<Rightarrow> nat" where
  "byte_val c \<equiv> of_char c"

fun rfc_encode :: "string \<Rightarrow> string" where
  "rfc_encode [] = []"
| "rfc_encode [a] = [digit64 (byte_val a div 4), digit64 (byte_val a mod 4 * 16), PAD, PAD]"
| "rfc_encode [a, b] =
     [digit64 (byte_val a div 4), digit64 (byte_val a mod 4 * 16 + byte_val b div 16), digit64 (byte_val b mod 16 * 4), PAD]"
| "rfc_encode (a # b # c # rest) =
     [digit64 (byte_val a div 4), digit64 (byte_val a mod 4 * 16 + byte_val b div 16),
      digit64 (byte_val b mod 16 * 4 + byte_val c div 64), digit64 (byte_val c mod 64)] @ rfc_encode rest"

text \<open>The decoder: the value of a letter is its index, and the padding tells how many bytes the last group has.\<close>

fun index_of :: "char \<Rightarrow> string \<Rightarrow> nat" where
  "index_of c [] = 0"
| "index_of c (x # xs) = (if c = x then 0 else 1 + index_of c xs)"

definition value64 :: "char \<Rightarrow> nat" where
  "value64 c = index_of c base64Alphabet"

fun rfc_decode :: "string \<Rightarrow> string" where
  "rfc_decode (w # x # y # z # rest) =
     char_of (value64 w * 4 + value64 x div 16) #
     (if y = PAD then [] else char_of (value64 x mod 16 * 16 + value64 y div 4) #
     (if z = PAD then [] else char_of (value64 y mod 4 * 64 + value64 z) # rfc_decode rest))"
| "rfc_decode _ = []"

section \<open>Lemmas\<close>

lemma unat_of_char [simp]: "unat (of_char c :: 32 word) = byte_val c"
proof -
  have "(of_char c :: 32 word) = of_nat (byte_val c)" by (simp only: of_nat_of_char)
  then show ?thesis using nat_of_char_less_256 [of c]
    by (simp only: unat_of_nat) (simp add: order_less_trans [of _ 256])
qed

text \<open>Bytes shifted together are the number they spell.\<close>

lemma push_or: "y < 2 ^ n \<Longrightarrow> push_bit n x OR y = x * 2 ^ n + y" for x y :: nat
proof -
  assume "y < 2 ^ n"
  then have y: "take_bit n y = y" by (simp add: take_bit_nat_eq_self)
  have "push_bit n x + take_bit n y = push_bit n x OR take_bit n y"
    by (rule disjunctive_add) (auto simp: bit_simps)
  then show ?thesis by (simp add: y push_bit_eq_mult)
qed

lemma unat_push: "unat w < 2 ^ (32 - n) \<Longrightarrow> n \<le> 32 \<Longrightarrow> unat (push_bit n w) = unat w * 2 ^ n" for w :: "32 word"
proof -
  assume "unat w < 2 ^ (32 - n)" "n \<le> 32"
  then have "unat w * 2 ^ n < 2 ^ (32 - n) * 2 ^ n" by simp
  also have "\<dots> = 2 ^ 32" using \<open>n \<le> 32\<close> by (simp add: power_add [symmetric])
  finally have "unat w * 2 ^ n < 2 ^ 32" .
  moreover have "unat (push_bit n w) = take_bit 32 (push_bit n (unat w))" by (simp add: unsigned_push_bit_eq)
  ultimately show ?thesis by (simp only: push_bit_eq_mult [where 'a=nat] take_bit_nat_eq_self)
qed

lemma unat_push_or:
  "unat w < 2 ^ 24 \<Longrightarrow> unat (push_bit 8 w OR of_char c) = unat w * 256 + byte_val c" for w :: "32 word"
proof -
  assume "unat w < 2 ^ 24"
  then have "unat (push_bit 8 w) = push_bit 8 (unat w)" using unat_push [of w 8] by (simp add: push_bit_eq_mult)
  then show ?thesis using push_or [of "byte_val c" 8 "unat w"] by (simp add: unsigned_or_eq)
qed

lemma letter_eq: "letter w = digit64 (unat w mod 64)"
proof -
  have "w AND 0x3F = take_bit 6 w" by (simp add: take_bit_eq_mask mask_eq_exp_minus_1 del: take_bit_eq_mod)
  then have "unat (w AND 0x3F) = take_bit 6 (unat w)" by (simp only: unsigned_take_bit_eq)
  then show ?thesis by (simp add: letter_def digit64_def take_bit_eq_mod)
qed

lemma letter_drop: "letter (drop_bit n w) = digit64 (unat w div 2 ^ n mod 64)"
  by (simp only: letter_eq unat_drop_bit_eq drop_bit_eq_div [where 'a=nat])

text \<open>The four six-bit parts of three bytes.\<close>

lemma letters64:
  fixes a b c :: nat
  assumes "a < 256" "b < 256" "c < 256"
  defines "w \<equiv> (a * 256 + b) * 256 + c"
  shows "w div 262144 mod 64 = a div 4" "w div 4096 mod 64 = a mod 4 * 16 + b div 16"
    "w div 64 mod 64 = b mod 16 * 4 + c div 64" "w mod 64 = c mod 64"
proof -
  have a4: "4 * (a div 4) + a mod 4 = a" and b16: "16 * (b div 16) + b mod 16 = b" and c64: "64 * (c div 64) + c mod 64 = c"
    by simp_all
  have w: "w = a * 65536 + b * 256 + c" by (simp add: w_def)
  have r: "a mod 4 < 4" "b mod 16 < 16" "c mod 64 < 64" "a div 4 < 64" "b div 16 < 16" "c div 64 < 4" using assms by simp_all
  have "w div 262144 = a div 4" by (rule div_nat_eqI; (simp only: mult_Suc_right add_mult_distrib2)?; insert a4 r w assms(1,2,3); linarith)
  then show "w div 262144 mod 64 = a div 4" using r by simp
  have "w div 4096 = a * 16 + b div 16" by (rule div_nat_eqI; (simp only: mult_Suc_right add_mult_distrib2)?; insert b16 r w assms(1,2,3); linarith)
  also have "\<dots> = (a mod 4 * 16 + b div 16) + (a div 4) * 64" using a4 by linarith
  also have "\<dots> mod 64 = a mod 4 * 16 + b div 16" using r by simp
  finally show "w div 4096 mod 64 = a mod 4 * 16 + b div 16" .
  have "w div 64 = a * 1024 + b * 4 + c div 64" by (rule div_nat_eqI; (simp only: mult_Suc_right add_mult_distrib2)?; insert c64 r w assms(1,2,3); linarith)
  also have "\<dots> = (b mod 16 * 4 + c div 64) + (a * 16 + b div 16) * 64" using b16 by (simp add: add_mult_distrib; linarith)
  also have "\<dots> mod 64 = b mod 16 * 4 + c div 64" using r by (simp only: mod_mult_self1) (simp, linarith?)
  finally show "w div 64 mod 64 = b mod 16 * 4 + c div 64" .
  have "w = c + (a * 1024 + b * 4) * 64" by (simp add: w_def)
  then show "w mod 64 = c mod 64" by (simp only: mod_mult_self1)
qed
lemma scan_three:
  "fold scan_byte (a # b # c # rest) (0, 0, out) =
   fold scan_byte rest (0, 0, out @
     [digit64 (byte_val a div 4), digit64 (byte_val a mod 4 * 16 + byte_val b div 16),
      digit64 (byte_val b mod 16 * 4 + byte_val c div 64), digit64 (byte_val c mod 64)])"
proof -
  define w :: "32 word" where "w = push_bit 8 (push_bit 8 (of_char a) OR of_char b) OR of_char c"
  have a: "byte_val a < 256" "byte_val b < 256" "byte_val c < 256" by simp_all
  have "unat (push_bit 8 (of_char a) OR of_char b :: 32 word) = byte_val a * 256 + byte_val b"
    using order_less_trans [OF a(1)] by (subst unat_push_or) simp_all
  moreover have "byte_val a * 256 + byte_val b < 2 ^ 24" using a by (simp del: nat_of_char_less_256)
  ultimately have w: "unat w = (byte_val a * 256 + byte_val b) * 256 + byte_val c"
    unfolding w_def by (subst unat_push_or) simp_all
  note letters = letters64 [OF a]
  have "fold scan_byte (a # b # c # rest) (0, 0, out) =
    fold scan_byte rest (0, 0, out @ [letter (drop_bit 18 w), letter (drop_bit 12 w), letter (drop_bit 6 w), letter w])"
    by (simp add: w_def Let_def)
  also have "letter (drop_bit 18 w) = digit64 (byte_val a div 4)"
    by (simp add: letter_drop w letters [simplified])
  also have "letter (drop_bit 12 w) = digit64 (byte_val a mod 4 * 16 + byte_val b div 16)"
    by (simp add: letter_drop w letters [simplified])
  also have "letter (drop_bit 6 w) = digit64 (byte_val b mod 16 * 4 + byte_val c div 64)"
    by (simp add: letter_drop w letters [simplified])
  also have "letter w = digit64 (byte_val c mod 64)"
    by (simp add: letter_eq w letters [simplified])
  finally show ?thesis .
qed

lemma scan_one:
  "scan_end (fold scan_byte [a] (0, 0, out)) = out @ rfc_encode [a]"
proof -
  define w :: "32 word" where "w = push_bit 8 (push_bit 8 (of_char a))"
  have a: "byte_val a < 256" by simp
  have v: "unat (push_bit 8 (of_char a) :: 32 word) = byte_val a * 256"
    using unat_push [of "of_char a" 8] order_less_trans [OF a] by simp
  moreover have "byte_val a * 256 < 2 ^ 24" using a by (simp del: nat_of_char_less_256)
  ultimately have w: "unat w = byte_val a * 65536" unfolding w_def by (subst unat_push) simp_all
  note letters = letters64 [of "byte_val a" 0 0]
  have "letter (drop_bit 18 w) = digit64 (byte_val a div 4)"
    by (simp add: letter_drop w letters [simplified])
  moreover have "letter (drop_bit 12 w) = digit64 (byte_val a mod 4 * 16)"
    by (simp add: letter_drop w letters [simplified])
  moreover have "scan_end (fold scan_byte [a] (0, 0, out)) = out @ [letter (drop_bit 18 w), letter (drop_bit 12 w), PAD, PAD]"
    by (simp add: w_def Let_def)
  ultimately show ?thesis by simp
qed

lemma scan_two:
  "scan_end (fold scan_byte [a, b] (0, 0, out)) = out @ rfc_encode [a, b]"
proof -
  define w :: "32 word" where "w = push_bit 8 (push_bit 8 (of_char a) OR of_char b)"
  have a: "byte_val a < 256" "byte_val b < 256" by simp_all
  have v: "unat (push_bit 8 (of_char a) OR of_char b :: 32 word) = byte_val a * 256 + byte_val b"
    using order_less_trans [OF a(1)] by (subst unat_push_or) simp_all
  moreover have "byte_val a * 256 + byte_val b < 2 ^ 24" using a by (simp del: nat_of_char_less_256)
  ultimately have w: "unat w = (byte_val a * 256 + byte_val b) * 256" unfolding w_def by (subst unat_push) simp_all
  note letters = letters64 [OF a, of 0]
  have "letter (drop_bit 18 w) = digit64 (byte_val a div 4)"
    by (simp add: letter_drop w letters [simplified])
  moreover have "letter (drop_bit 12 w) = digit64 (byte_val a mod 4 * 16 + byte_val b div 16)"
    by (simp add: letter_drop w letters [simplified])
  moreover have "letter (drop_bit 6 w) = digit64 (byte_val b mod 16 * 4)"
    by (simp add: letter_drop w letters [simplified])
  moreover have "scan_end (fold scan_byte [a, b] (0, 0, out)) =
      out @ [letter (drop_bit 18 w), letter (drop_bit 12 w), letter (drop_bit 6 w), PAD]"
    by (simp add: w_def Let_def)
  ultimately show ?thesis by simp
qed

lemma scan_all: "scan_end (fold scan_byte bs (0, 0, out)) = out @ rfc_encode bs"
proof (induction bs arbitrary: out rule: rfc_encode.induct)
  case (4 a b c rest)
  then show ?case by (simp only: scan_three) simp
qed (simp_all only: scan_one scan_two, simp)

lemma length_rfc: "length (rfc_encode bs) = base64_encoded_length (length bs)"
proof (induction bs rule: rfc_encode.induct)
  case (4 a b c rest)
  have "(5 + length rest) div 3 = Suc (Suc (Suc (length rest)) div 3)" by presburger
  with 4 show ?case by (simp add: base64_encoded_length_def)
qed (simp_all add: base64_encoded_length_def)

text \<open>The alphabet has no letter twice and not the padding, so decoding is the inverse.\<close>

lemma value64_digit64: "n < 64 \<Longrightarrow> value64 (digit64 n) = n"
proof -
  have "\<forall>k \<in> set [0..<64]. value64 (digit64 k) = k" by code_simp
  then show "n < 64 \<Longrightarrow> ?thesis" by simp
qed

lemma digit64_not_PAD: "n < 64 \<Longrightarrow> digit64 n \<noteq> PAD"
proof -
  have "\<forall>k \<in> set [0..<64]. digit64 k \<noteq> PAD" by code_simp
  then show "n < 64 \<Longrightarrow> ?thesis" by simp
qed

text \<open>The six-bit parts of the bytes, and the bytes put together again.\<close>

lemma six_bits:
  fixes x y :: nat
  assumes "x < 256" "y < 256"
  shows "x div 4 < 64" "x mod 4 * 16 + y div 16 < 64" "x mod 16 * 4 + y div 64 < 64" "x mod 64 < 64"
    "x mod 4 * 16 < 64" "x mod 16 * 4 < 64"
    "(x mod 4 * 16 + y div 16) div 16 = x mod 4" "(x mod 4 * 16 + y div 16) mod 16 = y div 16"
    "(x mod 16 * 4 + y div 64) div 4 = x mod 16" "(x mod 16 * 4 + y div 64) mod 4 = y div 64"
proof -
  have "y div 16 < 16" "y div 64 < 4" "x mod 4 < 4" "x mod 16 < 16" using assms by simp_all
  then show "x div 4 < 64" "x mod 4 * 16 + y div 16 < 64" "x mod 16 * 4 + y div 64 < 64" "x mod 64 < 64"
    "x mod 4 * 16 < 64" "x mod 16 * 4 < 64"
    "(x mod 4 * 16 + y div 16) div 16 = x mod 4" "(x mod 4 * 16 + y div 16) mod 16 = y div 16"
    "(x mod 16 * 4 + y div 64) div 4 = x mod 16" "(x mod 16 * 4 + y div 64) mod 4 = y div 64"
    using assms by simp_all
qed

lemma byte_parts:
  fixes x :: nat
  assumes "x < 256"
  shows "x div 16 mod 16 = x div 16" "x div 64 mod 4 = x div 64"
  using assms by simp_all

lemma rfc_decode_encode: "rfc_decode (rfc_encode bs) = bs"
  by (induction bs rule: rfc_encode.induct)
    (simp_all add: value64_digit64 digit64_not_PAD six_bits [OF nat_of_char_less_256 nat_of_char_less_256]
      byte_parts [OF nat_of_char_less_256])

lemma base64_encode_eq: "base64_encode bs = Ok (rfc_encode bs)"
  by (simp add: base64_encode_def scan_all length_rfc Let_def)

section \<open>Properties\<close>

text \<open>
  C22. The encoder is Base64: on every sequence of bytes it writes exactly the letters of RFC 4648,
  within the string it allocated and filling it, and decoding them gives the bytes back.
\<close>

theorem base64_is_rfc4648:
  "base64_encode bs = Ok (rfc_encode bs) \<and> length (rfc_encode bs) = base64_encoded_length (length bs)
   \<and> rfc_decode (rfc_encode bs) = bs"
  by (simp add: base64_encode_eq length_rfc rfc_decode_encode)

end
