(* ===== verification/Smb_Actions.thy ===== *)
theory Smb_Actions
  imports Smb_Client Base64 Action_Answers Wildcards
begin

text \<open>
  \<open>src/src/backend/services/samba_based/smb/actions/\<close>: the actions that read, test and list files of
  the session's host. As for the registry, the environment is indexed by the server's counter
  \<open>drawn\<close>; \<open>alloc_ok\<close> says which sizes \<open>new\<close> can allocate, and \<open>stale_errno\<close> is what \<open>errno\<close> holds when
  no call has set it.
\<close>

record smb_env =
  smb_conf_files :: "string \<Rightarrow> json outcome"
  smb_at :: "nat \<Rightarrow> smb_lib"
  alloc_ok :: "nat \<Rightarrow> bool"
  stale_errno :: int

section \<open>Numbers in strings\<close>

text \<open>\<open>std::stoll\<close> and \<open>std::stoul\<close>: white space, a sign, digits; what follows is ignored.\<close>

definition isdigit :: "char \<Rightarrow> bool" where
  "isdigit c \<longleftrightarrow> c \<in> set ''0123456789''"

definition digits_value :: "string \<Rightarrow> int" where
  "digits_value ds = fold (\<lambda>c v. v * 10 + (of_char c - 48)) ds 0"

definition strto :: "string \<Rightarrow> (bool \<times> int) option" where
  "strto s =
     (let t = dropWhile isspace (c_str s);
          neg = (t \<noteq> [] \<and> hd t = CHR ''-'');
          u = (if t \<noteq> [] \<and> hd t \<in> {CHR ''-'', CHR ''+''} then tl t else t);
          ds = takeWhile isdigit u
      in if ds = [] then None else Some (neg, digits_value ds))"

definition stoll :: "string \<Rightarrow> int outcome" where
  "stoll s =
     (case strto s of
        None \<Rightarrow> Throw
      | Some (neg, n) \<Rightarrow>
          let v = (if neg then - n else n) in if - (2 ^ 63) \<le> v \<and> v < 2 ^ 63 then Ok v else Throw)"

definition stoul :: "string \<Rightarrow> 64 word outcome" where
  "stoul s =
     (case strto s of
        None \<Rightarrow> Throw
      | Some (neg, n) \<Rightarrow> if n < 2 ^ 64 then Ok (word_of_int (if neg then - n else n)) else Throw)"

section \<open>Common steps\<close>

text \<open>The constructor of \<open>smb_client\<close>; a configuration that cannot be read is only logged.\<close>

definition with_smb_client ::
  "smb_env \<Rightarrow> server \<Rightarrow> (smb_lib \<Rightarrow> smb_client \<Rightarrow> server \<Rightarrow> act_result) \<Rightarrow> act_result" where
  "with_smb_client E s k =
     bind_o (init_smb_conf (smb_conf_files E) (service_conf s)) (\<lambda>(_, _, repo).
       k (smb_at E (drawn s)) new_smb_client (s\<lparr>service_conf := repo, drawn := drawn s + 1\<rparr>))"

definition smb_url :: "session \<Rightarrow> string \<Rightarrow> string" where
  "smb_url sess path = ''smb://'' @ remote sess @ ''/'' @ map (\<lambda>c. if c = CHR 0x5C then CHR ''/'' else c) path"

definition errno_error :: "smb_lib \<Rightarrow> int \<Rightarrow> result_msg \<Rightarrow> server \<Rightarrow> act_result" where
  "errno_error L e res s = asset_error (word_of_int e) (strerror L e) FAILED res s"

definition ENOENT :: int where "ENOENT = 2"
definition ENODEV :: int where "ENODEV = 19"
definition ENOTDIR :: int where "ENOTDIR = 20"

section \<open>The actions\<close>

text \<open>
  \<open>read_file\<close>. The size 0 stands for the rest of the file; the difference is taken in 64 bits
  without a sign. \<open>make_unique\<close> throws when the buffer cannot be allocated.
\<close>

definition read_file_act :: "smb_env \<Rightarrow> session option \<Rightarrow> action_msg \<Rightarrow> result_msg \<Rightarrow> server \<Rightarrow> act_result" where
  "read_file_act E sess m res s0 =
     checked_session sess res s0 (\<lambda>ss.
       case m of
         Read_file_msg i path size0 offset0 \<Rightarrow>
           if path = [] then fail_with PATH_IS_MANDATORY res s0
           else let offset_v = (if offset0 = [] then ''0'' else offset0); size_v = (if size0 = [] then ''0'' else size0)
             in bind_o (stoll offset_v) (\<lambda>o_v.
                bind_o (if o_v < 0 then Ok True else bind_o (stoll size_v) (\<lambda>z. Ok (z < 0))) (\<lambda>negative.
                if negative then fail_with BAD_PARAMETER res s0
                else with_smb_client E s0 (\<lambda>L rc s.
                  let ((ok, e), rc1) = open_file L (c_str (smb_url ss path)) rc
                  in if \<not> ok then errno_error L e res s
                     else bind_o (stoul offset_v) (\<lambda>off. bind_o (stoul size_v) (\<lambda>sz0.
                       let sz = (if sz0 = 0 then smb_file_size rc1 - off else sz0)
                       in if \<not> alloc_ok E (unat sz) then Throw
                          else bind_o (smb_read L rc1 (unat off) (unat sz)) (\<lambda>((r, buff), rc2).
                            if r = -1 then fail_with READ_FILE_FAILED res s
                            else bind_o (base64_encode (take (nat r) buff)) (\<lambda>c64_str.
                              succeed_with (JStr c64_str) res s)))))))
       | _ \<Rightarrow> fail_with INTERNAL_ERROR res s0)"

definition file_exists_act :: "smb_env \<Rightarrow> session option \<Rightarrow> action_msg \<Rightarrow> result_msg \<Rightarrow> server \<Rightarrow> act_result" where
  "file_exists_act E sess m res s0 =
     checked_session sess res s0 (\<lambda>ss.
       case m of
         File_exists_msg i path \<Rightarrow>
           if path = [] then fail_with PATH_IS_MANDATORY res s0
           else with_smb_client E s0 (\<lambda>L rc s.
             let ((ok, e), rc1) = open_file L (c_str (smb_url ss path)) rc
             in if ok then succeed_with (JStr ''True'') res s
                else if e = ENODEV \<or> e = ENOTDIR \<or> e = ENOENT then succeed_with (JStr ''False'') res s
                else errno_error L e res s)
       | _ \<Rightarrow> fail_with INTERNAL_ERROR res s0)"

definition dirent_to_json :: "dirent \<Rightarrow> json" where
  "dirent_to_json d = JObj [(''name'', JStr (dir_name d)), (''type'', JStr (dir_type d))]"

text \<open>\<open>remove_if\<close> with the pattern: an entry stays when its name matches.\<close>

fun filter_o :: "('a \<Rightarrow> bool outcome) \<Rightarrow> 'a list \<Rightarrow> 'a list outcome" where
  "filter_o p [] = Ok []"
| "filter_o p (x # xs) = bind_o (p x) (\<lambda>b. bind_o (filter_o p xs) (\<lambda>ys. Ok (if b then x # ys else ys)))"

definition list_dir_act :: "smb_env \<Rightarrow> session option \<Rightarrow> action_msg \<Rightarrow> result_msg \<Rightarrow> server \<Rightarrow> act_result" where
  "list_dir_act E sess m res s0 =
     checked_session sess res s0 (\<lambda>ss.
       case m of
         List_dir_msg i path pattern_v \<Rightarrow>
           if path = [] then fail_with PATH_IS_MANDATORY res s0
           else with_smb_client E s0 (\<lambda>L rc s.
             let (((ok, e), entries), rc1) = list_dir L (c_str (smb_url ss path)) (stale_errno E) rc
             in if \<not> ok then errno_error L e res s
                else bind_o (if pattern_v = [] then Ok entries
                             else filter_o (\<lambda>d. wildcards_match (dir_name d) pattern_v) entries) (\<lambda>kept.
                  succeed_with (JArr (map dirent_to_json kept)) res s))
       | _ \<Rightarrow> fail_with INTERNAL_ERROR res s0)"

definition SMB_Read_File :: "smb_env \<Rightarrow> action" where
  "SMB_Read_File E = \<lparr>act_name = ''read_file'', get_message = read_file_msg_as, act = read_file_act E\<rparr>"

definition SMB_File_Exists :: "smb_env \<Rightarrow> action" where
  "SMB_File_Exists E = \<lparr>act_name = ''file_exists'', get_message = file_exists_msg_as, act = file_exists_act E\<rparr>"

definition SMB_List_Dir :: "smb_env \<Rightarrow> action" where
  "SMB_List_Dir E = \<lparr>act_name = ''list_dir'', get_message = list_dir_msg_as, act = list_dir_act E\<rparr>"

section \<open>Lemmas\<close>

definition smb_ready :: "smb_env \<Rightarrow> server \<Rightarrow> bool" where
  "smb_ready E s \<longleftrightarrow> is_ok (init_smb_conf (smb_conf_files E) (service_conf s))"

lemma with_smb_client_eq:
  assumes "smb_ready E s"
  obtains repo where "\<And>k. with_smb_client E s k = k (smb_at E (drawn s)) new_smb_client (s\<lparr>service_conf := repo, drawn := drawn s + 1\<rparr>)"
  using assms by (fastforce simp: smb_ready_def is_ok_iff with_smb_client_def)

text \<open>How opening a path of the session's host ends.\<close>

definition opens :: "smb_lib \<Rightarrow> string \<Rightarrow> bool \<times> int" where
  "opens L path = fst (open_file L path new_smb_client)"

lemma open_file_ok:
  assumes "opens L path = (True, e)"
  obtains st where "open_file L path new_smb_client =
    ((True, 0), new_smb_client\<lparr>ctx_set := smb_ctx_ok L, remote_fd := fst (smb_open L path), current_open_path := Some path, remotestat := st\<rparr>)"
    "smb_fstat L path = Some st" "e = 0"
  using assms by (auto simp: opens_def open_file_def Let_def split: if_splits prod.splits option.splits)

lemma filter_o_Ok: "(\<And>x. x \<in> set xs \<Longrightarrow> p x = Ok (q x)) \<Longrightarrow> filter_o p xs = Ok (filter q xs)"
  by (induction xs) auto

lemma stoul_stoll: "stoll t = Ok v \<Longrightarrow> 0 \<le> v \<Longrightarrow> stoul t = Ok (word_of_int v)"
  by (auto simp: stoll_def stoul_def Let_def split: option.splits if_splits)

lemma stoll_bound: "stoll t = Ok v \<Longrightarrow> v < 2 ^ 63"
  by (auto simp: stoll_def Let_def split: option.splits if_splits)

text \<open>What \<open>read_file\<close> does once its parameters are read and the file is open.\<close>

lemma read_file_opened:
  assumes "\<not> is_nil ss" "smb_ready E s" "path \<noteq> []"
    and "stoll (if off = [] then ''0'' else off) = Ok (int ov)" "stoll (if size_v = [] then ''0'' else size_v) = Ok (int n)"
    and "opens (smb_at E (drawn s)) (c_str (smb_url ss path)) = (True, e)"
  obtains rc1 st repo where "current_open_path rc1 = Some (c_str (smb_url ss path))"
    "smb_fstat (smb_at E (drawn s)) (c_str (smb_url ss path)) = Some st" "remotestat rc1 = st"
    "read_file_act E (Some ss) (Read_file_msg i path size_v off) res s =
      (let sz = (if n = 0 then smb_file_size rc1 - of_nat ov else of_nat n); s' = s\<lparr>service_conf := repo, drawn := drawn s + 1\<rparr>
       in if \<not> alloc_ok E (unat sz) then Throw
          else bind_o (smb_read (smb_at E (drawn s)) rc1 ov (unat sz)) (\<lambda>((r, buff), rc2).
            if r = -1 then fail_with READ_FILE_FAILED res s'
            else succeed_with (JStr (rfc_encode (take (nat r) buff))) res s'))"
proof -
  obtain repo where w: "\<And>k. with_smb_client E s k =
      k (smb_at E (drawn s)) new_smb_client (s\<lparr>service_conf := repo, drawn := drawn s + 1\<rparr>)"
    using with_smb_client_eq [OF assms(2)] by blast
  obtain st where f: "open_file (smb_at E (drawn s)) (c_str (smb_url ss path)) new_smb_client =
      ((True, 0), new_smb_client\<lparr>ctx_set := smb_ctx_ok (smb_at E (drawn s)),
        remote_fd := fst (smb_open (smb_at E (drawn s)) (c_str (smb_url ss path))),
        current_open_path := Some (c_str (smb_url ss path)), remotestat := st\<rparr>)"
      "smb_fstat (smb_at E (drawn s)) (c_str (smb_url ss path)) = Some st"
    using open_file_ok [OF assms(6)] by blast
  define rc1 where "rc1 = new_smb_client\<lparr>ctx_set := smb_ctx_ok (smb_at E (drawn s)),
        remote_fd := fst (smb_open (smb_at E (drawn s)) (c_str (smb_url ss path))),
        current_open_path := Some (c_str (smb_url ss path)), remotestat := st\<rparr>"
  have rc1: "current_open_path rc1 = Some (c_str (smb_url ss path))" "remotestat rc1 = st" by (simp_all add: rc1_def)
  have u: "stoul (if off = [] then ''0'' else off) = Ok (of_nat ov)" "stoul (if size_v = [] then ''0'' else size_v) = Ok (of_nat n)"
    using stoul_stoll [OF assms(4)] stoul_stoll [OF assms(5)] by simp_all
  have b: "ov < 2 ^ 63" "n < 2 ^ 63" using stoll_bound [OF assms(4)] stoll_bound [OF assms(5)] by simp_all
  then have o: "unat (of_nat ov :: 64 word) = ov" by (simp add: unat_of_nat take_bit_nat_eq_self)
  have z: "(of_nat n :: 64 word) = 0 \<longleftrightarrow> n = 0"
  proof
    assume "(of_nat n :: 64 word) = 0"
    then have "unat (of_nat n :: 64 word) = 0" by simp
    with b(2) show "n = 0" by (simp add: unat_of_nat take_bit_nat_eq_self)
  qed simp
  show thesis
  proof (rule that [OF rc1(1) f(2) rc1(2)])
    show "read_file_act E (Some ss) (Read_file_msg i path size_v off) res s =
      (let sz = (if n = 0 then smb_file_size rc1 - of_nat ov else of_nat n); s' = s\<lparr>service_conf := repo, drawn := drawn s + 1\<rparr>
       in if \<not> alloc_ok E (unat sz) then Throw
          else bind_o (smb_read (smb_at E (drawn s)) rc1 ov (unat sz)) (\<lambda>((r, buff), rc2).
            if r = -1 then fail_with READ_FILE_FAILED res s'
            else succeed_with (JStr (rfc_encode (take (nat r) buff))) res s'))"
      using assms(1,3) by (simp add: read_file_act_def checked_session_def w f(1) [folded rc1_def] u assms(4,5) o z Let_def
          base64_encode_eq cong: if_cong)
  qed
qed

section \<open>Properties\<close>

text \<open>
  C21. A file is delivered: for a valid session, a path that opens, offset and size that are numbers
  (the empty string standing for 0) and a buffer that can be allocated, the answer to a
  \<open>read_file\<close> request is a success whose text, decoded from Base64, is exactly the part of the
  file asked for, the size 0 standing for the rest of the file.
\<close>

theorem read_file_delivers:
  assumes "\<not> is_nil ss" and "smb_ready E s" and "path \<noteq> []"
    and "stoll (if off = [] then ''0'' else off) = Ok (int ov)" and "stoll (if size_v = [] then ''0'' else size_v) = Ok (int n)"
    and "opens (smb_at E (drawn s)) (c_str (smb_url ss path)) = (True, e)"
    and "remote_file (smb_at E (drawn s)) (c_str (smb_url ss path)) bytes"
    and "smb_fstat (smb_at E (drawn s)) (c_str (smb_url ss path)) = Some (int (length bytes), t)" and "length bytes < 2 ^ 63"
    and "n = 0 \<longrightarrow> ov \<le> length bytes" and "alloc_ok E (if n = 0 then length bytes - ov else n)"
  shows "\<exists>res' s' t. read_file_act E (Some ss) (Read_file_msg i path size_v off) res s = Ok (SUCCEEDED, res', s')
    \<and> msg_id res' = msg_id res \<and> msg_status res' = error_status CE_OK \<and> msg_result res' = JStr t
    \<and> rfc_decode t = take (if n = 0 then length bytes - ov else n) (drop ov bytes)"
proof -
  obtain rc1 st repo where r: "current_open_path rc1 = Some (c_str (smb_url ss path))"
      "smb_fstat (smb_at E (drawn s)) (c_str (smb_url ss path)) = Some st" "remotestat rc1 = st"
      "read_file_act E (Some ss) (Read_file_msg i path size_v off) res s =
        (let sz = (if n = 0 then smb_file_size rc1 - of_nat ov else of_nat n); s' = s\<lparr>service_conf := repo, drawn := drawn s + 1\<rparr>
         in if \<not> alloc_ok E (unat sz) then Throw
            else bind_o (smb_read (smb_at E (drawn s)) rc1 ov (unat sz)) (\<lambda>((r, buff), rc2).
              if r = -1 then fail_with READ_FILE_FAILED res s'
              else succeed_with (JStr (rfc_encode (take (nat r) buff))) res s'))"
    by (rule read_file_opened [OF assms(1-6)]) blast
  define sz :: "64 word" where "sz = (if n = 0 then smb_file_size rc1 - of_nat ov else of_nat n)"
  have b: "ov < 2 ^ 63" "n < 2 ^ 63" using stoll_bound [OF assms(4)] stoll_bound [OF assms(5)] by simp_all
  have sz: "unat sz = (if n = 0 then length bytes - ov else n)"
  proof (cases "n = 0")
    case True
    then have "sz = of_nat (length bytes) - of_nat ov" using r(2,3) assms(8) by (auto simp: sz_def smb_file_size_def)
    also have "\<dots> = of_nat (length bytes - ov)" using True assms(10) by simp
    finally show ?thesis using True assms(9) by (simp add: unat_of_nat take_bit_nat_eq_self)
  next
    case False
    with b(2) show ?thesis by (simp add: sz_def unat_of_nat take_bit_nat_eq_self)
  qed
  obtain k where "smb_read (smb_at E (drawn s)) rc1 ov (unat sz) =
      Ok ((int (length (take (unat sz) (drop ov bytes))), take (unat sz) (drop ov bytes)), rc1\<lparr>reads := k\<rparr>)"
    using smb_read_exact [OF r(1) assms(7) b(1)] by blast
  moreover have "take (min (length bytes - ov) m) (drop ov bytes) = take m (drop ov bytes)" for m
    by (simp add: min_def)
  ultimately show ?thesis
    using assms(11) by (simp add: r(4) sz_def [symmetric] Let_def succeed_with_Ok sz rfc_decode_encode)
qed


definition sample_smb_env :: smb_env where
  "sample_smb_env = \<lparr>smb_conf_files = (\<lambda>_. Throw), smb_at = (\<lambda>_. sample_smb), alloc_ok = (\<lambda>n. n < 2 ^ 40), stale_errno = 0\<rparr>"

definition sample_smb_server :: server where
  "sample_smb_server = \<lparr>sessions = \<lparr>elements = [], idle_timeout = 60\<rparr>, clock = 0, randoms = (\<lambda>n. 5), drawn = 0,
     faults = (\<lambda>n. No_Fault), service_conf = [''smb'' \<mapsto> Smb_Conf \<lparr>max_mem_segment = 1\<rparr>], get_sd_called = False\<rparr>"

lemma sample_smb_ready: "smb_ready sample_smb_env sample_smb_server" "smb_at sample_smb_env n = sample_smb"
  "drawn sample_smb_server = 0" "remote sample_session = ''host''"
  by (auto simp: smb_ready_def sample_smb_env_def sample_smb_server_def init_smb_conf_def init_conf_def dhas_def dfind_def
      sample_session_def)

lemma sample_url: "c_str (smb_url sample_session (''share'' @ [CHR 0x5C] @ ''a.txt'')) = ''smb://host/share/a.txt''"
  by (simp add: smb_url_def sample_session_def c_str_Cons)

lemma sample_opens: "opens sample_smb ''smb://host/share/a.txt'' = (True, 0)"
  by (simp add: opens_def open_file_def sample_smb_def Let_def)

theorem read_file_delivers_witness:
  "\<exists>res' s' t. read_file_act sample_smb_env (Some sample_session) (Read_file_msg ''7'' (''share'' @ [CHR 0x5C] @ ''a.txt'') [] '' 2x'')
     result_msg_default sample_smb_server = Ok (SUCCEEDED, res', s') \<and> msg_result res' = JStr t \<and> rfc_decode t = ''llo''"
proof -
  have p: "stoll '' 2x'' = Ok (int 2)" "stoll ''0'' = Ok (int 0)" by code_simp+
  have a: "alloc_ok sample_smb_env m \<longleftrightarrow> m < 2 ^ 40" for m by (simp add: sample_smb_env_def)
  have f: "smb_fstat sample_smb u = Some (int (length ''hello''), 77)" for u by (simp add: sample_smb_def)
  note r = read_file_delivers [of sample_session sample_smb_env sample_smb_server "''share'' @ [CHR 0x5C] @ ''a.txt''" "'' 2x''" 2 "[]" 0
      0 "''hello''" 77 "''7''" result_msg_default, unfolded sample_url sample_smb_ready(2,3)]
  show ?thesis using r sample_smb_ready(1) p sample_opens sample_serves f a by auto
qed

text \<open>
  Reading from behind the end fails badly: when the offset is larger than the file and the size
  is left out, the size of the rest wraps around to more than \<open>2\<^sup>6\<^sup>3\<close>, a buffer of which no
  allocator has, and the action throws instead of answering with an error.
\<close>

theorem read_past_end_throws:
  assumes "\<not> is_nil ss" and "smb_ready E s" and "path \<noteq> []"
    and "stoll (if off = [] then ''0'' else off) = Ok (int ov)" and "size_v = [] \<or> stoll size_v = Ok 0"
    and "opens (smb_at E (drawn s)) (c_str (smb_url ss path)) = (True, e)"
    and "smb_fstat (smb_at E (drawn s)) (c_str (smb_url ss path)) = Some (int len, t)" and "len < ov"
    and "\<forall>n \<ge> 2 ^ 63. \<not> alloc_ok E n"
  shows "read_file_act E (Some ss) (Read_file_msg i path size_v off) res s = Throw"
proof -
  have "stoll ''0'' = Ok 0" by code_simp
  with assms(5) have sz: "stoll (if size_v = [] then ''0'' else size_v) = Ok (int 0)" by auto
  obtain rc1 st repo where r: "remotestat rc1 = st" "smb_fstat (smb_at E (drawn s)) (c_str (smb_url ss path)) = Some st"
      "read_file_act E (Some ss) (Read_file_msg i path size_v off) res s =
        (let sz = (if (0::nat) = 0 then smb_file_size rc1 - of_nat ov else of_nat 0); s' = s\<lparr>service_conf := repo, drawn := drawn s + 1\<rparr>
         in if \<not> alloc_ok E (unat sz) then Throw
            else bind_o (smb_read (smb_at E (drawn s)) rc1 ov (unat sz)) (\<lambda>((r, buff), rc2).
              if r = -1 then fail_with READ_FILE_FAILED res s'
              else succeed_with (JStr (rfc_encode (take (nat r) buff))) res s'))"
    by (rule read_file_opened [OF assms(1-4) sz assms(6)]) blast
  have b: "ov < 2 ^ 63" using stoll_bound [OF assms(4)] by simp
  have "st = (int len, t)" using r(2) assms(7) by simp
  with r(1) have "fst (remotestat rc1) = int len" by simp
  then have "smb_file_size rc1 - of_nat ov = word_of_int (int len - int ov)" by (simp add: smb_file_size_def)
  then have "uint (smb_file_size rc1 - of_nat ov) = (int len - int ov) mod 2 ^ 64"
    by (simp only: uint_word_of_int) simp
  also have "\<dots> = int len - int ov + 2 ^ 64"
    using assms(8) b by (subst mod_add_self2 [symmetric], subst mod_pos_pos_trivial) auto
  finally have "2 ^ 63 \<le> unat (smb_file_size rc1 - of_nat ov)" using b by (simp add: unat_eq_nat_uint)
  with assms(9) show ?thesis by (simp add: r(3))
qed

theorem read_past_end_throws_witness:
  "read_file_act sample_smb_env (Some sample_session) (Read_file_msg ''7'' (''share'' @ [CHR 0x5C] @ ''a.txt'') [] ''6'')
     result_msg_default sample_smb_server = Throw"
proof -
  have p: "stoll ''6'' = Ok (int 6)" by code_simp
  have a: "alloc_ok sample_smb_env m \<longleftrightarrow> m < 2 ^ 40" for m by (simp add: sample_smb_env_def)
  have f: "smb_fstat sample_smb u = Some (int 5, 77)" for u by (simp add: sample_smb_def)
  note r = read_past_end_throws [of sample_session sample_smb_env sample_smb_server "''share'' @ [CHR 0x5C] @ ''a.txt''" "''6''" 6 "[]"
      0 5 77 "''7''" result_msg_default, unfolded sample_url sample_smb_ready(2,3)]
  show ?thesis using r sample_smb_ready(1) p sample_opens f a by auto
qed

text \<open>
  \<open>file_exists\<close> tells what opening the path said: True when it opens, False exactly for the
  errors ENOENT, ENODEV and ENOTDIR, and otherwise an error that carries the code of the library.
\<close>

theorem file_exists_answer:
  assumes "\<not> is_nil ss" and "smb_ready E s" and "path \<noteq> []"
  shows "\<exists>st res' s'. file_exists_act E (Some ss) (File_exists_msg i path) res s = Ok (st, res', s')
    \<and> msg_id res' = msg_id res
    \<and> (case opens (smb_at E (drawn s)) (c_str (smb_url ss path)) of (opened, e) \<Rightarrow>
        if opened \<or> e \<in> {2, 19, 20} then st = SUCCEEDED \<and> msg_result res' = JStr (if opened then ''True'' else ''False'')
        else st = FAILED \<and> (e \<noteq> 0 \<longrightarrow> e \<in> {- (2 ^ 31)..<2 ^ 31} \<longrightarrow> code (msg_status res') = word_of_int e))"
proof -
  obtain repo where w: "\<And>k. with_smb_client E s k =
      k (smb_at E (drawn s)) new_smb_client (s\<lparr>service_conf := repo, drawn := drawn s + 1\<rparr>)"
    using with_smb_client_eq [OF assms(2)] by blast
  obtain ok e rc1 where o: "open_file (smb_at E (drawn s)) (c_str (smb_url ss path)) new_smb_client = ((ok, e), rc1)"
    by (metis surj_pair)
  have z: "e = 0" if "e \<in> {- (2 ^ 31)..<2 ^ 31}" "(word_of_int e :: 32 word) = 0"
  proof -
    have "sint (word_of_int e :: 32 word) = e" using that(1) by (simp add: signed_of_int signed_take_bit_int_eq_self)
    then show ?thesis by (simp add: that(2))
  qed
  show ?thesis
    using assms(1,3) z by (auto simp: file_exists_act_def checked_session_def w o opens_def Let_def succeed_with_Ok errno_error_def
        asset_error_Ok ENOENT_def ENODEV_def ENOTDIR_def)
qed

theorem file_exists_answer_witness:
  "\<exists>res' s'. file_exists_act sample_smb_env (Some sample_session) (File_exists_msg ''7'' ''share/b'') result_msg_default sample_smb_server
     = Ok (SUCCEEDED, res', s') \<and> msg_result res' = JStr ''False''"
proof -
  have u: "c_str (smb_url sample_session ''share/b'') = ''smb://host/share/b''"
    by (simp add: smb_url_def sample_session_def c_str_Cons)
  have o: "opens sample_smb ''smb://host/share/b'' = (False, 2)" by (simp add: opens_def open_file_def sample_smb_def Let_def)
  from file_exists_answer [of sample_session sample_smb_env sample_smb_server "''share/b''" "''7''" result_msg_default]
  show ?thesis by (auto simp: sample_smb_ready u o)
qed



end
