(* ===== verification/File_Info.thy ===== *)
theory File_Info
  imports Smb_Actions
begin

text \<open>
  The version strings of an executable (\<open>extract_info\<close> in
  \<open>src/src/backend/utils/pe_context.cpp\<close>) and the action that returns them with size and time of a remote
  file, \<open>src/src/backend/services/samba_based/smb/actions/get_file_info.cpp\<close>.
\<close>

section \<open>Strings of 16-bit units in the buffer\<close>

definition data_length :: "'s file_mapper \<Rightarrow> nat" where
  "data_length M = (case map_data M of None \<Rightarrow> 0 | Some d \<Rightarrow> length d)"

lemma number_at_inside: "number_at M p n = Ok v \<Longrightarrow> p + n \<le> data_length M"
  by (auto simp: number_at_def bytes_at_def data_length_def split: option.splits if_splits)

text \<open>\<open>std::u16string(p)\<close>: the units up to the first zero; behind the buffer there is nothing to read.\<close>

function u16string_at :: "'s file_mapper \<Rightarrow> nat \<Rightarrow> nat list outcome" where
  "u16string_at M p =
     bind_o (number_at M p 2) (\<lambda>u. if u = 0 then Ok [] else bind_o (u16string_at M (p + 2)) (\<lambda>us. Ok (u # us)))"
  by pat_completeness auto
termination by (relation "measure (\<lambda>(M, p). data_length M - p)") (auto dest!: number_at_inside)

declare u16string_at.simps [simp del]

definition u16_lit :: "string \<Rightarrow> nat list" where
  "u16_lit s = map of_char s"

section \<open>Version strings\<close>

definition calculate_padding :: "nat \<Rightarrow> nat" where
  "calculate_padding p = (4 - p mod 4) mod 4"

text \<open>The search for the block of strings: nothing but the end of the buffer stops it.\<close>

function scan_string_info :: "'s file_mapper \<Rightarrow> nat \<Rightarrow> nat outcome" where
  "scan_string_info M vih =
     bind_o (u16string_at M (vih + 6)) (\<lambda>pad.
       if pad = u16_lit ''StringFileInfo'' then Ok vih
       else bind_o (number_at M vih 2) (\<lambda>wLength. scan_string_info M (vih + (if wLength = 0 then 2 else wLength))))"
  by pat_completeness auto
termination by (relation "measure (\<lambda>(M, vih). data_length M - vih)") (auto dest!: number_at_inside)

declare scan_string_info.simps [simp del]

text \<open>
  The strings behind it, as long as they end inside the resource; \<open>wanted\<close> are the keys looked for.
\<close>

function read_strings ::
  "'s file_mapper \<Rightarrow> nat list list \<Rightarrow> nat \<Rightarrow> nat \<Rightarrow> (nat list \<Rightarrow> nat list option) \<Rightarrow> (nat list \<Rightarrow> nat list option) outcome" where
  "read_strings M wanted buffer_end vih ret =
     bind_o (number_at M vih 2) (\<lambda>wLength.
       if 0 < wLength \<and> vih + wLength \<le> buffer_end then
         bind_o (u16string_at M (vih + 6)) (\<lambda>k.
         bind_o (if k \<in> set wanted then
                   bind_o (number_at M (vih + 2) 2) (\<lambda>wValueLength.
                     if wValueLength * 2 > vih + wLength then UB
                     else let vstart = vih + wLength - wValueLength * 2
                       in if calculate_padding vstart > vstart then UB
                          else bind_o (u16string_at M (vstart - calculate_padding vstart)) (\<lambda>v. Ok (ret(k \<mapsto> v))))
                 else Ok ret) (\<lambda>ret'.
           read_strings M wanted buffer_end (vih + wLength + calculate_padding (vih + wLength)) ret'))
       else Ok ret)"
  by pat_completeness auto
termination by (relation "measure (\<lambda>(M, wanted, e, vih, ret). data_length M - vih)") (auto dest!: number_at_inside)

declare read_strings.simps [simp del]

definition version_from_fixed :: "nat \<Rightarrow> nat \<Rightarrow> string" where
  "version_from_fixed ms ls =
     to_string_nat (ms div 65536) @ ''.'' @ to_string_nat (ms mod 65536) @ ''.'' @
     to_string_nat (ls div 65536) @ ''.'' @ to_string_nat (ls mod 65536)"

text \<open>What is read from the resource at \<open>ofs\<close>: the fixed version, then the strings; the fixed version replaces the string.\<close>

definition version_strings ::
  "'s file_mapper \<Rightarrow> nat \<Rightarrow> nat \<Rightarrow> nat list list \<Rightarrow> (nat list \<Rightarrow> nat list option) outcome" where
  "version_strings M ofs size_v wanted =
     (let buffer = ofs + 32
      in bind_o (number_at M (buffer + 16) 4) (\<lambda>ms.
         bind_o (number_at M (buffer + 20) 4) (\<lambda>ls.
         bind_o (scan_string_info M (buffer + 52 + 8)) (\<lambda>vih.
         let padding = vih + 6 + 28; st_vih = padding + calculate_padding padding;
             st_padding = st_vih + 6 + 16; str_vih = st_padding + calculate_padding st_padding
         in bind_o (read_strings M wanted (buffer + size_v) str_vih Map.empty) (\<lambda>ret.
            Ok (ret(u16_lit ''FileVersion'' \<mapsto> u16_lit (version_from_fixed ms ls))))))))"

text \<open>The first data entry below a directory entry for versions, from the root on; \<open>older\<close> are the nodes gone past.\<close>

definition RT_VERSION :: nat where "RT_VERSION = 16"

fun version_entry :: "'s file_mapper \<Rightarrow> pe_node list \<Rightarrow> pe_node list \<Rightarrow> nat option outcome" where
  "version_entry M older [] = Ok None"
| "version_entry M older (n # ns) =
     (if node_type n \<noteq> RDT_DATA_ENTRY then version_entry M (n # older) ns
      else case lastNodeByType (n # older) RDT_DATA_ENTRY of
          None \<Rightarrow> Ok None
        | Some de \<Rightarrow>
            (case root_entry n of
               None \<Rightarrow> UB
             | Some r \<Rightarrow> bind_o (number_at M r 4) (\<lambda>v.
                 if v mod 2 ^ 31 = RT_VERSION then Ok (Some (resource de)) else version_entry M (n # older) ns)))"

definition extract_info ::
  "pe_lib \<Rightarrow> 's reader \<Rightarrow> pe_file \<Rightarrow> nat list list \<Rightarrow> 's file_mapper \<Rightarrow> ((nat list \<Rightarrow> nat list option) \<times> 's file_mapper) outcome" where
  "extract_info P rd pe wanted M =
     bind_o (discoveryNodesPeres P rd pe M) (\<lambda>(x, M1).
       case x of
         Inl _ \<Rightarrow> Ok (Map.empty, M1)
       | Inr nodes \<Rightarrow>
           bind_o (version_entry M1 [] (rev nodes)) (\<lambda>found.
             case found of
               None \<Rightarrow> Ok (Map.empty, M1)
             | Some de \<Rightarrow>
                 bind_o (number_at M1 de 4) (\<lambda>va.
                 bind_o (pe_rva2ofs M1 pe va) (\<lambda>ofs.
                 bind_o (number_at M1 (de + 4) 4) (\<lambda>size_v.
                 bind_o (map_chunk_by_pointer rd M1 ofs size_v) (\<lambda>(ok, M2).
                   if \<not> ok then Ok (Map.empty, M2)
                   else bind_o (version_strings M2 ofs size_v wanted) (\<lambda>ret. Ok (ret, M2))))))))"

section \<open>The action\<close>

text \<open>
  \<open>to_utf8\<close> is the conversion of \<open>std::wstring_convert\<close>, whose treatment of unpaired surrogates is left
  to the library.
\<close>

record file_info_env =
  smb_part :: smb_env
  pe_part :: pe_lib
  to_utf8 :: "nat list \<Rightarrow> string outcome"
  uninitialised :: "64 word"

definition wanted_keys :: "string list" where
  "wanted_keys = [''CompanyName'', ''FileDescription'', ''FileVersion'', ''ProductName'', ''ProductVersion'']"

text \<open>
  The regular expression for file versions: four numbers with dots between them, white space, and
  a rest of one line; the numbers are what stays.
\<close>

fun dotted :: "nat \<Rightarrow> string \<Rightarrow> (string \<times> string) option" where
  "dotted 0 s = Some ([], s)"
| "dotted (Suc n) s =
     (let ds = takeWhile isdigit s; r = dropWhile isdigit s
      in if ds = [] then None
         else if n = 0 then Some (ds, r)
         else case r of
             CHR ''.'' # r' \<Rightarrow> map_option (\<lambda>(t, u). (ds @ ''.'' @ t, u)) (dotted n r')
           | _ \<Rightarrow> None)"

definition file_version :: "string \<Rightarrow> string" where
  "file_version val =
     (case dotted 4 val of
        Some (v, r) \<Rightarrow>
          if r \<noteq> [] \<and> isspace (hd r) \<and> CHR 0x0A \<notin> set (dropWhile isspace r) \<and> CHR 0x0D \<notin> set (dropWhile isspace r)
          then v else val
      | None \<Rightarrow> val)"

fun pe_hdr_populate :: "(nat list \<Rightarrow> string outcome) \<Rightarrow> (nat list \<Rightarrow> nat list option) \<Rightarrow> string list \<Rightarrow> (string \<times> json) list outcome" where
  "pe_hdr_populate conv ret [] = Ok []"
| "pe_hdr_populate conv ret (k # ks) =
     (case ret (u16_lit k) of
        None \<Rightarrow> pe_hdr_populate conv ret ks
      | Some v \<Rightarrow>
          bind_o (conv v) (\<lambda>val.
            let val' = (if k = ''FileVersion'' then file_version val else val)
            in bind_o (pe_hdr_populate conv ret ks) (\<lambda>rest.
                 Ok ((k, JStr (if val' = [] then ''NULL'' else val')) # rest))))"

definition file_info_populate :: "smb_client \<Rightarrow> (string \<times> json) list" where
  "file_info_populate rc =
     [(''last_modified'', JStr (show_int (last_modified rc))), (''path'', JStr ''NULL''),
      (''size'', JStr (to_string_nat (unat (smb_file_size rc))))]"

definition get_file_info_act :: "file_info_env \<Rightarrow> session option \<Rightarrow> action_msg \<Rightarrow> result_msg \<Rightarrow> server \<Rightarrow> act_result" where
  "get_file_info_act F sess m res s0 =
     checked_session sess res s0 (\<lambda>ss.
       case m of
         Get_file_info_msg i path \<Rightarrow>
           if path = [] then fail_with PATH_IS_MANDATORY res s0
           else with_smb_client (smb_part F) s0 (\<lambda>L rc s.
             let ((ok, e), rc1) = open_file L (c_str (smb_url ss path)) rc
             in if \<not> ok then errno_error L e res s
                else bind_o (new_file_mapper (validate_open L) smb_file_size (alloc_ok (smb_part F)) (uninitialised F) rc1) (\<lambda>M.
                     bind_o (parse (pe_part F) (smb_read L) M) (\<lambda>(x, M1).
                     bind_o (case x of
                               Inl _ \<Rightarrow> Ok []
                             | Inr pe \<Rightarrow>
                                 bind_o (extract_info (pe_part F) (smb_read L) pe (map u16_lit wanted_keys) M1) (\<lambda>(ret, _).
                                   pe_hdr_populate (to_utf8 F) ret wanted_keys)) (\<lambda>fields.
                       succeed_with (JObj (fields @ file_info_populate rc1)) res s))))
       | _ \<Rightarrow> fail_with INTERNAL_ERROR res s0)"

definition SMB_Get_File_Info :: "file_info_env \<Rightarrow> action" where
  "SMB_Get_File_Info F = \<lparr>act_name = ''get_file_info'', get_message = get_file_info_msg_as, act = get_file_info_act F\<rparr>"

section \<open>Lemmas\<close>

text \<open>A client with an open remote file, and the mapper made for it.\<close>

definition remote_open :: "smb_lib \<Rightarrow> string \<Rightarrow> smb_client \<Rightarrow> bool" where
  "remote_open L bytes C \<longleftrightarrow> (\<exists>path. current_open_path C = Some path \<and> path \<noteq> [] \<and> remote_file L path bytes)
     \<and> ctx_set C \<and> fst (remotestat C) = int (length bytes) \<and> length bytes < 2 ^ 62"

abbreviation smb_maps :: "smb_lib \<Rightarrow> string \<Rightarrow> smb_client file_mapper \<Rightarrow> bool" where
  "smb_maps L bytes \<equiv> maps (\<lambda>_. bytes) (\<lambda>C. \<exists>path. current_open_path C = Some path \<and> remote_file L path bytes) bytes"

lemma new_mapper_maps:
  assumes "remote_open L bytes C" "allocates (length bytes)"
  obtains M where "new_file_mapper (validate_open L) smb_file_size allocates g C = Ok M" "smb_maps L bytes M"
proof -
  obtain path where o: "current_open_path C = Some path" "path \<noteq> []" "remote_file L path bytes" "ctx_set C"
      "fst (remotestat C) = int (length bytes)" "length bytes < 2 ^ 62"
    using assms(1) by (auto simp: remote_open_def)
  have v: "validate_open L C = Ok (True, C)" using o by (simp add: validate_open_def)
  have z: "smb_file_size C = of_nat (length bytes)" "unat (of_nat (length bytes) :: 64 word) = length bytes"
    using o(5,6) by (simp_all add: smb_file_size_def unat_of_nat take_bit_nat_eq_self)
  define M where "M = \<lparr>fr = C, allocated_size = of_nat (length bytes), map_data = Some (replicate (length bytes) (CHR 0x00)), chunks = []\<rparr>"
  show thesis
  proof (rule that)
    show "new_file_mapper (validate_open L) smb_file_size allocates g C = Ok M"
      using v z assms(2) by (simp add: new_file_mapper_def M_def)
    show "smb_maps L bytes M" using o by (auto simp: maps_def mapper_ok_def covered_def M_def)
  qed
qed

lemma parse_remote:
  assumes "smb_maps L bytes M"
  obtains M' where "parse P (smb_read L) M = Ok (headers_of_file P bytes, M')" "smb_maps L bytes M'"
    "tables_mapped (headers_of_file P bytes) M'"
  using smb_source.parse_returns [OF assms, of P] by (auto simp: returns_def)

text \<open>The search for the strings runs out of the buffer unless the name turns up.\<close>

lemma scan_overrun:
  assumes "\<And>q. vih \<le> q \<Longrightarrow> u16string_at M (q + 6) \<noteq> Ok (u16_lit ''StringFileInfo'')"
  shows "\<not> is_ok (scan_string_info M vih)"
  using assms
proof (induction M vih rule: scan_string_info.induct)
  case (1 M vih)
  show ?case
  proof (cases "u16string_at M (vih + 6)")
    case (Ok pad)
    then have "pad \<noteq> u16_lit ''StringFileInfo''" using 1(2) by auto
    show ?thesis
    proof (cases "number_at M vih 2")
      case len: (Ok len)
      have "\<not> is_ok (scan_string_info M (vih + (if len = 0 then 2 else len)))"
        using 1(1) [OF Ok \<open>pad \<noteq> _\<close> len] 1(2) by simp
      with Ok len \<open>pad \<noteq> _\<close> show ?thesis by (subst scan_string_info.simps) simp
    qed (use Ok \<open>pad \<noteq> _\<close> in \<open>subst scan_string_info.simps, simp\<close>)+
  qed (subst scan_string_info.simps, simp)+
qed

section \<open>Properties\<close>

text \<open>
  C23. The headers of an executable are read safely and correctly: for every remote file, the mapper
  is built and \<open>parse\<close> returns, without reading a byte outside of the buffer, exactly the verdict
  and the tables that the decisions of \<open>parse\<close> give on the bytes of the file itself; fetching the
  file piece by piece makes no difference.
\<close>

theorem headers_parsed_lazily:
  assumes "remote_open L bytes C" and "allocates (length bytes)"
  shows "\<exists>M M'. new_file_mapper (validate_open L) smb_file_size allocates g C = Ok M
    \<and> parse P (smb_read L) M = Ok (headers_of_file P bytes, M')"
proof -
  obtain M where "new_file_mapper (validate_open L) smb_file_size allocates g C = Ok M" "smb_maps L bytes M"
    by (rule new_mapper_maps [where allocates = allocates, OF assms])
  then show ?thesis using parse_remote [where L = L and bytes = bytes and M = M and P = P] by metis
qed

text \<open>A small executable for examples: one section, holding an empty resource directory.\<close>

definition sample_exe :: string where
  "sample_exe = map (char_of :: nat \<Rightarrow> char)
     ([0x4D, 0x5A] @ replicate 58 0 @ [64, 0, 0, 0] @ [0x50, 0x45, 0, 0] @ [0, 0, 1, 0] @ replicate 12 0 @ [120, 0, 0, 0]
      @ [0x0B, 1] @ replicate 90 0 @ [3, 0, 0, 0] @ replicate 16 0 @ [0, 16, 0, 0, 16, 0, 0, 0]
      @ replicate 8 0 @ [16, 0, 0, 0, 0, 16, 0, 0, 16, 0, 0, 0, 0xF8, 0, 0, 0] @ replicate 16 0 @ replicate 16 0)"

definition sample_pe_lib :: pe_lib where
  "sample_pe_lib = \<lparr>max_directories = 16, max_sections = 96, data_string_size = 4, malloc_ok = (\<lambda>_. True)\<rparr>"

definition sample_headers :: pe_file where
  "sample_headers = \<lparr>num_sections = 1, num_directories = 3, entrypoint = 0, imagebase = 0,
     directories = [184, 192, 200], pe_sections = [208]\<rparr>"

definition exe_smb :: smb_lib where
  "exe_smb = sample_smb\<lparr>smb_read_at := (\<lambda>p k pos n. Some (take n (drop pos sample_exe)))\<rparr>"

definition exe_client :: smb_client where
  "exe_client = new_smb_client\<lparr>ctx_set := True, current_open_path := Some ''a'', remotestat := (264, 0)\<rparr>"

lemma length_sample_exe [simp]: "length sample_exe = 264"
  by (simp add: sample_exe_def)

lemma sample_exe_open: "remote_open exe_smb sample_exe exe_client"
proof -
  have "remote_file exe_smb ''a'' sample_exe"
    by (auto simp: remote_file_def serves_def exe_smb_def sample_smb_def min_def)
  then show ?thesis by (simp add: remote_open_def exe_client_def)
qed

lemma sample_exe_headers: "headers_of_file sample_pe_lib sample_exe = Inr sample_headers"
  by code_simp

theorem headers_parsed_lazily_witness:
  "\<exists>M M'. new_file_mapper (validate_open exe_smb) smb_file_size (\<lambda>n. n < 1000) 0 exe_client = Ok M
    \<and> parse sample_pe_lib (smb_read exe_smb) M = Ok (Inr sample_headers, M')"
  using headers_parsed_lazily [OF sample_exe_open, of "\<lambda>n. n < 1000" 0 sample_pe_lib] by (simp add: sample_exe_headers)

text \<open>
  C24. The walk through the resources of a remote executable stays inside the file: whatever the
  numbers in its directories are, for every file whose headers parse the walk returns, it never
  follows a null pointer nor reads outside of the buffer, and every node it delivers points at a
  structure that lies inside the file.
\<close>

theorem resources_walk_inside:
  assumes "remote_open L bytes C" and "allocates (length bytes)" and "headers_of_file P bytes = Inr pe"
    and "0 < data_string_size P" and "data_string_size P < 2 ^ 32"
  shows "\<exists>M M1 x M2. new_file_mapper (validate_open L) smb_file_size allocates g C = Ok M
    \<and> parse P (smb_read L) M = Ok (Inr pe, M1) \<and> discoveryNodesPeres P (smb_read L) pe M1 = Ok (x, M2)
    \<and> (\<forall>nodes n. x = Inr nodes \<longrightarrow> n \<in> set nodes \<longrightarrow> resource n + piece_size P (node_type n) \<le> length bytes)"
proof -
  obtain M where M: "new_file_mapper (validate_open L) smb_file_size allocates g C = Ok M" "smb_maps L bytes M"
    by (rule new_mapper_maps [where allocates = allocates, OF assms(1,2)])
  obtain M1 where M1: "parse P (smb_read L) M = Ok (Inr pe, M1)" "smb_maps L bytes M1" "pe_ready M1 pe"
    using parse_remote [OF M(2), of P] assms(3) by (auto simp: pe_ready_def)
  have "length bytes < 2 ^ 62" using assms(1) by (auto simp: remote_open_def)
  from smb_source.discovery_ok [OF this assms(5) M1(2,3)] obtain x M2 where
    w: "discoveryNodesPeres P (smb_read L) pe M1 = Ok (x, M2)" "smb_maps L bytes M2" "\<forall>ns. x = Inr ns \<longrightarrow> nodes_ok P M2 ns"
    by (auto simp: walk_ok_def)
  have "resource n + piece_size P (node_type n) \<le> length bytes" if "x = Inr nodes" "n \<in> set nodes" for nodes n
  proof (rule has_end [OF w(2)])
    show "has M2 (resource n) (piece_size P (node_type n))" using w(3) that by (simp add: nodes_ok_def)
    show "0 < piece_size P (node_type n)" using assms(4) by (cases "node_type n") simp_all
  qed
  with M(1) M1(1) w(1) show ?thesis by blast
qed

theorem resources_walk_inside_witness:
  "\<exists>M M1 x M2. new_file_mapper (validate_open exe_smb) smb_file_size (\<lambda>n. n < 1000) 0 exe_client = Ok M
    \<and> parse sample_pe_lib (smb_read exe_smb) M = Ok (Inr sample_headers, M1)
    \<and> discoveryNodesPeres sample_pe_lib (smb_read exe_smb) sample_headers M1 = Ok (x, M2)"
  using resources_walk_inside [OF sample_exe_open _ sample_exe_headers, of "\<lambda>n. n < 1000" 0]
  by (auto simp: sample_pe_lib_def)

text \<open>
  Addresses are translated by the first section that contains them: after \<open>parse\<close> of a remote
  executable, \<open>pe_rva2ofs\<close> returns for every address, without reading outside of the buffer, the
  offset in the file that the section table of the file assigns to it.
\<close>

theorem addresses_translated:
  assumes "remote_open L bytes C" and "allocates (length bytes)" and "headers_of_file P bytes = Inr pe"
  shows "\<exists>M M1. new_file_mapper (validate_open L) smb_file_size allocates g C = Ok M
    \<and> parse P (smb_read L) M = Ok (Inr pe, M1) \<and> pe_rva2ofs M1 pe rva = Ok (rva_in_file bytes pe rva)"
proof -
  obtain M where M: "new_file_mapper (validate_open L) smb_file_size allocates g C = Ok M" "smb_maps L bytes M"
    by (rule new_mapper_maps [where allocates = allocates, OF assms(1,2)])
  obtain M1 where M1: "parse P (smb_read L) M = Ok (Inr pe, M1)" "smb_maps L bytes M1" "pe_ready M1 pe"
    using parse_remote [OF M(2), of P] assms(3) by (auto simp: pe_ready_def)
  from M(1) M1(1) pe_rva2ofs_eq [OF M1(2,3), of rva] show ?thesis by blast
qed

theorem addresses_translated_witness:
  "\<exists>M M1. new_file_mapper (validate_open exe_smb) smb_file_size (\<lambda>n. n < 1000) 0 exe_client = Ok M
    \<and> parse sample_pe_lib (smb_read exe_smb) M = Ok (Inr sample_headers, M1) \<and> pe_rva2ofs M1 sample_headers 0x1004 = Ok 252"
proof -
  have "rva_in_file sample_exe sample_headers 0x1004 = 252" by code_simp
  with addresses_translated [where rva = "0x1004" and g = "0", OF sample_exe_open, of "\<lambda>n. n < 1000" sample_pe_lib sample_headers]
    sample_exe_headers show ?thesis by simp
qed

text \<open>
  A file that is no executable is reported by its size and time alone: for a valid session and a
  path that opens, when the headers do not parse, the answer to \<open>get_file_info\<close> is a success with
  exactly the three fields \<open>last_modified\<close>, \<open>path\<close> and \<open>size\<close>, the size being the length of the file;
  but the buffer for the whole file is allocated first.
\<close>

theorem plain_file_info:
  assumes "\<not> is_nil ss" and "smb_ready (smb_part F) s" and "path \<noteq> []"
    and "L = smb_at (smb_part F) (drawn s)" and "u = c_str (smb_url ss path)" and "opens L u = (True, e)" and "smb_ctx_ok L"
    and "remote_file L u bytes" and "smb_fstat L u = Some (int (length bytes), t)" and "length bytes < 2 ^ 62"
    and "alloc_ok (smb_part F) (length bytes)" and "headers_of_file (pe_part F) bytes = Inl err"
  shows "\<exists>res' s'. get_file_info_act F (Some ss) (Get_file_info_msg i path) res s = Ok (SUCCEEDED, res', s')
    \<and> msg_id res' = msg_id res \<and> msg_result res' = JObj [(''last_modified'', JStr (show_int t)), (''path'', JStr ''NULL''),
      (''size'', JStr (to_string_nat (length bytes)))]"
proof -
  obtain repo where w: "\<And>k. with_smb_client (smb_part F) s k = k L new_smb_client (s\<lparr>service_conf := repo, drawn := drawn s + 1\<rparr>)"
    unfolding assms(4) using with_smb_client_eq [OF assms(2)] by blast
  obtain fd where f: "open_file L u new_smb_client = ((True, 0), new_smb_client\<lparr>ctx_set := smb_ctx_ok L, remote_fd := fd,
      current_open_path := Some u, remotestat := (int (length bytes), t)\<rparr>)"
    using open_file_ok [OF assms(6)] assms(9) by fastforce
  define rc where "rc = new_smb_client\<lparr>ctx_set := smb_ctx_ok L, remote_fd := fd, current_open_path := Some u,
    remotestat := (int (length bytes), t)\<rparr>"
  have "remote_open L bytes rc"
    using assms(5,7,8,10) by (simp add: remote_open_def rc_def smb_url_def c_str_Cons)
  then obtain M where M: "new_file_mapper (validate_open L) smb_file_size (alloc_ok (smb_part F)) (uninitialised F) rc = Ok M"
      "smb_maps L bytes M"
    by (rule new_mapper_maps [where allocates = "alloc_ok (smb_part F)"]) (use assms(11) in simp)
  obtain M1 where "parse (pe_part F) (smb_read L) M = Ok (Inl err, M1)"
    using parse_remote [OF M(2), of "pe_part F"] assms(12) by auto
  moreover have "file_info_populate rc = [(''last_modified'', JStr (show_int t)), (''path'', JStr ''NULL''),
      (''size'', JStr (to_string_nat (length bytes)))]"
    using assms(10) by (simp add: file_info_populate_def last_modified_def smb_file_size_def rc_def unat_of_nat take_bit_nat_eq_self)
  ultimately show ?thesis
    using assms(1,3) M(1) f [folded rc_def] by (simp add: get_file_info_act_def checked_session_def w assms(5) [symmetric] succeed_with_Ok)
qed

definition sample_info_env :: file_info_env where
  "sample_info_env = \<lparr>smb_part = sample_smb_env, pe_part = sample_pe_lib, to_utf8 = (\<lambda>us. Ok (map char_of us)), uninitialised = 0\<rparr>"

theorem plain_file_info_witness:
  "\<exists>res' s'. get_file_info_act sample_info_env (Some sample_session) (Get_file_info_msg ''7'' (''share'' @ [CHR 0x5C] @ ''a.txt''))
     result_msg_default sample_smb_server = Ok (SUCCEEDED, res', s')
     \<and> msg_result res' = JObj [(''last_modified'', JStr ''77''), (''path'', JStr ''NULL''), (''size'', JStr ''5'')]"
proof -
  have h: "headers_of_file sample_pe_lib ''hello'' = Inl E_READ" by code_simp
  have n: "show_int 77 = ''77''" "to_string_nat (length ''hello'') = ''5''" by code_simp+
  have i: "smb_part sample_info_env = sample_smb_env" "pe_part sample_info_env = sample_pe_lib" by (simp_all add: sample_info_env_def)
  have a: "alloc_ok sample_smb_env m \<longleftrightarrow> m < 2 ^ 40" for m by (simp add: sample_smb_env_def)
  have f: "smb_fstat sample_smb u = Some (int (length ''hello''), 77)" "smb_ctx_ok sample_smb" for u by (simp_all add: sample_smb_def)
  note r = plain_file_info [of sample_session sample_info_env sample_smb_server "''share'' @ [CHR 0x5C] @ ''a.txt''" sample_smb
      "''smb://host/share/a.txt''" 0 "''hello''" 77 E_READ "''7''" result_msg_default, unfolded i sample_url sample_smb_ready(2,3)]
  show ?thesis using r sample_smb_ready(1) sample_opens sample_serves f a h n by auto
qed

end
