(* ===== verification/Pe_Nodes.thy ===== *)
theory Pe_Nodes
  imports Pe_Resources
begin

text \<open>
  \<open>src/src/backend/utils/pe_context.cpp\<close>: the memory of the nodes of the resource walk. The nodes are a
  doubly linked list on the heap; the theory \<open>Pe_Resources\<close> has them as a list of values. A heap maps the
  addresses that are allocated to nodes; reading or freeing another address is undefined. The loops
  follow pointers, so that a loop that does not end is the value \<open>None\<close>.
\<close>

section \<open>The heap\<close>

record heap_node =
  node_of :: pe_node
  last_ptr :: "nat option"
  next_ptr :: "nat option"

type_synonym node_heap = "nat \<rightharpoonup> heap_node"

definition at_node :: "node_heap \<Rightarrow> nat \<Rightarrow> (heap_node \<Rightarrow> 'a outcome) \<Rightarrow> 'a outcome" where
  "at_node h a k = (case h a of None \<Rightarrow> UB | Some x \<Rightarrow> k x)"

text \<open>\<open>createNode\<close>; the answer of \<open>malloc\<close> is an argument.\<close>

definition create_node :: "node_heap \<Rightarrow> nat option \<Rightarrow> nat \<Rightarrow> node_type \<Rightarrow> (nat option \<times> node_heap) outcome" where
  "create_node h new currentNode typeOfNextNode =
     (case new of
        None \<Rightarrow> Ok (None, h)
      | Some a \<Rightarrow>
          (let h1 = h(a \<mapsto> \<lparr>node_of = mk_node typeOfNextNode 0 None 0, last_ptr = Some currentNode, next_ptr = None\<rparr>)
           in at_node h1 currentNode (\<lambda>x. Ok (Some a, h1(currentNode \<mapsto> x\<lparr>next_ptr := Some a\<rparr>)))))"

text \<open>What \<open>discoveryNodesPeres\<close> does with nodes: the first one, and one more, whose members it fills in.\<close>

definition root_node :: "node_heap \<Rightarrow> nat \<Rightarrow> pe_node \<Rightarrow> node_heap" where
  "root_node h a n = h(a \<mapsto> \<lparr>node_of = n, last_ptr = None, next_ptr = None\<rparr>)"

definition put_node :: "nat \<Rightarrow> pe_node \<Rightarrow> node_heap \<Rightarrow> node_heap outcome" where
  "put_node a n h = at_node h a (\<lambda>x. Ok (h(a \<mapsto> x\<lparr>node_of := n\<rparr>)))"

fun grow_nodes :: "node_heap \<Rightarrow> nat \<Rightarrow> (nat \<times> pe_node) list \<Rightarrow> (nat \<times> node_heap) outcome" where
  "grow_nodes h node [] = Ok (node, h)"
| "grow_nodes h node ((a, n) # ns) =
     bind_o (create_node h (Some a) node (node_type n)) (\<lambda>(p, h1).
       case p of None \<Rightarrow> UB | Some b \<Rightarrow> bind_o (put_node b n h1) (\<lambda>h2. grow_nodes h2 b ns))"

section \<open>Searching and freeing\<close>

text \<open>The loop of \<open>lastNodeByTypeAndLevel\<close> and \<open>lastNodeByType\<close>, and the functions.\<close>

partial_function (option) last_loop :: "node_heap \<Rightarrow> (pe_node \<Rightarrow> bool) \<Rightarrow> nat \<Rightarrow> nat option outcome option" where
  "last_loop h wanted currentNode =
     (case h currentNode of
        None \<Rightarrow> Some UB
      | Some x \<Rightarrow>
          (case last_ptr x of
             None \<Rightarrow> Some (Ok None)
           | Some b \<Rightarrow>
               (case h b of
                  None \<Rightarrow> Some UB
                | Some y \<Rightarrow> if wanted (node_of y) then Some (Ok (Some b)) else last_loop h wanted b)))"

definition last_node :: "node_heap \<Rightarrow> (pe_node \<Rightarrow> bool) \<Rightarrow> nat \<Rightarrow> nat option outcome option" where
  "last_node h wanted currentNode =
     (case h currentNode of
        None \<Rightarrow> Some UB
      | Some x \<Rightarrow> if wanted (node_of x) then Some (Ok (Some currentNode)) else last_loop h wanted currentNode)"

definition last_by_type_and_level :: "node_heap \<Rightarrow> nat \<Rightarrow> node_type \<Rightarrow> nat \<Rightarrow> nat option outcome option" where
  "last_by_type_and_level h currentNode t l = last_node h (\<lambda>n. node_type n = t \<and> node_level n = l) currentNode"

definition last_by_type :: "node_heap \<Rightarrow> nat \<Rightarrow> node_type \<Rightarrow> nat option outcome option" where
  "last_by_type h currentNode t = last_node h (\<lambda>n. node_type n = t) currentNode"

text \<open>\<open>extract_info\<close> goes back to the first node before it searches forward.\<close>

partial_function (option) oldest_node :: "node_heap \<Rightarrow> nat \<Rightarrow> nat outcome option" where
  "oldest_node h node =
     (case h node of
        None \<Rightarrow> Some UB
      | Some x \<Rightarrow> (case last_ptr x of None \<Rightarrow> Some (Ok node) | Some b \<Rightarrow> oldest_node h b))"

text \<open>\<open>freeNodes\<close>: to the newest node, and back to the first.\<close>

partial_function (option) newest_node :: "node_heap \<Rightarrow> nat \<Rightarrow> nat outcome option" where
  "newest_node h currentNode =
     (case h currentNode of
        None \<Rightarrow> Some UB
      | Some x \<Rightarrow> (case next_ptr x of None \<Rightarrow> Some (Ok currentNode) | Some b \<Rightarrow> newest_node h b))"

definition free_node :: "nat \<Rightarrow> node_heap \<Rightarrow> node_heap outcome" where
  "free_node a h = at_node h a (\<lambda>_. Ok (h(a := None)))"

partial_function (option) free_loop :: "node_heap \<Rightarrow> nat \<Rightarrow> node_heap outcome option" where
  "free_loop h currentNode =
     (case h currentNode of
        None \<Rightarrow> Some UB
      | Some x \<Rightarrow>
          (case last_ptr x of
             None \<Rightarrow> Some (free_node currentNode h)
           | Some b \<Rightarrow>
               (case h b of
                  None \<Rightarrow> Some UB
                | Some y \<Rightarrow>
                    (case next_ptr y of
                       None \<Rightarrow> free_loop h b
                     | Some c \<Rightarrow> (case free_node c h of Ok h1 \<Rightarrow> free_loop h1 b | Throw \<Rightarrow> Some Throw | Abort \<Rightarrow> Some Abort | UB \<Rightarrow> Some UB)))))"

definition free_nodes :: "node_heap \<Rightarrow> nat option \<Rightarrow> node_heap outcome option" where
  "free_nodes h currentNode =
     (case currentNode of
        None \<Rightarrow> Some (Ok h)
      | Some a \<Rightarrow>
          (case newest_node h a of
             None \<Rightarrow> None
           | Some r \<Rightarrow> (case r of Ok b \<Rightarrow> free_loop h b | Throw \<Rightarrow> Some Throw | Abort \<Rightarrow> Some Abort | UB \<Rightarrow> Some UB)))"

section \<open>Chains\<close>

text \<open>The addresses of a linked list, from the newest node to the first; \<open>nx\<close> is what the newest points to.\<close>

fun chain :: "node_heap \<Rightarrow> nat option \<Rightarrow> nat list \<Rightarrow> bool" where
  "chain h nx [] = True"
| "chain h nx (a # as) =
     (\<exists>x. h a = Some x \<and> next_ptr x = nx \<and> last_ptr x = (case as of [] \<Rightarrow> None | b # _ \<Rightarrow> Some b) \<and> chain h (Some a) as)"

definition nodes_at :: "node_heap \<Rightarrow> nat list \<Rightarrow> pe_node list" where
  "nodes_at h as = map (\<lambda>a. node_of (the (h a))) as"

lemma chain_cong: "(\<And>a. a \<in> set as \<Longrightarrow> h' a = h a) \<Longrightarrow> chain h' nx as = chain h nx as"
  by (induction as arbitrary: nx) auto

lemma nodes_at_cong: "(\<And>a. a \<in> set as \<Longrightarrow> h' a = h a) \<Longrightarrow> nodes_at h' as = nodes_at h as"
  by (simp add: nodes_at_def)

lemma find_node_map: "map_option f (find (\<lambda>b. wanted (f b)) xs) = find wanted (map f xs)"
  by (induction xs) auto

lemma chain_alive: "chain h nx as \<Longrightarrow> a \<in> set as \<Longrightarrow> h a \<noteq> None"
  by (induction as arbitrary: nx) auto

lemma last_loop_chain:
  "chain h nx (a # as) \<Longrightarrow> last_loop h wanted a = Some (Ok (find (\<lambda>b. wanted (node_of (the (h b)))) as))"
proof (induction as arbitrary: a nx)
  case (Cons b as)
  from Cons.prems obtain y where "h b = Some y" "chain h (Some a) (b # as)" by auto
  with Cons show ?case by (subst last_loop.simps) auto
qed (subst last_loop.simps, auto)

lemma last_node_chain:
  "chain h nx (a # as) \<Longrightarrow> last_node h wanted a = Some (Ok (find (\<lambda>b. wanted (node_of (the (h b)))) (a # as)))"
  by (simp add: last_node_def last_loop_chain [of h nx a as wanted]) (use last_loop_chain [of h nx a as wanted] in auto)

lemma oldest_chain: "chain h nx (a # as) \<Longrightarrow> oldest_node h a = Some (Ok (last (a # as)))"
proof (induction as arbitrary: a nx)
  case (Cons b as)
  from Cons.prems have "chain h (Some a) (b # as)" by auto
  from Cons.IH [OF this] Cons.prems show ?case by (subst oldest_node.simps) auto
qed (subst oldest_node.simps, auto)

lemma newest_chain: "chain h nx (xs @ a # as) \<Longrightarrow> nx = None \<Longrightarrow> newest_node h a = Some (Ok (hd (xs @ [a])))"
proof (induction xs arbitrary: a as rule: rev_induct)
  case Nil
  then show ?case by (subst newest_node.simps) auto
next
  case (snoc b xs)
  have "\<exists>x. h a = Some x \<and> next_ptr x = Some b"
    using snoc.prems(1) by (induction xs arbitrary: nx) auto
  moreover have "newest_node h b = Some (Ok (hd (xs @ [b])))"
    using snoc.IH [of b "a # as"] snoc.prems by simp
  ultimately show ?case by (subst newest_node.simps) (auto simp: hd_append)
qed

lemma free_chain:
  "chain h nx (a # as) \<Longrightarrow> distinct (a # as) \<Longrightarrow> free_loop h a = Some (Ok (h |` (- set (a # as))))"
proof (induction as arbitrary: a h nx)
  case Nil
  then show ?case by (subst free_loop.simps) (auto simp: free_node_def at_node_def restrict_map_def fun_eq_iff)
next
  case (Cons b as)
  from Cons.prems obtain x y where x: "h a = Some x" "last_ptr x = Some b" "h b = Some y" "next_ptr y = Some a"
    "chain h (Some a) (b # as)" by auto
  have same: "c \<in> set (b # as) \<Longrightarrow> (h(a := None)) c = h c" for c using Cons.prems(2) by auto
  have "chain (h(a := None)) (Some a) (b # as)" using x(5) chain_cong [of "b # as" "h(a := None)" h, OF same] by blast
  then have "free_loop (h(a := None)) b = Some (Ok ((h(a := None)) |` (- set (b # as))))"
    by (rule Cons.IH) (use Cons.prems(2) in simp)
  moreover have "(h(a := None)) |` (- set (b # as)) = h |` (- set (a # b # as))" by (simp add: restrict_map_def fun_eq_iff)
  ultimately show ?case using x by (subst free_loop.simps) (simp add: free_node_def at_node_def del: fun_upd_apply)
qed

lemma free_nodes_chain:
  assumes "chain h None as" and "distinct as" and "a \<in> set as"
  shows "free_nodes h (Some a) = Some (Ok (h |` (- set as)))"
proof -
  obtain xs ys where as: "as = xs @ a # ys" using assms(3) by (auto simp: in_set_conv_decomp)
  obtain b bs where b: "as = b # bs" "hd (xs @ [a]) = b" using as by (cases xs) auto
  have "newest_node h a = Some (Ok b)" using newest_chain [of h None xs a ys] assms(1) as b(2) by simp
  with free_chain [of h None b bs] assms(1,2) b(1) show ?thesis by (simp add: free_nodes_def)
qed

lemma grow_one:
  assumes "chain h None (a # as)" and "distinct (a # as)" and "h b = None"
  shows "\<exists>h1 h2. create_node h (Some b) a (node_type n) = Ok (Some b, h1) \<and> put_node b n h1 = Ok h2
    \<and> chain h2 None (b # a # as) \<and> nodes_at h2 (b # a # as) = n # nodes_at h (a # as)
    \<and> (\<forall>c. c \<noteq> a \<longrightarrow> c \<noteq> b \<longrightarrow> h2 c = h c)"
proof -
  obtain x where x: "h a = Some x" "last_ptr x = (case as of [] \<Rightarrow> None | c # _ \<Rightarrow> Some c)" "chain h (Some a) as"
    using assms(1) by auto
  have fresh: "b \<notin> set (a # as)" using chain_alive [OF assms(1), of b] assms(3) by blast
  let ?h1 = "h(b \<mapsto> \<lparr>node_of = mk_node (node_type n) 0 None 0, last_ptr = Some a, next_ptr = None\<rparr>, a \<mapsto> x\<lparr>next_ptr := Some b\<rparr>)"
  let ?h2 = "?h1(b \<mapsto> \<lparr>node_of = n, last_ptr = Some a, next_ptr = None\<rparr>)"
  have same: "c \<in> set as \<Longrightarrow> ?h2 c = h c" for c using fresh assms(2) by auto
  have "chain ?h2 (Some a) as" using x(3) chain_cong [of as ?h2 h, OF same] by blast
  then have "chain ?h2 None (b # a # as)" using x(1,2) fresh by simp
  moreover have "nodes_at ?h2 (b # a # as) = n # nodes_at h (a # as)"
    using x(1) fresh nodes_at_cong [of as ?h2 h, OF same] by (simp add: nodes_at_def)
  moreover have "create_node h (Some b) a (node_type n) = Ok (Some b, ?h1)" "put_node b n ?h1 = Ok ?h2"
    using x(1) fresh by (auto simp: create_node_def put_node_def at_node_def)
  ultimately show ?thesis by (intro exI [of _ ?h1] exI [of _ ?h2]) simp
qed

lemma grow_chain:
  assumes "chain h None (a # as)" and "distinct (map fst ns @ a # as)" and "\<forall>b \<in> fst ` set ns. h b = None"
  shows "\<exists>h'. grow_nodes h a ns = Ok (hd (rev (map fst ns) @ [a]), h') \<and> chain h' None (rev (map fst ns) @ a # as)
    \<and> nodes_at h' (rev (map fst ns) @ a # as) = rev (map snd ns) @ nodes_at h (a # as)
    \<and> (\<forall>c. c \<notin> set (map fst ns @ a # as) \<longrightarrow> h' c = h c)"
  using assms
proof (induction ns arbitrary: h a as)
  case (Cons bn ns)
  obtain b n where bn: "bn = (b, n)" by (cases bn)
  have "distinct (a # as)" "h b = None" using Cons.prems bn by auto
  from grow_one [OF Cons.prems(1) this, of n] obtain h1 h2 where h2:
    "create_node h (Some b) a (node_type n) = Ok (Some b, h1)" "put_node b n h1 = Ok h2" "chain h2 None (b # a # as)"
    "nodes_at h2 (b # a # as) = n # nodes_at h (a # as)" "\<forall>c. c \<noteq> a \<longrightarrow> c \<noteq> b \<longrightarrow> h2 c = h c" by blast
  have "distinct (map fst ns @ b # a # as)" using Cons.prems(2) bn by auto
  moreover have "\<forall>c \<in> fst ` set ns. h2 c = None"
  proof
    fix c assume c: "c \<in> fst ` set ns"
    then have "c \<noteq> a" "c \<noteq> b" using Cons.prems(2) bn by auto
    with h2(5) have "h2 c = h c" by blast
    with c Cons.prems(3) show "h2 c = None" by auto
  qed
  ultimately obtain h' where h': "grow_nodes h2 b ns = Ok (hd (rev (map fst ns) @ [b]), h')"
    "chain h' None (rev (map fst ns) @ b # a # as)"
    "nodes_at h' (rev (map fst ns) @ b # a # as) = rev (map snd ns) @ nodes_at h2 (b # a # as)"
    "\<forall>c. c \<notin> set (map fst ns @ b # a # as) \<longrightarrow> h' c = h2 c"
    using Cons.IH [OF h2(3)] by blast
  have "grow_nodes h a (bn # ns) = Ok (hd (rev (map fst (bn # ns)) @ [a]), h')"
    using bn h2(1,2) h'(1) by (simp add: hd_append)
  moreover have "chain h' None (rev (map fst (bn # ns)) @ a # as)" using bn h'(2) by simp
  moreover have "nodes_at h' (rev (map fst (bn # ns)) @ a # as) = rev (map snd (bn # ns)) @ nodes_at h (a # as)"
    using bn h'(3) h2(4) by simp
  moreover have "\<forall>c. c \<notin> set (map fst (bn # ns) @ a # as) \<longrightarrow> h' c = h c" using bn h'(4) h2(5) by simp
  ultimately show ?case by blast
qed (simp add: nodes_at_def)

section \<open>Property\<close>

text \<open>
  C25. The linked list of the resource nodes is the list of the model, and its memory is managed
  correctly: however many nodes are added to a first one, at addresses that were free, the searches
  by type and by type and level end and find the node that the functions on the list find, going
  back ends at the first node, and freeing the list from any of its nodes frees every node once,
  touches nothing that was freed and leaves the heap as it was before the first node was made.
\<close>

theorem nodes_refine_list:
  assumes "distinct (a # map fst ns)" and "\<forall>b \<in> set (a # map fst ns). h b = None"
  shows "\<exists>b h'. grow_nodes (root_node h a n) a ns = Ok (b, h')
    \<and> (\<forall>t l. \<exists>r. last_by_type_and_level h' b t l = Some (Ok r)
         \<and> map_option (\<lambda>x. node_of (the (h' x))) r = lastNodeByTypeAndLevel (rev (map snd ns) @ [n]) t l)
    \<and> (\<forall>t. \<exists>r. last_by_type h' b t = Some (Ok r)
         \<and> map_option (\<lambda>x. node_of (the (h' x))) r = lastNodeByType (rev (map snd ns) @ [n]) t)
    \<and> oldest_node h' b = Some (Ok a)
    \<and> (\<forall>x \<in> set (a # map fst ns). free_nodes h' (Some x) = Some (Ok h))"
proof -
  let ?h0 = "root_node h a n" and ?as = "rev (map fst ns) @ [a]"
  have h0: "chain ?h0 None [a]" "nodes_at ?h0 [a] = [n]" by (simp_all add: root_node_def nodes_at_def)
  have "distinct (map fst ns @ [a])" "\<forall>b \<in> fst ` set ns. ?h0 b = None" using assms by (auto simp: root_node_def)
  from grow_chain [OF h0(1) this] obtain h' where h': "grow_nodes ?h0 a ns = Ok (hd ?as, h')" "chain h' None ?as"
    "nodes_at h' ?as = rev (map snd ns) @ [n]" "\<forall>c. c \<notin> set ?as \<longrightarrow> h' c = ?h0 c"
    using h0(2) by auto
  obtain b bs where b: "?as = b # bs" by (cases ?as) auto
  have found: "map_option (\<lambda>x. node_of (the (h' x))) (find (\<lambda>b. wanted (node_of (the (h' b)))) (b # bs)) =
      find wanted (rev (map snd ns) @ [n])" for wanted
    unfolding h'(3) [symmetric] b nodes_at_def by (rule find_node_map)
  have "h' |` (- set ?as) = h"
    using h'(4) assms(2) by (auto simp: restrict_map_def root_node_def fun_eq_iff)
  then have free: "free_nodes h' (Some x) = Some (Ok h)" if "x \<in> set ?as" for x
    using free_nodes_chain [OF h'(2) _ that] assms(1) by auto
  have last: "last_node h' wanted b = Some (Ok (find (\<lambda>b. wanted (node_of (the (h' b)))) (b # bs)))" for wanted
    using last_node_chain [of h' None b bs wanted] h'(2) b by simp
  have "oldest_node h' b = Some (Ok a)" using oldest_chain [of h' None b bs] h'(2) b by (metis last_snoc)
  moreover have "\<forall>x \<in> set (a # map fst ns). free_nodes h' (Some x) = Some (Ok h)" using free by simp
  moreover have "\<exists>r. last_node h' wanted b = Some (Ok r)
      \<and> map_option (\<lambda>x. node_of (the (h' x))) r = find wanted (rev (map snd ns) @ [n])" for wanted
    using last found by blast
  moreover have "grow_nodes ?h0 a ns = Ok (b, h')" using h'(1) b by simp
  ultimately show ?thesis
    unfolding last_by_type_and_level_def last_by_type_def lastNodeByTypeAndLevel_def lastNodeByType_def by blast
qed

theorem nodes_refine_list_witness:
  "\<exists>b h'. grow_nodes (root_node Map.empty 8 (mk_node RDT_RESOURCE_DIRECTORY 1 None 0)) 8 [(16, mk_node RDT_DIRECTORY_ENTRY 1 None 16)] = Ok (b, h')
    \<and> oldest_node h' b = Some (Ok 8) \<and> free_nodes h' (Some 16) = Some (Ok Map.empty)"
  using nodes_refine_list [of 8 "[(16, mk_node RDT_DIRECTORY_ENTRY 1 None 16)]" Map.empty "mk_node RDT_RESOURCE_DIRECTORY 1 None 0"]
  by auto

end
