(* ===== verification/Security_Descriptor.thy ===== *)
theory Security_Descriptor
  imports Action_Answers "HOL-Library.Sublist"
begin

text \<open>
  \<open>src/src/backend/services/samba_based/utils/security_descriptor_utils.cpp\<close>: the text form of the
  security descriptors of files, shares and registry keys. The numbers of access rights and flags
  are macros of Samba, so they are a parameter, a function from the names of the macros; so are
  the calls that find the name of a principal, numbered in the order in which they are made.
\<close>

unbundle bit_operations_syntax

section \<open>The library\<close>

type_synonym dom_sid = "nat list"

text \<open>
  Opening the pipe may fail without writing the handle. \<open>hash_order\<close> is the order in which the
  hash tables are traversed, \<open>cut_text\<close> what fits into the buffer for a name.
\<close>

datatype pipe_result = Pipe_opened | Pipe_failed | Pipe_not_written

record sd_lib =
  sec :: "string \<Rightarrow> 32 word"
  hash_order :: "(32 word \<times> string) list \<Rightarrow> (32 word \<times> string) list"
  sid_to_fstring :: "dom_sid \<Rightarrow> string"
  ipc_connect :: "nat \<Rightarrow> nat option"
  lsarpc_open :: "nat \<Rightarrow> pipe_result"
  lsa_policy :: "nat \<Rightarrow> bool"
  lsa_lookup :: "nat \<Rightarrow> dom_sid \<Rightarrow> (string \<times> string) option"
  cut_text :: "string \<Rightarrow> string"

text \<open>The connection: the tree it is connected to, and how many names have been looked up.\<close>

record cli_state =
  tcon :: "nat option"
  lookups :: nat

text \<open>What the library hands over for a file, share or key.\<close>

record security_ace =
  ace_type :: "32 word"
  aflags :: "8 word"
  access_mask :: "32 word"
  trustee :: dom_sid

record security_descriptor =
  revision :: nat
  sd_type :: "16 word"
  owner_sid :: "dom_sid option"
  group_sid :: "dom_sid option"
  dacl :: "security_ace list option"

section \<open>The tables of rights\<close>

datatype entity_type = NTFS_FILE | NTFS_DIR | SHARE | REGISTRY | GENERIC | STD

definition Modify :: "32 word" where "Modify = 0x301BF"
definition Read_Rights :: "32 word" where "Read_Rights = 0x20089"
definition Write_Rights :: "32 word" where "Write_Rights = 0x116"
definition Read_And_Execute :: "32 word" where "Read_And_Execute = 0x200A9"
definition Full_Control :: "32 word" where "Full_Control = 0x1F01FF"
definition Reg_Full_Control :: "32 word" where "Reg_Full_Control = 0xF003F"
definition Reg_Read_And_Execute :: "32 word" where "Reg_Read_And_Execute = 0x20019"

lemmas rights_defs = Modify_def Read_Rights_def Write_Rights_def Read_And_Execute_def Full_Control_def
  Reg_Full_Control_def Reg_Read_And_Execute_def

text \<open>A \<open>std::map\<close> with the order \<open>std::greater\<close>: largest key first, the first entry of a key stays.\<close>

fun put_greater :: "32 word \<Rightarrow> string \<Rightarrow> (32 word \<times> string) list \<Rightarrow> (32 word \<times> string) list" where
  "put_greater k v [] = [(k, v)]"
| "put_greater k v ((k', v') # m) =
     (if k = k' then (k', v') # m else if k > k' then (k, v) # (k', v') # m else (k', v') # put_greater k v m)"

definition greater_map :: "(32 word \<times> string) list \<Rightarrow> (32 word \<times> string) list" where
  "greater_map xs = foldl (\<lambda>m (k, v). put_greater k v m) [] xs"

fun perm_dir :: "(string \<Rightarrow> 32 word) \<Rightarrow> entity_type \<Rightarrow> (32 word \<times> string) list" where
  "perm_dir s NTFS_FILE = greater_map
     [(s ''SEC_FILE_READ_DATA'', ''FILE_READ_DATA''), (s ''SEC_FILE_WRITE_DATA'', ''FILE_WRITE_DATA''),
      (s ''SEC_FILE_APPEND_DATA'', ''FILE_APPEND_DATA''), (s ''SEC_FILE_READ_EA'', ''FILE_READ_EA''),
      (s ''SEC_FILE_WRITE_EA'', ''FILE_WRITE_EA''), (s ''SEC_FILE_EXECUTE'', ''FILE_EXECUTE''),
      (s ''SEC_FILE_READ_ATTRIBUTE'', ''FILE_READ_ATTRIBUTE''), (s ''SEC_FILE_WRITE_ATTRIBUTE'', ''FILE_WRITE_ATTRIBUTE''),
      (Modify, ''Modify''), (Read_And_Execute, ''Read And Execute''), (Full_Control, ''Full Control''),
      (Read_Rights, ''Read''), (Write_Rights, ''Write'')]"
| "perm_dir s NTFS_DIR = greater_map
     [(s ''SEC_DIR_LIST'', ''DIR_LIST''), (s ''SEC_DIR_ADD_FILE'', ''DIR_ADD_FILE''),
      (s ''SEC_DIR_ADD_SUBDIR'', ''DIR_ADD_SUBDIR''), (s ''SEC_DIR_READ_EA'', ''DIR_READ_EA''),
      (s ''SEC_DIR_WRITE_EA'', ''DIR_WRITE_EA''), (s ''SEC_DIR_TRAVERSE'', ''DIR_TRAVERSE''),
      (s ''SEC_DIR_DELETE_CHILD'', ''SEC_DIR_DELETE_CHILD''), (s ''SEC_DIR_READ_ATTRIBUTE'', ''DIR_READ_ATTRIBUTE''),
      (s ''SEC_DIR_WRITE_ATTRIBUTE'', ''DIR_WRITE_ATTRIBUTE''), (Modify, ''Modify''), (Read_And_Execute, ''Read And Execute''),
      (Full_Control, ''Full Control''), (Read_Rights, ''Read''), (Write_Rights, ''Write'')]"
| "perm_dir s REGISTRY = greater_map
     [(s ''SEC_REG_QUERY_VALUE'', ''Query''), (s ''SEC_REG_SET_VALUE'', ''Set Value''),
      (s ''SEC_REG_CREATE_SUBKEY'', ''CreateSubKey''), (s ''SEC_REG_ENUM_SUBKEYS'', ''EnumSubKey''),
      (s ''SEC_REG_NOTIFY'', ''Notify''), (s ''SEC_REG_CREATE_LINK'', ''Create Link''),
      (Reg_Read_And_Execute, ''Read Key, Execute Key''), (Reg_Full_Control, ''Full Control'')]"
| "perm_dir s SHARE = greater_map
     [(s ''SHARE_ALL_ACCESS'', ''SHARE_ALL_ACCESS''), (s ''SHARE_READ_ONLY'', ''SHARE_READ_ONLY''),
      (s ''SEC_FILE_APPEND_DATA'', ''Change'')]"
| "perm_dir s GENERIC = greater_map
     [(s ''GENERIC_ALL_ACCESS'', ''GENERIC_ALL_ACCESS''), (s ''GENERIC_EXECUTE_ACCESS'', ''GENERIC_EXECUTE_ACCESS''),
      (s ''GENERIC_WRITE_ACCESS'', ''GENERIC_WRITE_ACCESS''), (s ''GENERIC_READ_ACCESS'', ''GENERIC_READ_ACCESS'')]"
| "perm_dir s STD = greater_map
     [(s ''SEC_STD_DELETE'', ''Delete''), (s ''SEC_STD_READ_CONTROL'', ''Read Control''),
      (s ''SEC_STD_WRITE_DAC'', ''Change Permissions''), (s ''SEC_STD_WRITE_OWNER'', ''Take Ownership''),
      (s ''SEC_STD_SYNCHRONIZE'', ''Synchronize'')]"

definition sec_desc_ctrl_bits :: "(string \<Rightarrow> 32 word) \<Rightarrow> (32 word \<times> string) list" where
  "sec_desc_ctrl_bits s =
     [(s ''SEC_DESC_OWNER_DEFAULTED'', ''OD''), (s ''SEC_DESC_GROUP_DEFAULTED'', ''GD''),
      (s ''SEC_DESC_DACL_PRESENT'', ''DP''), (s ''SEC_DESC_DACL_DEFAULTED'', ''DD''),
      (s ''SEC_DESC_SACL_PRESENT'', ''SP''), (s ''SEC_DESC_SACL_DEFAULTED'', ''SD''),
      (s ''SEC_DESC_DACL_TRUSTED'', ''DT''), (s ''SEC_DESC_SERVER_SECURITY'', ''SS''),
      (s ''SEC_DESC_DACL_AUTO_INHERIT_REQ'', ''DR''), (s ''SEC_DESC_SACL_AUTO_INHERIT_REQ'', ''SR''),
      (s ''SEC_DESC_DACL_AUTO_INHERITED'', ''DI''), (s ''SEC_DESC_SACL_AUTO_INHERITED'', ''SI''),
      (s ''SEC_DESC_DACL_PROTECTED'', ''PD''), (s ''SEC_DESC_SACL_PROTECTED'', ''PS''),
      (s ''SEC_DESC_RM_CONTROL_VALID'', ''RM''), (s ''SEC_DESC_SELF_RELATIVE'', ''SR'')]"

definition ace_flags :: "(string \<Rightarrow> 32 word) \<Rightarrow> (32 word \<times> string) list" where
  "ace_flags s =
     [(s ''SEC_ACE_FLAG_OBJECT_INHERIT'', ''OI''), (s ''SEC_ACE_FLAG_CONTAINER_INHERIT'', ''CI''),
      (s ''SEC_ACE_FLAG_NO_PROPAGATE_INHERIT'', ''NP''), (s ''SEC_ACE_FLAG_INHERIT_ONLY'', ''IO''),
      (s ''SEC_ACE_FLAG_INHERITED_ACE'', ''I'')]"

section \<open>From masks to names\<close>

text \<open>A byte is put into a stream as a character, also after \<open>std::hex\<close>.\<close>

definition NType_to_hex_string :: "'a::len word \<Rightarrow> string" where
  "NType_to_hex_string v = ''0x'' @ (if LENGTH('a) = 8 then [char_of (unat v)] else to_hex_nat (unat v))"

text \<open>
  The flags are of any unsigned type; they are compared as 32-bit numbers, and the rest is stored in
  their own type. The variable \<open>remain\<close> is never set.
\<close>

fun flags_loop :: "(32 word \<times> string) list \<Rightarrow> 'a::len word \<Rightarrow> string list \<Rightarrow> string list \<times> 'a word" where
  "flags_loop [] flags out = (out, flags)"
| "flags_loop ((k, s) # es) flags out =
     (if (ucast flags :: 32 word) \<ge> k \<and> ucast flags AND k = k
      then flags_loop es (ucast (ucast flags AND NOT k)) (out @ [s])
      else flags_loop es flags out)"

definition flags_vector :: "(32 word \<times> string) list \<Rightarrow> 'a::len word \<Rightarrow> string list \<Rightarrow> string list \<times> 'a word" where
  "flags_vector cont flags out =
     (let remain = (0 :: 'a word); (out', flags') = flags_loop cont flags out
      in (if remain > 0 then out' @ [NType_to_hex_string remain] else out', flags'))"

definition std_rights :: "(string \<Rightarrow> 32 word) \<Rightarrow> 32 word \<Rightarrow> string list" where
  "std_rights s msk = map snd (filter (\<lambda>(k, n). k = msk AND k) (perm_dir s STD))"

text \<open>\<open>generic_to_file_generic\<close>, sorted by \<open>std::map\<close>; only the union of the values counts.\<close>

definition generic_to_file_generic :: "(string \<Rightarrow> 32 word) \<Rightarrow> (32 word \<times> 32 word) list" where
  "generic_to_file_generic s =
     [(s ''GENERIC_ALL_ACCESS'', s ''FILE_GENERIC_ALL''), (s ''GENERIC_EXECUTE_ACCESS'', s ''FILE_GENERIC_EXECUTE''),
      (s ''GENERIC_WRITE_ACCESS'', s ''FILE_GENERIC_WRITE''), (s ''GENERIC_READ_ACCESS'', s ''FILE_GENERIC_READ'')]"

definition expand_generic :: "(string \<Rightarrow> 32 word) \<Rightarrow> 32 word \<Rightarrow> 32 word" where
  "expand_generic s msk =
     foldl (\<lambda>m (k, v). if k = msk AND k then m OR v else m) 0 (generic_to_file_generic s) AND 0x00FFFFFF"

definition get_access_mask :: "(string \<Rightarrow> 32 word) \<Rightarrow> 32 word \<Rightarrow> entity_type \<Rightarrow> string list \<Rightarrow> string list" where
  "get_access_mask s msk et out =
     (let (out1, orig_mask) = flags_vector (perm_dir s et) msk out;
          out2 = (if 0 < orig_mask then out1 @ std_rights s orig_mask @ std_rights s (expand_generic s orig_mask) else out1)
      in if out2 = [] then [NType_to_hex_string orig_mask] else out2)"

definition get_ace_flags :: "sd_lib \<Rightarrow> 8 word \<Rightarrow> string list \<Rightarrow> string list" where
  "get_ace_flags L flags out = fst (flags_vector (hash_order L (ace_flags (sec L))) flags out)"

definition get_acl_ctrl :: "sd_lib \<Rightarrow> 16 word \<Rightarrow> string list \<Rightarrow> string list" where
  "get_acl_ctrl L ctrl out = fst (flags_vector (hash_order L (sec_desc_ctrl_bits (sec L))) ctrl out)"

section \<open>Principals\<close>

text \<open>
  The text of an identity is replaced by its name when every call succeeds. On the way out the
  handle of the pipe is freed, the tree disconnected and the old one restored.
\<close>

definition SidToString :: "sd_lib \<Rightarrow> cli_state \<Rightarrow> dom_sid \<Rightarrow> (string \<times> cli_state) outcome" where
  "SidToString L cli sid =
     (let n = lookups cli; str = sid_to_fstring L sid; o_conn = tcon cli;
          restored = cli\<lparr>lookups := n + 1, tcon := o_conn\<rparr>
      in case ipc_connect L n of
           None \<Rightarrow> Ok (str, restored)
         | Some t \<Rightarrow>
             (let connected = cli\<lparr>lookups := n + 1, tcon := Some t\<rparr>; fail = (connected\<lparr>tcon := None\<rparr>)\<lparr>tcon := o_conn\<rparr>
              in case lsarpc_open L n of
                   Pipe_not_written \<Rightarrow> UB
                 | Pipe_failed \<Rightarrow> Ok (str, fail)
                 | Pipe_opened \<Rightarrow>
                     if \<not> lsa_policy L n then Ok (str, fail)
                     else (case lsa_lookup L n sid of
                             None \<Rightarrow> Ok (str, fail)
                           | Some (dmn, name) \<Rightarrow>
                               Ok (cut_text L (if dmn \<noteq> [] then dmn @ ''/'' @ name else name), fail))))"

definition opt_sid :: "sd_lib \<Rightarrow> cli_state \<Rightarrow> dom_sid option \<Rightarrow> (string \<times> cli_state) outcome" where
  "opt_sid L cli sid = (case sid of None \<Rightarrow> Ok ([], cli) | Some d \<Rightarrow> SidToString L cli d)"

section \<open>The text form of a descriptor\<close>

record ACE_str =
  SecurityPrincipal :: string
  FileSystemRights :: "string list"
  AccessControlType :: string
  AccessControlFlags :: "string list"

record Security_Descriptor_str =
  Revision :: string
  Control :: "string list"
  Owner :: string
  Group :: string
  ACLS :: "ACE_str list"

definition control_type :: "sd_lib \<Rightarrow> 32 word \<Rightarrow> string" where
  "control_type L t =
     (if t = sec L ''SEC_ACE_TYPE_ACCESS_ALLOWED'' then ''ALLOWED''
      else if t = sec L ''SEC_ACE_TYPE_ACCESS_DENIED'' then ''DENIED'' else to_string_nat (unat t))"

definition get_acl :: "sd_lib \<Rightarrow> cli_state \<Rightarrow> security_ace \<Rightarrow> entity_type \<Rightarrow> (ACE_str \<times> cli_state) outcome" where
  "get_acl L cli ace et =
     bind_o (SidToString L cli (trustee ace)) (\<lambda>(sidstr, cli').
       Ok (\<lparr>SecurityPrincipal = sidstr, FileSystemRights = get_access_mask (sec L) (access_mask ace) et [],
            AccessControlType = control_type L (ace_type ace), AccessControlFlags = get_ace_flags L (aflags ace) []\<rparr>, cli'))"

fun acls_of :: "sd_lib \<Rightarrow> cli_state \<Rightarrow> security_ace list \<Rightarrow> entity_type \<Rightarrow> (ACE_str list \<times> cli_state) outcome" where
  "acls_of L cli [] et = Ok ([], cli)"
| "acls_of L cli (a # as) et =
     bind_o (get_acl L cli a et) (\<lambda>(x, cli1). bind_o (acls_of L cli1 as et) (\<lambda>(xs, cli2). Ok (x # xs, cli2)))"

definition get_acls :: "sd_lib \<Rightarrow> cli_state \<Rightarrow> security_descriptor \<Rightarrow> entity_type \<Rightarrow> (ACE_str list \<times> cli_state) outcome" where
  "get_acls L cli sd et = acls_of L cli (case dacl sd of None \<Rightarrow> [] | Some as \<Rightarrow> as) et"

definition get_sd_str :: "sd_lib \<Rightarrow> cli_state \<Rightarrow> security_descriptor \<Rightarrow> entity_type \<Rightarrow> (Security_Descriptor_str \<times> cli_state) outcome" where
  "get_sd_str L cli sd et =
     bind_o (opt_sid L cli (owner_sid sd)) (\<lambda>(own, cli1).
     bind_o (opt_sid L cli1 (group_sid sd)) (\<lambda>(grp, cli2).
     bind_o (get_acls L cli2 sd et) (\<lambda>(acls, cli3).
       Ok (\<lparr>Revision = to_string_nat (revision sd), Control = get_acl_ctrl L (sd_type sd) [], Owner = own, Group = grp,
            ACLS = acls\<rparr>, cli3))))"

text \<open>The object of JSON is ordered by its keys.\<close>

definition ACE_to_json :: "ACE_str \<Rightarrow> json" where
  "ACE_to_json a = JObj [(''AccessControlFlags'', JArr (map JStr (AccessControlFlags a))),
     (''AccessControlType'', JStr (AccessControlType a)), (''FileSystemRights'', JArr (map JStr (FileSystemRights a))),
     (''SecurityPrincipal'', JStr (SecurityPrincipal a))]"

definition sd_to_json :: "Security_Descriptor_str \<Rightarrow> json" where
  "sd_to_json r = JObj [(''ACLS'', JArr (map ACE_to_json (ACLS r))), (''Control'', JArr (map JStr (Control r))),
     (''Group'', JStr (Group r)), (''Owner'', JStr (Owner r)), (''Revision'', JStr (Revision r))]"

section \<open>The printed form\<close>

text \<open>
  For debugging. The last character of the joined names is looked at without asking whether there
  is one; the names of the control bits are joined and thrown away; the names of the rights are
  taken out of the mask of the entry itself.
\<close>

definition joined :: "string list \<Rightarrow> string" where
  "joined v = concat (map (\<lambda>e. e @ ''|'') v)"

definition without_bar :: "string \<Rightarrow> string outcome" where
  "without_bar str = (if str = [] then UB else Ok (if last str = CHR ''|'' then butlast str else str))"

definition print_ace_flags :: "sd_lib \<Rightarrow> 8 word \<Rightarrow> string outcome" where
  "print_ace_flags L flags =
     bind_o (without_bar (joined (fst (flags_vector (hash_order L (ace_flags (sec L))) flags []))))
       (\<lambda>str. Ok (''/'' @ str @ ''/''))"

definition print_ace :: "sd_lib \<Rightarrow> cli_state \<Rightarrow> security_ace \<Rightarrow> entity_type \<Rightarrow> ((string \<times> security_ace) \<times> cli_state) outcome" where
  "print_ace L cli ace et =
     bind_o (SidToString L cli (trustee ace)) (\<lambda>(sidstr, cli').
     bind_o (print_ace_flags L (aflags ace)) (\<lambda>fl.
     let (v, rest) = flags_vector (perm_dir (sec L) et) (access_mask ace) []
     in bind_o (without_bar (joined v)) (\<lambda>str.
          Ok ((sidstr @ '':'' @ control_type L (ace_type ace) @ fl @ str, ace\<lparr>access_mask := rest\<rparr>), cli'))))"

definition print_acl_ctrl :: "sd_lib \<Rightarrow> 16 word \<Rightarrow> string outcome" where
  "print_acl_ctrl L ctrl =
     bind_o (without_bar (joined (get_acl_ctrl L ctrl []))) (\<lambda>_. Ok (''CONTROL:'' @ [CHR 0x0A]))"

fun print_aces :: "sd_lib \<Rightarrow> cli_state \<Rightarrow> security_ace list \<Rightarrow> entity_type \<Rightarrow> ((string \<times> security_ace list) \<times> cli_state) outcome" where
  "print_aces L cli [] et = Ok (([], []), cli)"
| "print_aces L cli (a # as) et =
     bind_o (print_ace L cli a et) (\<lambda>((t, a'), cli1).
     bind_o (print_aces L cli1 as et) (\<lambda>((u, as'), cli2). Ok ((''ACL_str:'' @ t @ [CHR 0x0A] @ u, a' # as'), cli2)))"

definition sec_desc_print ::
  "sd_lib \<Rightarrow> cli_state \<Rightarrow> security_descriptor \<Rightarrow> entity_type \<Rightarrow> ((string \<times> security_descriptor) \<times> cli_state) outcome" where
  "sec_desc_print L cli sd et =
     bind_o (print_acl_ctrl L (sd_type sd)) (\<lambda>ctl.
     bind_o (opt_sid L cli (owner_sid sd)) (\<lambda>(own, cli1).
     bind_o (opt_sid L cli1 (group_sid sd)) (\<lambda>(grp, cli2).
     bind_o (print_aces L cli2 (case dacl sd of None \<Rightarrow> [] | Some as \<Rightarrow> as) et) (\<lambda>((t, as'), cli3).
       Ok ((''REVISION:'' @ to_string_nat (revision sd) @ [CHR 0x0A] @ ctl @ ''OWNER:'' @ own @ [CHR 0x0A] @ ''GROUP:'' @ grp @
              [CHR 0x0A] @ t, sd\<lparr>dacl := map_option (\<lambda>_. as') (dacl sd)\<rparr>), cli3)))))"

definition ACE_to_text :: "ACE_str \<Rightarrow> string" where
  "ACE_to_text a = ''SecurityPrincipal: '' @ SecurityPrincipal a @ [CHR 0x0A] @ ''FileSystemRights: '' @ joined (FileSystemRights a) @
     [CHR 0x0A] @ ''AccessControlType: '' @ AccessControlType a @ [CHR 0x0A] @ ''AccessControlFlags: '' @
     joined (AccessControlFlags a) @ [CHR 0x0A]"

definition sd_to_text :: "Security_Descriptor_str \<Rightarrow> string" where
  "sd_to_text r = ''Revision: '' @ Revision r @ [CHR 0x0A] @ ''Control: '' @ joined (Control r) @ [CHR 0x0A] @ ''Owner: '' @ Owner r @
     [CHR 0x0A] @ ''Group: '' @ Group r @ [CHR 0x0A] @ ''ACLS: '' @ [CHR 0x0A] @ concat (map ACE_to_text (ACLS r))"

section \<open>Lemmas\<close>

text \<open>The bits of a number; names stand for sets of bits.\<close>

definition bits :: "'a::len word \<Rightarrow> nat set" where
  "bits w = {i. bit w i}"

lemma bits_and [simp]: "bits (v AND w) = bits v \<inter> bits w"
  by (auto simp: bits_def bit_simps)

lemma bits_inject: "bits v = bits w \<longleftrightarrow> v = w"
proof
  assume "bits v = bits w"
  then have "bit v = bit w" unfolding bits_def by (rule Collect_inj)
  then show "v = w" by (simp add: bit_eq_iff)
qed simp

lemma bits_zero [simp]: "bits 0 = {}"
  by (simp add: bits_def)

lemma bits_empty_iff: "bits w = {} \<longleftrightarrow> w = 0"
  using bits_inject [of w 0] by simp

lemma bits_ucast_32:
  fixes v :: "'a::len word"
  assumes "LENGTH('a) \<le> 32"
  shows "bits (ucast v :: 32 word) = bits v"
  using assms by (auto simp: bits_def bit_simps dest: bit_imp_le_length)

lemma bits_rest:
  fixes flags :: "'a::len word"
  assumes "LENGTH('a) \<le> 32"
  shows "bits (ucast (ucast flags AND NOT (k :: 32 word)) :: 'a word) = bits flags - bits k"
  using assms by (auto simp: bits_def bit_simps dest: bit_imp_le_length)

lemma contains_iff:
  fixes flags :: "'a::len word"
  assumes "LENGTH('a) \<le> 32"
  shows "(ucast flags :: 32 word) \<ge> k \<and> ucast flags AND k = k \<longleftrightarrow> bits k \<subseteq> bits flags"
proof -
  have "ucast flags AND k = k \<longleftrightarrow> bits flags \<inter> bits k = bits k"
    by (simp only: bits_inject [symmetric] bits_and bits_ucast_32 [OF assms])
  moreover have "ucast flags AND k = k \<Longrightarrow> k \<le> ucast flags"
    using word_and_le2 [of "ucast flags" k] by (simp add: and.commute)
  ultimately show ?thesis by auto
qed

text \<open>
  What it means that names describe a set of bits: they are the names of some entries of the
  table, in its order, whose sets of bits are disjoint and together with the rest make up the
  flags, and no entry of the table is left in the rest.
\<close>

definition describes :: "(32 word \<times> string) list \<Rightarrow> nat set \<Rightarrow> string list \<Rightarrow> nat set \<Rightarrow> bool" where
  "describes es B names R \<longleftrightarrow>
     (\<exists>used. subseq used es \<and> names = map snd used \<and> sorted_wrt (\<lambda>a b. bits (fst a) \<inter> bits (fst b) = {}) used
       \<and> (\<forall>e \<in> set used. bits (fst e) \<inter> R = {}) \<and> B = R \<union> (\<Union>e \<in> set used. bits (fst e)))
     \<and> (\<forall>e \<in> set es. fst e \<noteq> 0 \<longrightarrow> \<not> bits (fst e) \<subseteq> R)"

lemma describes_Nil: "describes [] B [] B"
  by (auto simp: describes_def)

lemma describes_skip:
  assumes "describes es B names R" "\<not> bits k \<subseteq> B"
  shows "describes ((k, s) # es) B names R"
proof -
  have "R \<subseteq> B" using assms(1) by (auto simp: describes_def)
  with assms show ?thesis by (auto simp: describes_def intro: list_emb.intros)
qed

lemma describes_take:
  assumes "describes es (B - bits k) names R" "bits k \<subseteq> B"
  shows "describes ((k, s) # es) B (s # names) R"
proof -
  obtain used where u: "subseq used es" "names = map snd used" "sorted_wrt (\<lambda>a b. bits (fst a) \<inter> bits (fst b) = {}) used"
      "\<forall>e \<in> set used. bits (fst e) \<inter> R = {}" "B - bits k = R \<union> (\<Union>e \<in> set used. bits (fst e))"
    and l: "\<forall>e \<in> set es. fst e \<noteq> 0 \<longrightarrow> \<not> bits (fst e) \<subseteq> R"
    using assms(1) by (auto simp: describes_def)
  have d: "bits k \<inter> R = {}" "\<forall>e \<in> set used. bits k \<inter> bits (fst e) = {}" using u(5) by auto
  have "B = R \<union> (\<Union>e \<in> set ((k, s) # used). bits (fst e))" using u(5) assms(2) by auto
  moreover have "k \<noteq> 0 \<longrightarrow> \<not> bits k \<subseteq> R" using d(1) bits_empty_iff [of k] by auto
  moreover have "subseq ((k, s) # used) ((k, s) # es)" using u(1) by simp
  ultimately show ?thesis using u(2-4) d l unfolding describes_def
    by (intro conjI exI [of _ "(k, s) # used"]) auto
qed

lemma flags_loop_describes:
  fixes flags :: "'a::len word"
  assumes "LENGTH('a) \<le> 32"
  shows "\<exists>names rest. flags_loop es flags out = (out @ names, rest) \<and> describes es (bits flags) names (bits rest)"
proof (induction es flags out rule: flags_loop.induct)
  case (1 flags out)
  show ?case by (simp add: describes_Nil)
next
  case (2 k s es flags out)
  show ?case
  proof (cases "bits k \<subseteq> bits flags")
    case True
    note c = this [folded contains_iff [OF assms]]
    from 2(1) [OF c] obtain names and rest :: "'a word" where
      n: "flags_loop es (ucast (ucast flags AND NOT k) :: 'a word) (out @ [s]) = ((out @ [s]) @ names, rest)"
        "describes es (bits flags - bits k) names (bits rest)"
      by (auto simp: bits_rest [OF assms])
    have "flags_loop ((k, s) # es) flags out = (out @ s # names, rest)" using c n(1) by simp
    with describes_take [OF n(2) True, of s] show ?thesis by blast
  next
    case False
    note c = this [folded contains_iff [OF assms]]
    from 2(2) [OF c] obtain names rest where
      n: "flags_loop es flags out = (out @ names, rest)" "describes es (bits flags) names (bits rest)" by blast
    have "flags_loop ((k, s) # es) flags out = (out @ names, rest)" using c n(1) by auto
    with describes_skip [OF n(2) False, of s] show ?thesis by blast
  qed
qed

lemma flags_vector_eq: "flags_vector cont flags out = flags_loop cont flags out"
  by (simp add: flags_vector_def split: prod.split)

text \<open>The tables are traversed from the largest key down.\<close>

abbreviation descending :: "(32 word \<times> string) list \<Rightarrow> bool" where
  "descending \<equiv> sorted_wrt (\<lambda>a b. fst b < fst a)"

lemma set_put_greater: "fst ` set (put_greater k v m) = insert k (fst ` set m)"
  by (induction k v m rule: put_greater.induct) auto

lemma put_greater_descending: "descending m \<Longrightarrow> descending (put_greater k v m)"
proof (induction k v m rule: put_greater.induct)
  case (2 k v k' v' m)
  have "\<forall>e \<in> set (put_greater k v m). fst e < k'" if "\<not> k > k'" "k \<noteq> k'"
  proof
    fix e assume "e \<in> set (put_greater k v m)"
    then have "fst e \<in> insert k (fst ` set m)" using set_put_greater [of k v m] by blast
    then show "fst e < k'" using 2(2) that by auto
  qed
  moreover have "\<forall>e \<in> set m. fst e < k'" "descending m" using 2(2) by auto
  ultimately show ?case using 2(1) by (auto simp: not_less_iff_gr_or_eq)
qed simp

lemma greater_map_descending: "descending (greater_map xs)"
proof -
  have "descending m \<Longrightarrow> descending (foldl (\<lambda>m (k, v). put_greater k v m) m xs)" for m
    by (induction xs arbitrary: m) (auto intro: put_greater_descending)
  then show ?thesis by (simp add: greater_map_def)
qed

lemma perm_dir_descending: "descending (perm_dir s et)"
  by (cases et) (simp_all add: greater_map_descending del: sorted_wrt.simps)

section \<open>Looking up the principals\<close>

definition sd_lib_ok :: "sd_lib \<Rightarrow> bool" where
  "sd_lib_ok L \<longleftrightarrow> (\<forall>n. lsarpc_open L n \<noteq> Pipe_not_written)"

text \<open>A look-up returns, counts one, and leaves the connection at the tree it was connected to.\<close>

lemma SidToString_returns:
  assumes "sd_lib_ok L"
  shows "\<exists>t. SidToString L cli sid = Ok (t, cli\<lparr>lookups := lookups cli + 1\<rparr>)"
proof -
  have "lsarpc_open L (lookups cli) \<noteq> Pipe_not_written" using assms by (simp add: sd_lib_ok_def)
  then show ?thesis
    by (cases cli; cases "lsarpc_open L (lookups cli)"; cases "ipc_connect L (lookups cli)"; cases "lsa_lookup L (lookups cli) sid")
      (auto simp: SidToString_def Let_def split: prod.split)
qed

lemma opt_sid_returns:
  assumes "sd_lib_ok L"
  shows "\<exists>t. opt_sid L cli sid = Ok (t, cli\<lparr>lookups := lookups cli + (if sid = None then 0 else 1)\<rparr>)"
  using SidToString_returns [OF assms, of cli] by (cases sid) (auto simp: opt_sid_def)

text \<open>What the text of an entry says of the entry, the name of the principal apart.\<close>

definition entry_text :: "sd_lib \<Rightarrow> entity_type \<Rightarrow> security_ace \<Rightarrow> ACE_str \<Rightarrow> bool" where
  "entry_text L et a x \<longleftrightarrow> FileSystemRights x = get_access_mask (sec L) (access_mask a) et []
     \<and> AccessControlType x = control_type L (ace_type a) \<and> AccessControlFlags x = get_ace_flags L (aflags a) []"

lemma acls_of_returns:
  assumes "sd_lib_ok L"
  shows "\<exists>xs. acls_of L cli as et = Ok (xs, cli\<lparr>lookups := lookups cli + length as\<rparr>) \<and> list_all2 (entry_text L et) as xs"
proof (induction as arbitrary: cli)
  case (Cons a as)
  obtain t where "SidToString L cli (trustee a) = Ok (t, cli\<lparr>lookups := lookups cli + 1\<rparr>)"
    using SidToString_returns [OF assms] by blast
  moreover obtain xs where "acls_of L (cli\<lparr>lookups := lookups cli + 1\<rparr>) as et =
      Ok (xs, cli\<lparr>lookups := lookups cli + 1 + length as\<rparr>)" "list_all2 (entry_text L et) as xs"
    using Cons.IH [of "cli\<lparr>lookups := lookups cli + 1\<rparr>"] by auto
  moreover have "entry_text L et a \<lparr>SecurityPrincipal = t, FileSystemRights = get_access_mask (sec L) (access_mask a) et [],
      AccessControlType = control_type L (ace_type a), AccessControlFlags = get_ace_flags L (aflags a) []\<rparr>"
    by (simp add: entry_text_def)
  ultimately show ?case by (simp add: get_acl_def)
qed simp

lemma get_sd_str_exact:
  assumes "sd_lib_ok L"
  shows "\<exists>own grp xs. get_sd_str L cli sd et = Ok (\<lparr>Revision = to_string_nat (revision sd), Control = get_acl_ctrl L (sd_type sd) [],
      Owner = own, Group = grp, ACLS = xs\<rparr>, cli\<lparr>lookups := lookups cli + (if owner_sid sd = None then 0 else 1)
        + (if group_sid sd = None then 0 else 1) + length (case dacl sd of None \<Rightarrow> [] | Some as \<Rightarrow> as)\<rparr>)
    \<and> list_all2 (entry_text L et) (case dacl sd of None \<Rightarrow> [] | Some as \<Rightarrow> as) xs"
proof -
  define as where "as = (case dacl sd of None \<Rightarrow> [] | Some as \<Rightarrow> as)"
  define n where "n = lookups cli + (if owner_sid sd = None then 0 else 1)"
  define k where "k = n + (if group_sid sd = None then 0 else 1)"
  obtain own where o: "opt_sid L cli (owner_sid sd) = Ok (own, cli\<lparr>lookups := n\<rparr>)"
    unfolding n_def using opt_sid_returns [OF assms] by blast
  obtain grp where g: "opt_sid L (cli\<lparr>lookups := n\<rparr>) (group_sid sd) = Ok (grp, cli\<lparr>lookups := k\<rparr>)"
    using opt_sid_returns [OF assms, of "cli\<lparr>lookups := n\<rparr>" "group_sid sd"] by (auto simp: k_def)
  obtain xs where x: "acls_of L (cli\<lparr>lookups := k\<rparr>) as et = Ok (xs, cli\<lparr>lookups := k + length as\<rparr>)" "list_all2 (entry_text L et) as xs"
    using acls_of_returns [OF assms, of "cli\<lparr>lookups := k\<rparr>" as et] by auto
  show ?thesis
    using x(2) unfolding get_sd_str_def o g get_acls_def as_def [symmetric] bind_o.simps x(1) prod.case
    by (simp add: k_def n_def)
qed

lemma get_sd_str_returns: "sd_lib_ok L \<Longrightarrow> is_ok (get_sd_str L cli sd et)"
  using get_sd_str_exact [of L cli sd et] by (auto simp: is_ok_iff)

section \<open>Properties\<close>

text \<open>
  C31. The rights of an entry are named exactly: for every mask, kind of object and numbering of the
  rights, the names that \<open>get_access_mask\<close> returns begin with those of entries of the table, taken
  greedily from the largest down, whose bits are disjoint and together with a rest make up the mask,
  no entry being left in the rest; the rest is named by the standard rights it has, by those its
  generic rights stand for, and, when there is no name at all, by its number.
\<close>

theorem access_rights_named:
  "descending (perm_dir s et) \<and> (\<exists>names rest. describes (perm_dir s et) (bits m) names (bits rest)
     \<and> (let all = names @ (if rest = 0 then [] else std_rights s rest @ std_rights s (expand_generic s rest))
        in get_access_mask s m et [] = (if all = [] then [NType_to_hex_string rest] else all)))"
proof -
  obtain names and rest :: "32 word" where n: "flags_loop (perm_dir s et) m [] = (names, rest)"
      "describes (perm_dir s et) (bits m) names (bits rest)"
    using flags_loop_describes [of "perm_dir s et" m "[]"] by auto
  have "get_access_mask s m et [] = (let all = names @ (if rest = 0 then [] else std_rights s rest @ std_rights s (expand_generic s rest))
      in if all = [] then [NType_to_hex_string rest] else all)"
    by (simp add: get_access_mask_def flags_vector_eq n(1) word_gt_0)
  with n(2) perm_dir_descending show ?thesis by (auto simp only: Let_def)
qed


text \<open>The numbers of the rights and flags that the Windows protocols document.\<close>

definition windows_numbers :: "string \<Rightarrow> 32 word" where
  "windows_numbers name = (case map_of
     [(''SEC_FILE_READ_DATA'', 1), (''SEC_FILE_WRITE_DATA'', 2), (''SEC_FILE_APPEND_DATA'', 4), (''SEC_FILE_READ_EA'', 8),
      (''SEC_FILE_WRITE_EA'', 16), (''SEC_FILE_EXECUTE'', 32), (''SEC_FILE_READ_ATTRIBUTE'', 128), (''SEC_FILE_WRITE_ATTRIBUTE'', 256),
      (''SEC_STD_DELETE'', 0x10000), (''SEC_STD_READ_CONTROL'', 0x20000), (''SEC_STD_WRITE_DAC'', 0x40000),
      (''SEC_STD_WRITE_OWNER'', 0x80000), (''SEC_STD_SYNCHRONIZE'', 0x100000),
      (''GENERIC_ALL_ACCESS'', 0x10000000), (''GENERIC_EXECUTE_ACCESS'', 0x20000000), (''GENERIC_WRITE_ACCESS'', 0x40000000),
      (''GENERIC_READ_ACCESS'', 0x80000000), (''FILE_GENERIC_ALL'', 0x1F01FF), (''FILE_GENERIC_EXECUTE'', 0x1200A0),
      (''FILE_GENERIC_WRITE'', 0x120116), (''FILE_GENERIC_READ'', 0x120089),
      (''SEC_ACE_FLAG_OBJECT_INHERIT'', 1), (''SEC_ACE_FLAG_CONTAINER_INHERIT'', 2), (''SEC_ACE_FLAG_NO_PROPAGATE_INHERIT'', 4),
      (''SEC_ACE_FLAG_INHERIT_ONLY'', 8), (''SEC_ACE_FLAG_INHERITED_ACE'', 16), (''SEC_ACE_TYPE_ACCESS_ALLOWED'', 0),
      (''SEC_ACE_TYPE_ACCESS_DENIED'', 1)] name of None \<Rightarrow> 0 | Some v \<Rightarrow> v)"

text \<open>
  With these numbers the usual combinations have their names, and a bit without a name of its own
  disappears: 0x40, the right to delete the children of a folder, is not told for a file.
\<close>

lemma usual_rights:
  "get_access_mask windows_numbers 0x1F01FF NTFS_FILE [] = [''Full Control'']"
  "get_access_mask windows_numbers 0x1301BF NTFS_FILE [] = [''Modify'', ''Synchronize'']"
  "get_access_mask windows_numbers 0x1200A9 NTFS_FILE [] = [''Read And Execute'', ''Synchronize'']"
  by code_simp+

lemma unnamed_right_lost: "get_access_mask windows_numbers (0x20089 OR 0x40) NTFS_FILE [] = [''Read'']
    \<and> get_access_mask windows_numbers 0x20089 NTFS_FILE [] = [''Read'']"
  by code_simp

definition sample_sd_lib :: sd_lib where
  "sample_sd_lib = \<lparr>sec = windows_numbers, hash_order = (\<lambda>xs. xs), sid_to_fstring = (\<lambda>_. ''S-1-5-32''),
     ipc_connect = (\<lambda>n. Some 7), lsarpc_open = (\<lambda>n. Pipe_opened), lsa_policy = (\<lambda>n. True),
     lsa_lookup = (\<lambda>n s. if n = 0 then Some (''DOM'', ''alice'') else None), cut_text = (\<lambda>t. take 254 t)\<rparr>"

definition sample_sd :: security_descriptor where
  "sample_sd = \<lparr>revision = 1, sd_type = 0, owner_sid = Some [1], group_sid = None,
     dacl = Some [\<lparr>ace_type = 0, aflags = 3, access_mask = 0x1F01FF, trustee = [2]\<rparr>]\<rparr>"


end
