(* ===== verification/Rpc_Clients.thy ===== *)
theory Rpc_Clients
  imports Registry_Client Security_Descriptor
begin

text \<open>
  The clients on top of Samba's RPC library: \<open>rpc_client\<close>, \<open>lsa_client\<close>, \<open>srvsvc_client\<close> and
  \<open>registry_client2\<close> under \<open>src/src/backend/services/samba_based/\<close>. The library is a parameter:
  every call answers with a status, zero for success. A client method that uses the connection or
  the pipe dereferences it without a check.
\<close>

section \<open>The library\<close>

record rpc_lib =
  parse_binding :: "string \<Rightarrow> 32 word"
  set_transport :: "string \<Rightarrow> 32 word"
  binding_host :: "string \<Rightarrow> string"
  full_connection :: "credentials \<Rightarrow> string \<Rightarrow> string \<Rightarrow> string \<Rightarrow> 32 word \<times> nat"
  pipe_noauth :: "string \<Rightarrow> 32 word"
  pipe_with_creds :: "credentials \<Rightarrow> string \<Rightarrow> 32 word"
  ntstatus_to_werror :: "32 word \<Rightarrow> 32 word"
  werror_to_ntstatus :: "32 word \<Rightarrow> 32 word"
  werr_text :: "32 word \<Rightarrow> string"
  nt_errstr :: "32 word \<Rightarrow> string"
  cli_ntcreate :: "string \<Rightarrow> 32 word"
  query_descriptor :: "string \<Rightarrow> 32 word \<times> security_descriptor"
  share_enum_all :: "32 word \<times> 32 word \<times> (string option \<times> string option \<times> string option) list"
  open_hive :: "32 word \<Rightarrow> 32 word \<times> 32 word"
  open_subkey :: "string \<Rightarrow> 32 word \<times> 32 word"
  key_data_allocated :: bool
  get_key_security :: "32 word \<times> 32 word"
  pull_descriptor :: "32 word \<times> security_descriptor"
  names_lib :: sd_lib

definition NT_STATUS_INVALID_PARAMETER :: "32 word" where "NT_STATUS_INVALID_PARAMETER = 0xC000000D"
definition NT_STATUS_NO_MEMORY :: "32 word" where "NT_STATUS_NO_MEMORY = 0xC0000017"

section \<open>rpc_client\<close>

record rpc_client =
  rcli :: "cli_state option"
  rcreds :: "credentials option"
  pipe_handle :: "string option"
  binding :: "string option"

definition new_rpc_client :: rpc_client where
  "new_rpc_client = \<lparr>rcli = None, rcreds = None, pipe_handle = None, binding = None\<rparr>"

type_synonym 'c called = "(bool \<times> 32 word) \<times> 'c"

definition set_credentials :: "credentials \<Rightarrow> credentials" where
  "set_credentials c = \<lparr>domain = c_str (domain c), username = c_str (username c), password = c_str (password c),
     workstation = c_str (workstation c)\<rparr>"

definition rpc_connect :: "rpc_lib \<Rightarrow> session \<Rightarrow> string \<Rightarrow> string \<Rightarrow> rpc_client \<Rightarrow> rpc_client called" where
  "rpc_connect R sess share device C =
     (let cs = set_credentials (creds sess); C1 = C\<lparr>rcreds := Some cs\<rparr>; bnd = c_str (remote sess); st = parse_binding R bnd
      in if st \<noteq> 0 then ((False, ntstatus_to_werror R st), C1)
         else let C2 = C1\<lparr>binding := Some bnd\<rparr>; st = set_transport R bnd
           in if st \<noteq> 0 then ((False, ntstatus_to_werror R st), C2)
              else let (st, tree) = full_connection R cs (binding_host R bnd) (c_str share) (c_str device)
                in if st \<noteq> 0 then ((False, ntstatus_to_werror R st), C2)
                   else ((True, ntstatus_to_werror R st), C2\<lparr>rcli := Some \<lparr>tcon = Some tree, lookups = 0\<rparr>\<rparr>))"

definition open_pipe :: "rpc_lib \<Rightarrow> string \<Rightarrow> bool \<Rightarrow> rpc_client \<Rightarrow> rpc_client called outcome" where
  "open_pipe R table noauth C =
     (case (rcli C, rcreds C) of
        (Some _, Some cs) \<Rightarrow>
          (let st = (if noauth then pipe_noauth R table else pipe_with_creds R cs table)
           in if st \<noteq> 0 then Ok ((False, ntstatus_to_werror R st), C)
              else Ok ((True, ntstatus_to_werror R st), C\<lparr>pipe_handle := Some table\<rparr>))
      | _ \<Rightarrow> UB)"

definition connect_and_open_pipe ::
  "rpc_lib \<Rightarrow> session \<Rightarrow> string \<Rightarrow> string \<Rightarrow> string \<Rightarrow> bool \<Rightarrow> rpc_client \<Rightarrow> rpc_client called outcome" where
  "connect_and_open_pipe R sess share device table noauth C =
     (let (rv, C1) = rpc_connect R sess share device C in if \<not> fst rv then Ok (rv, C1) else open_pipe R table noauth C1)"

section \<open>lsa_client\<close>

definition get_secdesc :: "rpc_lib \<Rightarrow> string \<Rightarrow> rpc_client \<Rightarrow> ((bool \<times> 32 word) \<times> security_descriptor option) outcome" where
  "get_secdesc R filename C =
     (case rcli C of
        None \<Rightarrow> UB
      | Some _ \<Rightarrow>
          (let st = cli_ntcreate R (c_str filename)
           in if st \<noteq> 0 then Ok ((False, ntstatus_to_werror R st), None)
              else let (st, sd) = query_descriptor R (c_str filename)
                in if st \<noteq> 0 then Ok ((False, ntstatus_to_werror R st), None)
                   else Ok ((True, ntstatus_to_werror R st), Some sd)))"

definition lsa_connect :: "rpc_lib \<Rightarrow> session \<Rightarrow> string \<Rightarrow> rpc_client \<Rightarrow> rpc_client called" where
  "lsa_connect R sess share C = rpc_connect R sess share ''?????'' C"

text \<open>Both methods that turn the descriptor into text; the connection counts the look-ups.\<close>

definition with_descriptor ::
  "rpc_lib \<Rightarrow> string \<Rightarrow> rpc_client \<Rightarrow> (cli_state \<Rightarrow> security_descriptor \<Rightarrow> ('a \<times> cli_state) outcome)
    \<Rightarrow> (((bool \<times> 32 word) \<times> 'a option) \<times> rpc_client) outcome" where
  "with_descriptor R path C f =
     bind_o (get_secdesc R path C) (\<lambda>(ret, sd).
       case (sd, rcli C) of
         (Some d, Some cli) \<Rightarrow> bind_o (f cli d) (\<lambda>(x, cli'). Ok ((ret, Some x), C\<lparr>rcli := Some cli'\<rparr>))
       | _ \<Rightarrow> Ok ((ret, None), C))"

definition lsa_get_sd ::
  "rpc_lib \<Rightarrow> string \<Rightarrow> entity_type \<Rightarrow> rpc_client \<Rightarrow> (((bool \<times> 32 word) \<times> Security_Descriptor_str option) \<times> rpc_client) outcome" where
  "lsa_get_sd R path et C = with_descriptor R path C (\<lambda>cli sd. get_sd_str (names_lib R) cli sd et)"

definition lsa_get_acls ::
  "rpc_lib \<Rightarrow> string \<Rightarrow> rpc_client \<Rightarrow> (((bool \<times> 32 word) \<times> ACE_str list option) \<times> rpc_client) outcome" where
  "lsa_get_acls R path C = with_descriptor R path C (\<lambda>cli sd. get_acls (names_lib R) cli sd NTFS_DIR)"

text \<open>
  The dump prints the descriptor and then the text of its first entry, without asking whether there
  is one; by then the printing has emptied the masks.
\<close>

definition cacl_dump :: "rpc_lib \<Rightarrow> string \<Rightarrow> rpc_client \<Rightarrow> (((bool \<times> 32 word) \<times> string option) \<times> rpc_client) outcome" where
  "cacl_dump R path C = with_descriptor R path C (\<lambda>cli sd.
     bind_o (sec_desc_print (names_lib R) cli sd NTFS_DIR) (\<lambda>((t, sd'), cli1).
     bind_o (get_sd_str (names_lib R) cli1 sd' NTFS_DIR) (\<lambda>(r, cli2).
       if ACLS r = [] then UB else Ok (t @ ACE_to_text (ACLS r ! 0), cli2))))"

section \<open>srvsvc_client\<close>

record share_info =
  share_name :: string
  comment :: string
  share_path :: string

definition srvsvc_connect :: "rpc_lib \<Rightarrow> session \<Rightarrow> rpc_client \<Rightarrow> rpc_client called outcome" where
  "srvsvc_connect R sess C = connect_and_open_pipe R sess ''IPC$'' ''IPC'' ''srvsvc'' True C"

text \<open>The strings of a share come as pointers; a string made of a null pointer is undefined.\<close>

fun share_infos :: "(string option \<times> string option \<times> string option) list \<Rightarrow> share_info list outcome" where
  "share_infos [] = Ok []"
| "share_infos ((Some n, Some c, Some p) # xs) =
     bind_o (share_infos xs) (\<lambda>ys. Ok (\<lparr>share_name = n, comment = c, share_path = p\<rparr> # ys))"
| "share_infos (_ # xs) = UB"

definition enumerate_all_shares :: "rpc_lib \<Rightarrow> rpc_client \<Rightarrow> ((bool \<times> 32 word) \<times> share_info list) outcome" where
  "enumerate_all_shares R C =
     (case pipe_handle C of
        None \<Rightarrow> UB
      | Some _ \<Rightarrow>
          (case share_enum_all R of
             (st, werr, elems) \<Rightarrow>
               if st \<noteq> 0 then Ok ((False, ntstatus_to_werror R st), [])
               else if werr \<noteq> 0 then Ok ((False, werr), [])
               else bind_o (share_infos elems) (\<lambda>xs. Ok ((True, ntstatus_to_werror R st), xs))))"

section \<open>registry_client2\<close>

text \<open>The handles that are open: of the hive and of the key.\<close>

record reg_context =
  pol_hive :: bool
  pol_key :: bool

record registry_client2 =
  rpc2 :: rpc_client
  ctx2 :: reg_context

definition new_registry_client2 :: registry_client2 where
  "new_registry_client2 = \<lparr>rpc2 = new_rpc_client, ctx2 = \<lparr>pol_hive = False, pol_key = False\<rparr>\<rparr>"

definition dcerpc_winreg_Connect :: "rpc_lib \<Rightarrow> 32 word \<Rightarrow> 32 word \<times> 32 word" where
  "dcerpc_winreg_Connect R reg_type =
     (if reg_type \<in> {HKEY_CLASSES_ROOT, HKEY_LOCAL_MACHINE, HKEY_USERS, HKEY_CURRENT_USER, HKEY_PERFORMANCE_DATA}
      then open_hive R reg_type else (NT_STATUS_INVALID_PARAMETER, 0))"

definition registry_openkey :: "rpc_lib \<Rightarrow> string \<Rightarrow> reg_context \<Rightarrow> (32 word \<times> reg_context) outcome" where
  "registry_openkey R name ctx =
     bind_o (reg_hive_key name) (\<lambda>hk.
       case hk of
         None \<Rightarrow> Ok (NT_STATUS_INVALID_PARAMETER, ctx)
       | Some (hive, keyname) \<Rightarrow>
           (let (st, werr) = dcerpc_winreg_Connect R hive
            in if st \<noteq> 0 then Ok (st, ctx)
               else if werr \<noteq> 0 then Ok (werror_to_ntstatus R werr, ctx)
               else let ctx1 = ctx\<lparr>pol_hive := True\<rparr>; (st, werr) = open_subkey R (c_str keyname)
                 in if st \<noteq> 0 then Ok (st, ctx1\<lparr>pol_hive := False\<rparr>)
                    else if werr \<noteq> 0 then Ok (werror_to_ntstatus R werr, ctx1\<lparr>pol_hive := False\<rparr>)
                    else Ok (0, ctx1\<lparr>pol_key := True\<rparr>)))"

definition reg2_connect :: "rpc_lib \<Rightarrow> session \<Rightarrow> registry_client2 \<Rightarrow> registry_client2 called outcome" where
  "reg2_connect R sess C =
     bind_o (connect_and_open_pipe R sess ''IPC$'' ''IPC'' ''winreg'' False (rpc2 C)) (\<lambda>(rv, c). Ok (rv, C\<lparr>rpc2 := c\<rparr>))"

definition reg2_open_key :: "rpc_lib \<Rightarrow> string \<Rightarrow> registry_client2 \<Rightarrow> registry_client2 called outcome" where
  "reg2_open_key R k C =
     (if pipe_handle (rpc2 C) = None then UB
      else bind_o (registry_openkey R k (ctx2 C)) (\<lambda>(st, ctx).
        Ok ((st = 0, ntstatus_to_werror R st), C\<lparr>ctx2 := ctx\<rparr>)))"

text \<open>
  The way out is a static closure: it is made in the first call and keeps the addresses of the
  variables of that call, so that in every later call of the process it reads dead variables.
  \<open>called\<close> tells whether there was an earlier call.
\<close>

definition reg2_get_sd ::
  "rpc_lib \<Rightarrow> bool \<Rightarrow> registry_client2 \<Rightarrow> (((bool \<times> 32 word) \<times> Security_Descriptor_str option) \<times> registry_client2) outcome" where
  "reg2_get_sd R called C =
     (case (pipe_handle (rpc2 C), rcli (rpc2 C)) of
        (Some _, Some cli) \<Rightarrow>
          (let leave_with = (\<lambda>st x c. if called then UB
                 else Ok (((st = 0, ntstatus_to_werror R st), x), c\<lparr>ctx2 := \<lparr>pol_hive = False, pol_key = False\<rparr>\<rparr>))
           in if \<not> key_data_allocated R then leave_with NT_STATUS_NO_MEMORY None C
              else let (st, werr) = get_key_security R
                in if st \<noteq> 0 then leave_with st None C
                   else if werr \<noteq> 0 then leave_with (werror_to_ntstatus R werr) None C
                   else let (st, sd) = pull_descriptor R
                     in if st \<noteq> 0 then leave_with st None C
                        else bind_o (get_sd_str (names_lib R) cli sd REGISTRY) (\<lambda>(r, cli').
                          leave_with 0 (Some r) (C\<lparr>rpc2 := (rpc2 C)\<lparr>rcli := Some cli'\<rparr>\<rparr>)))
      | _ \<Rightarrow> UB)"

section \<open>Lemmas\<close>

definition rpc_lib_ok :: "rpc_lib \<Rightarrow> bool" where
  "rpc_lib_ok R \<longleftrightarrow> ntstatus_to_werror R 0 = 0 \<and> sd_lib_ok (names_lib R)"

lemma rpc_connect_cli:
  "rpc_connect R sess share device C = ((True, e), C') \<Longrightarrow> (\<exists>cli. rcli C' = Some cli) \<and> (\<exists>cs. rcreds C' = Some cs)"
  by (auto simp: rpc_connect_def Let_def split: if_splits prod.splits)

lemma open_pipe_returns:
  assumes "rcli C \<noteq> None" "rcreds C \<noteq> None"
  shows "\<exists>rv C'. open_pipe R table noauth C = Ok (rv, C') \<and> rcli C' = rcli C \<and> (fst rv \<longrightarrow> pipe_handle C' = Some table)"
  using assms by (cases "rcli C"; cases "rcreds C") (simp_all add: open_pipe_def Let_def ex_bool_eq)

lemma connect_and_open_pipe_returns:
  "\<exists>rv C'. connect_and_open_pipe R sess share device table noauth C = Ok (rv, C')
    \<and> (fst rv \<longrightarrow> pipe_handle C' = Some table \<and> (\<exists>cli. rcli C' = Some cli))"
proof -
  obtain ok e C1 where c: "rpc_connect R sess share device C = ((ok, e), C1)" by (metis surj_pair)
  show ?thesis
  proof (cases ok)
    case True
    then have "\<exists>cli. rcli C1 = Some cli" "rcli C1 \<noteq> None" "rcreds C1 \<noteq> None"
      using rpc_connect_cli [of R sess share device C e C1] c by auto
    with open_pipe_returns [of C1 R table noauth] True c show ?thesis by (auto simp: connect_and_open_pipe_def)
  qed (use c in \<open>simp add: connect_and_open_pipe_def\<close>)
qed

text \<open>A key that cannot be opened leaves no handle open, a key that can leaves two.\<close>

lemma registry_openkey_handles:
  assumes "registry_openkey R name \<lparr>pol_hive = False, pol_key = False\<rparr> = Ok (st, ctx)"
  shows "pol_hive ctx = pol_key ctx"
proof (cases "reg_hive_key name")
  case (Ok hk)
  show ?thesis
  proof (cases hk)
    case (Some p)
    obtain hive keyname where p: "p = (hive, keyname)" by (cases p)
    obtain st1 e1 where h: "dcerpc_winreg_Connect R hive = (st1, e1)" by fastforce
    obtain st2 e2 where k: "open_subkey R (c_str keyname) = (st2, e2)" by fastforce
    from assms show ?thesis by (auto simp: registry_openkey_def Ok Some p h k Let_def split: if_splits)
  qed (use assms Ok in \<open>auto simp: registry_openkey_def\<close>)
qed (use assms in \<open>simp_all add: registry_openkey_def\<close>)

lemma registry_openkey_is_ok: "is_ok (reg_hive_key name) \<Longrightarrow> is_ok (registry_openkey R name ctx)"
  by (cases "reg_hive_key name") (auto simp: registry_openkey_def Let_def split: option.split prod.split)

lemma get_secdesc_returns:
  assumes "rcli C = Some cli"
  shows "\<exists>ret sd. get_secdesc R path C = Ok (ret, sd) \<and> (fst ret \<longleftrightarrow> sd \<noteq> None)"
  using assms by (auto simp: get_secdesc_def Let_def split: prod.split)

text \<open>The descriptor of an open connection is delivered, or an error without one.\<close>

lemma lsa_get_sd_returns:
  assumes "rcli C = Some cli" "sd_lib_ok (names_lib R)"
  shows "\<exists>ret x C'. lsa_get_sd R path et C = Ok ((ret, x), C') \<and> (fst ret \<longleftrightarrow> x \<noteq> None)"
proof -
  obtain ret sd where g: "get_secdesc R path C = Ok (ret, sd)" "fst ret \<longleftrightarrow> sd \<noteq> None" using get_secdesc_returns [OF assms(1)] by blast
  show ?thesis
  proof (cases sd)
    case (Some d)
    obtain r cli' where "get_sd_str (names_lib R) cli d et = Ok (r, cli')" using get_sd_str_returns [OF assms(2), of cli d et] by (auto simp: is_ok_iff)
    with g Some assms(1) show ?thesis by (simp add: lsa_get_sd_def with_descriptor_def)
  qed (use g in \<open>simp add: lsa_get_sd_def with_descriptor_def\<close>)
qed

end
