(* ===== verification/Permission_Actions.thy ===== *)
theory Permission_Actions
  imports Registry_Actions Rpc_Clients
begin

text \<open>
  The actions on top of the RPC clients: \<open>get_share_permissions\<close>, \<open>get_ntfs_file_permissions\<close> and
  \<open>get_ntfs_folder_permissions\<close> (\<open>lsa/actions\<close>), \<open>enumerate_shares\<close> (\<open>srvsvc/actions\<close>) and
  \<open>get_registry_permissions\<close> (\<open>registry/actions\<close>) under \<open>src/src/backend/services/samba_based/\<close>. What the
  library answers during one action is indexed by the counter \<open>drawn\<close> of the server.
\<close>

section \<open>Common steps\<close>

type_synonym rpc_env = "nat \<Rightarrow> rpc_lib"

definition next_client :: "server \<Rightarrow> server" where
  "next_client s = s\<lparr>drawn := drawn s + 1\<rparr>"

definition connect_refused :: "rpc_lib \<Rightarrow> 32 word \<Rightarrow> result_msg \<Rightarrow> server \<Rightarrow> act_result" where
  "connect_refused R e res s = asset_error e (werr_text R e) FAILED res s"

text \<open>The end of all the actions: the value found, or the status of the last call.\<close>

definition answer_or_error :: "rpc_lib \<Rightarrow> bool \<times> 32 word \<Rightarrow> json \<Rightarrow> result_msg \<Rightarrow> server \<Rightarrow> act_result" where
  "answer_or_error R ret v res s =
     (if fst ret then succeed_with v res s
      else asset_error (snd ret) (nt_errstr R (werror_to_ntstatus R (snd ret))) FAILED res s)"

definition descriptor_json :: "Security_Descriptor_str option \<Rightarrow> json" where
  "descriptor_json x = (case x of None \<Rightarrow> JNull | Some r \<Rightarrow> sd_to_json r)"

section \<open>Permissions of shares, files and folders\<close>

text \<open>Connecting to the share and asking for the descriptor of a path in it.\<close>

definition lsa_permissions ::
  "rpc_env \<Rightarrow> session \<Rightarrow> string \<Rightarrow> string \<Rightarrow> entity_type \<Rightarrow> result_msg \<Rightarrow> server \<Rightarrow> act_result" where
  "lsa_permissions E ss share path et res s0 =
     (let R = E (drawn s0); s = next_client s0; (r, c) = lsa_connect R ss share new_rpc_client
      in if \<not> fst r then connect_refused R (snd r) res s
         else bind_o (lsa_get_sd R path et c) (\<lambda>((ret, x), _). answer_or_error R ret (descriptor_json x) res s))"

definition get_share_permissions_act :: "rpc_env \<Rightarrow> session option \<Rightarrow> action_msg \<Rightarrow> result_msg \<Rightarrow> server \<Rightarrow> act_result" where
  "get_share_permissions_act E sess m res s =
     checked_session sess res s (\<lambda>ss.
       case m of
         Share_permissions_msg i share \<Rightarrow>
           if share = [] then fail_with SHARE_NAME_IS_MANDATORY res s else lsa_permissions E ss share [] SHARE res s
       | _ \<Rightarrow> fail_with INTERNAL_ERROR res s)"

definition split_share_path :: "string \<Rightarrow> string \<times> string" where
  "split_share_path full =
     (if CHR 0x5C \<in> set full then (takeWhile (\<lambda>c. c \<noteq> CHR 0x5C) full, tl (dropWhile (\<lambda>c. c \<noteq> CHR 0x5C) full)) else (full, []))"

definition ntfs_permissions ::
  "rpc_env \<Rightarrow> session \<Rightarrow> string \<Rightarrow> entity_type \<Rightarrow> result_msg \<Rightarrow> server \<Rightarrow> act_result" where
  "ntfs_permissions E ss full et res s =
     (if full = [] then fail_with PATH_IS_MANDATORY res s
      else let (share, path) = split_share_path full
        in if share = [] then fail_with SHARE_IS_MISSING_IN_KEY res s else lsa_permissions E ss share path et res s)"

definition get_ntfs_file_permissions_act ::
  "rpc_env \<Rightarrow> session option \<Rightarrow> action_msg \<Rightarrow> result_msg \<Rightarrow> server \<Rightarrow> act_result" where
  "get_ntfs_file_permissions_act E sess m res s =
     checked_session sess res s (\<lambda>ss.
       case m of Ntfs_file_permissions_msg i full \<Rightarrow> ntfs_permissions E ss full NTFS_FILE res s
       | _ \<Rightarrow> fail_with INTERNAL_ERROR res s)"

definition get_ntfs_folder_permissions_act ::
  "rpc_env \<Rightarrow> session option \<Rightarrow> action_msg \<Rightarrow> result_msg \<Rightarrow> server \<Rightarrow> act_result" where
  "get_ntfs_folder_permissions_act E sess m res s =
     checked_session sess res s (\<lambda>ss.
       case m of Ntfs_folder_permissions_msg i full \<Rightarrow> ntfs_permissions E ss full NTFS_DIR res s
       | _ \<Rightarrow> fail_with INTERNAL_ERROR res s)"

section \<open>Shares of a host\<close>

definition share_info_to_json :: "share_info \<Rightarrow> json" where
  "share_info_to_json si = JObj [(''Comment'', JStr (comment si)), (''Name'', JStr (share_name si)), (''Path'', JStr (share_path si))]"

definition enumerate_shares_act :: "rpc_env \<Rightarrow> session option \<Rightarrow> action_msg \<Rightarrow> result_msg \<Rightarrow> server \<Rightarrow> act_result" where
  "enumerate_shares_act E sess m res s0 =
     checked_session sess res s0 (\<lambda>ss.
       case m of
         Enumerate_shares_msg i \<Rightarrow>
           (let R = E (drawn s0); s = next_client s0
            in bind_o (srvsvc_connect R ss new_rpc_client) (\<lambda>(r, c).
               if \<not> fst r then connect_refused R (snd r) res s
               else bind_o (enumerate_all_shares R c) (\<lambda>(ret, xs).
                 answer_or_error R ret (JArr (map share_info_to_json xs)) res s)))
       | _ \<Rightarrow> fail_with INTERNAL_ERROR res s0)"

section \<open>Permissions of registry keys\<close>

text \<open>The static closure of \<open>get_sd\<close> is made when the call is reached, whatever its outcome.\<close>

definition get_registry_permissions_act ::
  "rpc_env \<Rightarrow> session option \<Rightarrow> action_msg \<Rightarrow> result_msg \<Rightarrow> server \<Rightarrow> act_result" where
  "get_registry_permissions_act E sess m res s0 =
     checked_session sess res s0 (\<lambda>ss.
       case m of
         Get_registry_permissions_msg i key \<Rightarrow>
           if key = [] then fail_with KEY_IS_MANDATORY res s0
           else (let R = E (drawn s0); s = next_client s0
             in bind_o (reg2_connect R ss new_registry_client2) (\<lambda>(r, c).
                if \<not> fst r then
                  asset_error (snd r) (werr_text R (snd r)) (if werr_pipe_busy = snd r then POSTPONED else FAILED) res s
                else bind_o (reg2_open_key R key c) (\<lambda>(opened, c1).
                  if \<not> fst opened then fail_with OPEN_KEY_FAILED res s
                  else bind_o (reg2_get_sd R (get_sd_called s) c1) (\<lambda>((ret, x), _).
                    answer_or_error R ret (descriptor_json x) res (s\<lparr>get_sd_called := True\<rparr>)))))
       | _ \<Rightarrow> fail_with INTERNAL_ERROR res s0)"

definition Get_Share_Permissions :: "rpc_env \<Rightarrow> action" where
  "Get_Share_Permissions E = \<lparr>act_name = ''get_share_permissions'', get_message = share_permissions_msg_as, act = get_share_permissions_act E\<rparr>"

definition Get_NTFS_File_Permissions :: "rpc_env \<Rightarrow> action" where
  "Get_NTFS_File_Permissions E =
     \<lparr>act_name = ''get_ntfs_file_permissions'', get_message = ntfs_file_permissions_msg_as, act = get_ntfs_file_permissions_act E\<rparr>"

definition Get_NTFS_Folder_Permissions :: "rpc_env \<Rightarrow> action" where
  "Get_NTFS_Folder_Permissions E =
     \<lparr>act_name = ''get_ntfs_folder_permissions'', get_message = ntfs_folder_permissions_msg_as, act = get_ntfs_folder_permissions_act E\<rparr>"

definition Enumerate_Shares :: "rpc_env \<Rightarrow> action" where
  "Enumerate_Shares E = \<lparr>act_name = ''enumerate_shares'', get_message = enumerate_shares_msg_as, act = enumerate_shares_act E\<rparr>"

definition Get_Registry_Permissions :: "rpc_env \<Rightarrow> action" where
  "Get_Registry_Permissions E =
     \<lparr>act_name = ''get_registry_permissions'', get_message = get_registry_permissions_msg_as, act = get_registry_permissions_act E\<rparr>"

section \<open>Lemmas\<close>

lemma split_share_path_eq:
  "split_share_path full = (share, path) \<Longrightarrow>
   CHR 0x5C \<notin> set share \<and> (full = share @ CHR 0x5C # path \<or> (full = share \<and> path = []))"
proof -
  assume a: "split_share_path full = (share, path)"
  have "full = takeWhile (\<lambda>c. c \<noteq> CHR 0x5C) full @ CHR 0x5C # tl (dropWhile (\<lambda>c. c \<noteq> CHR 0x5C) full)" if "CHR 0x5C \<in> set full"
    using takeWhile_dropWhile_id [of "\<lambda>c. c \<noteq> CHR 0x5C" full] that hd_dropWhile [of "\<lambda>c. c \<noteq> CHR 0x5C" full]
    by (cases "dropWhile (\<lambda>c. c \<noteq> CHR 0x5C) full") (auto simp: dropWhile_eq_Nil_conv)
  moreover have "CHR 0x5C \<notin> set (takeWhile (\<lambda>c. c \<noteq> CHR 0x5C) full)" by (auto dest: set_takeWhileD)
  ultimately show ?thesis using a by (auto simp: split_share_path_def split: if_splits)
qed

lemma split_share_path_join: "CHR 0x5C \<notin> set share \<Longrightarrow> split_share_path (share @ CHR 0x5C # path) = (share, path)"
  by (induction share) (auto simp: split_share_path_def split: if_splits)

lemma answers_or_error [simp]: "answers b res (answer_or_error R ret v res s)"
  by (simp add: answer_or_error_def)

lemma answers_refused [simp]: "answers b res (connect_refused R e res s)"
  by (simp add: connect_refused_def)

lemma lsa_permissions_answers:
  assumes "sd_lib_ok (names_lib (E (drawn s)))"
  shows "answers b res (lsa_permissions E ss share path et res s)"
proof -
  define R where "R = E (drawn s)"
  obtain ok e c where c: "lsa_connect R ss share new_rpc_client = ((ok, e), c)" by (metis surj_pair)
  show ?thesis
  proof (cases ok)
    case True
    then obtain cli where "rcli c = Some cli" using c rpc_connect_cli [of R ss share "''?????''" new_rpc_client e c] by (auto simp: lsa_connect_def)
    then obtain ret x c' where "lsa_get_sd R path et c = Ok ((ret, x), c')"
      using lsa_get_sd_returns [of c cli R path et] assms by (auto simp: R_def)
    with c True show ?thesis by (simp add: lsa_permissions_def R_def [symmetric] Let_def)
  qed (use c in \<open>simp add: lsa_permissions_def R_def [symmetric] Let_def\<close>)
qed

definition shares_named :: "rpc_lib \<Rightarrow> bool" where
  "shares_named R \<longleftrightarrow> (\<forall>(n, c, p) \<in> set (snd (snd (share_enum_all R))). n \<noteq> None \<and> c \<noteq> None \<and> p \<noteq> None)"

lemma share_infos_returns:
  "\<forall>(n, c, p) \<in> set xs. n \<noteq> None \<and> c \<noteq> None \<and> p \<noteq> None \<Longrightarrow>
   share_infos xs = Ok (map (\<lambda>(n, c, p). \<lparr>share_name = the n, comment = the c, share_path = the p\<rparr>) xs)"
  by (induction xs rule: share_infos.induct) auto

lemma enumerate_all_shares_returns: "shares_named R \<Longrightarrow> pipe_handle c \<noteq> None \<Longrightarrow> is_ok (enumerate_all_shares R c)"
  by (auto simp: enumerate_all_shares_def shares_named_def share_infos_returns is_ok_iff split: prod.splits option.splits)

lemma reg2_connect_returns:
  "\<exists>rv C'. reg2_connect R sess C = Ok (rv, C') \<and> ctx2 C' = ctx2 C
    \<and> (fst rv \<longrightarrow> pipe_handle (rpc2 C') = Some ''winreg'' \<and> (\<exists>cli. rcli (rpc2 C') = Some cli))"
  using connect_and_open_pipe_returns [of R sess "''IPC$''" "''IPC''" "''winreg''" False "rpc2 C"]
  by (auto simp: reg2_connect_def)

lemma reg2_open_key_returns:
  assumes "pipe_handle (rpc2 C) \<noteq> None" "is_ok (reg_hive_key k)"
  shows "\<exists>rv C'. reg2_open_key R k C = Ok (rv, C') \<and> rpc2 C' = rpc2 C"
  using registry_openkey_is_ok [OF assms(2), of R "ctx2 C"] assms(1) by (auto simp: reg2_open_key_def is_ok_iff)

lemma reg2_get_sd_returns:
  assumes "pipe_handle (rpc2 C) \<noteq> None" "rcli (rpc2 C) = Some cli" "sd_lib_ok (names_lib R)"
  shows "\<exists>ret x C'. reg2_get_sd R False C = Ok ((ret, x), C') \<and> ctx2 C' = \<lparr>pol_hive = False, pol_key = False\<rparr>"
proof -
  obtain sd st where p: "pull_descriptor R = (st, sd)" by fastforce
  obtain r cli' where "get_sd_str (names_lib R) cli sd REGISTRY = Ok (r, cli')"
    using get_sd_str_returns [OF assms(3), of cli sd REGISTRY] by (auto simp: is_ok_iff)
  with p assms(1,2) show ?thesis by (auto simp: reg2_get_sd_def Let_def split: prod.split)
qed

text \<open>Every later call of \<open>get_sd\<close> ends in dead variables.\<close>

lemma reg2_get_sd_again:
  assumes "sd_lib_ok (names_lib R)"
  shows "reg2_get_sd R True C = UB"
proof (cases "pipe_handle (rpc2 C)"; cases "rcli (rpc2 C)")
  fix t cli assume c: "pipe_handle (rpc2 C) = Some t" "rcli (rpc2 C) = Some cli"
  obtain sd st where p: "pull_descriptor R = (st, sd)" by fastforce
  obtain r cli' where "get_sd_str (names_lib R) cli sd REGISTRY = Ok (r, cli')"
    using get_sd_str_returns [OF assms, of cli sd REGISTRY] by (auto simp: is_ok_iff)
  with p c show ?thesis by (auto simp: reg2_get_sd_def Let_def split: prod.split)
qed (simp_all add: reg2_get_sd_def)

lemma hive_key_ok: "key = [] \<or> \<not> set key \<subseteq> {CHR 0x5C} \<Longrightarrow> is_ok (reg_hive_key key)"
  by (auto simp: reg_hive_key_eq components_Nil [symmetric] split: list.split)

definition permission_actions :: "rpc_env \<Rightarrow> action list" where
  "permission_actions E = [Get_Share_Permissions E, Get_NTFS_File_Permissions E, Get_NTFS_Folder_Permissions E,
     Enumerate_Shares E, Get_Registry_Permissions E]"

lemmas permission_action_defs = permission_actions_def Get_Share_Permissions_def Get_NTFS_File_Permissions_def
  Get_NTFS_Folder_Permissions_def Enumerate_Shares_def Get_Registry_Permissions_def

lemma ntfs_permissions_answers: "sd_lib_ok (names_lib (E (drawn s))) \<Longrightarrow> answers b res (ntfs_permissions E ss full et res s)"
  by (simp add: ntfs_permissions_def lsa_permissions_answers split: prod.split)

lemma registry_permissions_answer:
  assumes "msg_key (Get_registry_permissions_msg i key) = [] \<or> \<not> set (msg_key (Get_registry_permissions_msg i key)) \<subseteq> {CHR 0x5C}"
    and "sd_lib_ok (names_lib (E (drawn s)))" and "\<not> is_nil ss" and "\<not> get_sd_called s"
  shows "answers (\<exists>c. reg2_connect (E (drawn s)) ss new_registry_client2 = Ok ((False, werr_pipe_busy), c)) res
    (get_registry_permissions_act E (Some ss) (Get_registry_permissions_msg i key) res s)"
proof -
  define R where "R = E (drawn s)"
  obtain rv c where c: "reg2_connect R ss new_registry_client2 = Ok (rv, c)"
      "fst rv \<longrightarrow> pipe_handle (rpc2 c) = Some ''winreg'' \<and> (\<exists>cli. rcli (rpc2 c) = Some cli)"
    using reg2_connect_returns [of R ss new_registry_client2] by blast
  show ?thesis
  proof (cases "fst rv")
    case True
    then obtain opened c1 where o: "reg2_open_key R key c = Ok (opened, c1)" "rpc2 c1 = rpc2 c"
      using reg2_open_key_returns [of c key R] c(2) hive_key_ok [of key] assms(1) by auto
    obtain ret x c2 where "reg2_get_sd R False c1 = Ok ((ret, x), c2)"
      using reg2_get_sd_returns [of c1 _ R] c(2) True o(2) assms(2) by (auto simp: R_def)
    with c(1) o(1) True assms(3,4) show ?thesis
      by (simp add: get_registry_permissions_act_def checked_session_def R_def [symmetric] Let_def next_client_def)
  next
    case False
    with c(1) assms(3) show ?thesis
      by (cases rv) (auto simp: get_registry_permissions_act_def checked_session_def R_def [symmetric] Let_def)
  qed
qed

lemma permission_action_answers:
  assumes "a \<in> set (permission_actions E)" "sd_lib_ok (names_lib (E (drawn s)))" "shares_named (E (drawn s))"
    and "\<not> get_sd_called s" "msg_key m = [] \<or> \<not> set (msg_key m) \<subseteq> {CHR 0x5C}"
  shows "answers (\<exists>ss c. sess = Some ss \<and> reg2_connect (E (drawn s)) ss new_registry_client2 = Ok ((False, werr_pipe_busy), c)) res
    (act a sess m res s)"
proof -
  from assms(1) consider "act a = get_share_permissions_act E" | "act a = get_ntfs_file_permissions_act E"
    | "act a = get_ntfs_folder_permissions_act E" | "act a = enumerate_shares_act E" | "act a = get_registry_permissions_act E"
    by (auto simp: permission_action_defs)
  then show ?thesis
  proof cases
    case 1
    with assms(2) show ?thesis
      by (cases m) (auto simp: get_share_permissions_act_def lsa_permissions_answers intro!: answers_session)
  next
    case 2
    with assms(2) show ?thesis
      by (cases m) (auto simp: get_ntfs_file_permissions_act_def ntfs_permissions_answers intro!: answers_session)
  next
    case 3
    with assms(2) show ?thesis
      by (cases m) (auto simp: get_ntfs_folder_permissions_act_def ntfs_permissions_answers intro!: answers_session)
  next
    case 4
    have "answers b res (bind_o (srvsvc_connect (E (drawn s)) ss new_rpc_client) (\<lambda>(r, c).
        if \<not> fst r then connect_refused (E (drawn s)) (snd r) res s'
        else bind_o (enumerate_all_shares (E (drawn s)) c) (\<lambda>(ret, xs).
          answer_or_error (E (drawn s)) ret (JArr (map share_info_to_json xs)) res s')))" for b ss s'
      using connect_and_open_pipe_returns [of "E (drawn s)" ss "''IPC$''" "''IPC''" "''srvsvc''" True new_rpc_client]
      by (auto simp: srvsvc_connect_def intro!: answers_bind enumerate_all_shares_returns [OF assms(3)])
    with 4 show ?thesis by (cases m) (auto simp: enumerate_shares_act_def Let_def intro!: answers_session)
  next
    case 5
    show ?thesis
    proof (cases "\<exists>i key. m = Get_registry_permissions_msg i key")
      case True
      then obtain i key where m: "m = Get_registry_permissions_msg i key" by blast
      show ?thesis
      proof (cases "\<exists>ss. sess = Some ss \<and> \<not> is_nil ss")
        case True
        then obtain ss where "sess = Some ss" "\<not> is_nil ss" by blast
        with registry_permissions_answer [of i key E s ss res] assms(2,4,5) 5 m show ?thesis by simp
      next
        case False
        with 5 show ?thesis by (auto simp: get_registry_permissions_act_def checked_session_def split: option.split)
      qed
    next
      case False
      with 5 show ?thesis by (cases m) (auto simp: get_registry_permissions_act_def intro!: answers_session)
    qed
  qed
qed

section \<open>Properties\<close>


text \<open>
  The permissions of a registry key can be asked for only once per process: when a host, its
  registry and the key can be reached at the first and at a later request, the first is answered
  with the descriptor and the later one, whatever happens in between as long as the process is the
  same, uses variables that no longer exist.
\<close>

theorem registry_permissions_only_once:
  assumes "\<not> is_nil ss" and "key \<noteq> []" and "\<And>n. sd_lib_ok (names_lib (E n))"
    and "\<And>n. \<exists>c c1. reg2_connect (E n) ss new_registry_client2 = Ok ((True, 0), c) \<and> reg2_open_key (E n) key c = Ok ((True, 0), c1)"
    and "\<not> get_sd_called s"
  shows "\<exists>st res' s'. get_registry_permissions_act E (Some ss) (Get_registry_permissions_msg i key) res s = Ok (st, res', s') \<and> get_sd_called s'
    \<and> (\<forall>s''. get_sd_called s'' \<longrightarrow> get_registry_permissions_act E (Some ss) (Get_registry_permissions_msg j key) res2 s'' = UB)"
proof -
  have reached: "\<exists>c1. get_registry_permissions_act E (Some ss) (Get_registry_permissions_msg l key) r t =
      bind_o (reg2_get_sd (E (drawn t)) (get_sd_called t) c1) (\<lambda>((ret, x), _).
        answer_or_error (E (drawn t)) ret (descriptor_json x) r ((next_client t)\<lparr>get_sd_called := True\<rparr>))
      \<and> (\<exists>ret x c2. reg2_get_sd (E (drawn t)) False c1 = Ok ((ret, x), c2))" for l r t
  proof -
    obtain c c1 where c: "reg2_connect (E (drawn t)) ss new_registry_client2 = Ok ((True, 0), c)"
        "reg2_open_key (E (drawn t)) key c = Ok ((True, 0), c1)" using assms(4) by blast
    have "pipe_handle (rpc2 c) \<noteq> None \<and> (\<exists>cli. rcli (rpc2 c) = Some cli)"
      using reg2_connect_returns [of "E (drawn t)" ss new_registry_client2] c(1) by auto
    moreover have "rpc2 c1 = rpc2 c" using c(2) by (auto simp: reg2_open_key_def bind_o_Ok_iff split: if_splits)
    ultimately have "\<exists>ret x c2. reg2_get_sd (E (drawn t)) False c1 = Ok ((ret, x), c2)"
      using reg2_get_sd_returns [of c1 _ "E (drawn t)"] assms(3) by fastforce
    with c assms(1,2) show ?thesis
      by (auto simp: get_registry_permissions_act_def checked_session_def Let_def next_client_def)
  qed
  from reached [of i res s] assms(5) obtain ret x where
    "get_registry_permissions_act E (Some ss) (Get_registry_permissions_msg i key) res s =
      answer_or_error (E (drawn s)) ret (descriptor_json x) res ((next_client s)\<lparr>get_sd_called := True\<rparr>)" by auto
  then have "\<exists>st res' s'. get_registry_permissions_act E (Some ss) (Get_registry_permissions_msg i key) res s = Ok (st, res', s') \<and> get_sd_called s'"
    by (auto simp: answer_or_error_def resp_simps)
  moreover have "get_registry_permissions_act E (Some ss) (Get_registry_permissions_msg j key) res2 s'' = UB" if "get_sd_called s''" for s''
    using reached [of j res2 s''] that reg2_get_sd_again [OF assms(3)] by auto
  ultimately show ?thesis by blast
qed


text \<open>A library for examples, in which everything is found.\<close>

definition sample_rpc :: rpc_lib where
  "sample_rpc = \<lparr>parse_binding = (\<lambda>_. 0), set_transport = (\<lambda>_. 0), binding_host = (\<lambda>b. b),
     full_connection = (\<lambda>_ _ _ _. (0, 5)), pipe_noauth = (\<lambda>_. 0), pipe_with_creds = (\<lambda>_ _. 0),
     ntstatus_to_werror = (\<lambda>x. x), werror_to_ntstatus = (\<lambda>x. x), werr_text = (\<lambda>_. ''error''), nt_errstr = (\<lambda>_. ''error''),
     cli_ntcreate = (\<lambda>_. 0), query_descriptor = (\<lambda>_. (0, sample_sd)),
     share_enum_all = (0, 0, [(Some ''C$'', Some ''disk'', Some ''C:'')]), open_hive = (\<lambda>_. (0, 0)), open_subkey = (\<lambda>_. (0, 0)),
     key_data_allocated = True, get_key_security = (0, 0), pull_descriptor = (0, sample_sd), names_lib = sample_sd_lib\<rparr>"

lemma sample_rpc_ok: "sd_lib_ok (names_lib sample_rpc)" "shares_named sample_rpc" "rpc_lib_ok sample_rpc"
  by (simp_all add: sample_rpc_def sd_lib_ok_def sample_sd_lib_def shares_named_def rpc_lib_ok_def)


theorem registry_permissions_only_once_witness:
  "\<exists>st res' s'. get_registry_permissions_act (\<lambda>_. sample_rpc) (Some sample_session)
       (Get_registry_permissions_msg ''7'' (''HKLM'' @ [CHR 0x5C] @ ''S'')) result_msg_default sample_reg_server = Ok (st, res', s')
    \<and> get_registry_permissions_act (\<lambda>_. sample_rpc) (Some sample_session)
       (Get_registry_permissions_msg ''8'' (''HKLM'' @ [CHR 0x5C] @ ''S'')) result_msg_default s' = UB"
proof -
  have k: "reg_hive_key (''HKLM'' @ [CHR 0x5C] @ ''S'') = Ok (Some (HKEY_LOCAL_MACHINE, ''S''))" by code_simp
  have "\<exists>c c1. reg2_connect sample_rpc sample_session new_registry_client2 = Ok ((True, 0), c)
      \<and> reg2_open_key sample_rpc (''HKLM'' @ [CHR 0x5C] @ ''S'') c = Ok ((True, 0), c1)"
    by (simp add: reg2_connect_def connect_and_open_pipe_def rpc_connect_def open_pipe_def sample_rpc_def reg2_open_key_def
        registry_openkey_def k [simplified] dcerpc_winreg_Connect_def new_registry_client2_def new_rpc_client_def Let_def)
  moreover have "\<not> is_nil sample_session" "\<not> get_sd_called sample_reg_server" by (simp_all add: sample_reg(3) sample_reg_server_def)
  ultimately obtain st res' s' where "get_registry_permissions_act (\<lambda>_. sample_rpc) (Some sample_session)
       (Get_registry_permissions_msg ''7'' (''HKLM'' @ [CHR 0x5C] @ ''S'')) result_msg_default sample_reg_server = Ok (st, res', s')"
     "get_sd_called s'" "\<forall>s''. get_sd_called s'' \<longrightarrow> get_registry_permissions_act (\<lambda>_. sample_rpc) (Some sample_session)
       (Get_registry_permissions_msg ''8'' (''HKLM'' @ [CHR 0x5C] @ ''S'')) result_msg_default s'' = UB"
    using registry_permissions_only_once [of sample_session "''HKLM'' @ [CHR 0x5C] @ ''S''" "\<lambda>_. sample_rpc" sample_reg_server "''7''"
        result_msg_default "''8''" result_msg_default] sample_rpc_ok(1) by auto
  then show ?thesis by blast
qed


end
