(* ===== verification/Logger_Configuration.thy ===== *)
theory Logger_Configuration
  imports Cdcm_Prelude "HOL-Library.Word"
begin

text \<open>
  \<open>src/src/common/Logger/conf/LoggerConfiguration.cpp\<close> and \<open>.h\<close>: the configuration of the logger, read
  from an XML file. The property tree of Boost is a parameter: the text at a path, the children of
  a path, and how texts are converted to numbers.
\<close>

section \<open>Levels, sources and sinks (Logger.h)\<close>

datatype severity_levels = debug1 | debug2 | info | warning | error

fun severity_value :: "severity_levels \<Rightarrow> 64 word" where
  "severity_value debug1 = 1" | "severity_value debug2 = 2" | "severity_value info = 4"
| "severity_value warning = 8" | "severity_value error = 16"

text \<open>Levels are compared by their values, as the enumerators of the source are.\<close>

lemma severity_value_inj: "severity_value a = severity_value b \<longleftrightarrow> a = b"
  by (cases a; cases b) simp_all

instantiation severity_levels :: linorder
begin

definition less_eq_severity_levels :: "severity_levels \<Rightarrow> severity_levels \<Rightarrow> bool" where
  "less_eq_severity_levels a b \<longleftrightarrow> severity_value a \<le> severity_value b"

definition less_severity_levels :: "severity_levels \<Rightarrow> severity_levels \<Rightarrow> bool" where
  "less_severity_levels a b \<longleftrightarrow> severity_value a < severity_value b"

instance
  by standard (auto simp: less_eq_severity_levels_def less_severity_levels_def less_le severity_value_inj)

end

fun severity_name :: "severity_levels \<Rightarrow> string" where
  "severity_name debug1 = ''debug1''" | "severity_name debug2 = ''debug2''" | "severity_name info = ''info''"
| "severity_name warning = ''warning''" | "severity_name error = ''error''"

datatype log_source = Source_Broker | Source_Worker | Source_Supervisor | Source_Tester

fun source_value :: "log_source \<Rightarrow> nat" where
  "source_value Source_Broker = 1" | "source_value Source_Worker = 2" | "source_value Source_Supervisor = 4" | "source_value Source_Tester = 8"

fun source_name :: "log_source \<Rightarrow> string" where
  "source_name Source_Broker = ''broker''" | "source_name Source_Worker = ''worker''"
| "source_name Source_Supervisor = ''supervisor''" | "source_name Source_Tester = ''tester''"

definition all_severity_levels :: "64 word" where "all_severity_levels = 31"
definition sink_file :: "64 word" where "sink_file = 1"
definition sink_event_log :: "64 word" where "sink_event_log = 2"

section \<open>The configuration\<close>

record module_conf =
  mod_name :: string
  mod_id :: "64 word"
  mod_severity :: "64 word"
  mod_enable :: bool

record sink_conf =
  snk_path :: string
  snk_name :: string
  snk_enable :: bool
  snk_id :: "64 word"
  snk_filter :: "64 word"
  max_files :: "64 word"
  min_free_space :: "64 word"
  rotation_size :: "64 word"

record logger_configuration =
  version_ :: int
  project_name :: string
  default_level :: "64 word"
  sinks_conf :: "sink_conf list"
  modules_conf :: "module_conf list"

definition logger_configuration_default :: logger_configuration where
  "logger_configuration_default = \<lparr>version_ = 0, project_name = [], default_level = 0, sinks_conf = [], modules_conf = []\<rparr>"

record 't xml_lib =
  read_xml :: "string \<Rightarrow> 't option"
  pt_text :: "'t \<Rightarrow> string \<Rightarrow> string option"
  pt_children :: "'t \<Rightarrow> string \<Rightarrow> (string \<times> 't) list option"
  text_int :: "string \<Rightarrow> int option"
  text_ulong :: "string \<Rightarrow> 64 word option"
  text_bool :: "string \<Rightarrow> bool option"

text \<open>\<open>get\<close> with a default never fails; without one it throws when there is no text or it does not convert.\<close>

definition get_or :: "'t xml_lib \<Rightarrow> (string \<Rightarrow> 'a option) \<Rightarrow> 't \<Rightarrow> string \<Rightarrow> 'a \<Rightarrow> 'a" where
  "get_or X conv t p d = (case pt_text X t p of None \<Rightarrow> d | Some s \<Rightarrow> (case conv s of None \<Rightarrow> d | Some v \<Rightarrow> v))"

definition get_must :: "'t xml_lib \<Rightarrow> (string \<Rightarrow> 'a option) \<Rightarrow> 't \<Rightarrow> string \<Rightarrow> 'a outcome" where
  "get_must X conv t p = (case pt_text X t p of None \<Rightarrow> Throw | Some s \<Rightarrow> (case conv s of None \<Rightarrow> Throw | Some v \<Rightarrow> Ok v))"

definition get_child :: "'t xml_lib \<Rightarrow> 't \<Rightarrow> string \<Rightarrow> (string \<times> 't) list outcome" where
  "get_child X t p = (case pt_children X t p of None \<Rightarrow> Throw | Some cs \<Rightarrow> Ok cs)"

text \<open>The order of \<open>ci_less\<close>, and a map that uses it.\<close>

definition tolower_byte :: "char \<Rightarrow> nat" where
  "tolower_byte c = (let n = of_char c in if 65 \<le> n \<and> n \<le> 90 then n + 32 else n)"

fun ci_less :: "string \<Rightarrow> string \<Rightarrow> bool" where
  "ci_less _ [] = False"
| "ci_less [] (_ # _) = True"
| "ci_less (a # s) (b # t) =
     (if tolower_byte a < tolower_byte b then True else if tolower_byte b < tolower_byte a then False else ci_less s t)"

definition ci_at :: "(string \<times> 'v) list \<Rightarrow> string \<Rightarrow> 'v option" where
  "ci_at m k = map_option snd (find (\<lambda>(k', v). \<not> ci_less k k' \<and> \<not> ci_less k' k) m)"

definition severity_levels_to_string :: "(string \<times> severity_levels) list" where
  "severity_levels_to_string =
     [(''debug1'', debug1), (''debug2'', debug2), (''info'', info), (''warn'', warning), (''error'', error)]"

definition read_module :: "'t xml_lib \<Rightarrow> 64 word \<Rightarrow> 't \<Rightarrow> module_conf" where
  "read_module X default_v v =
     \<lparr>mod_name = get_or X Some v ''<xmlattr>.name'' ''None'', mod_id = word_of_int (get_or X (text_int X) v ''<xmlattr>.id'' 0),
      mod_severity = get_or X (text_ulong X) v ''<xmlattr>.level'' default_v,
      mod_enable = get_or X (text_bool X) v ''<xmlattr>.enable'' False\<rparr>"

definition read_sink :: "'t xml_lib \<Rightarrow> 't \<Rightarrow> sink_conf outcome" where
  "read_sink X v =
     bind_o (get_must X Some v ''path'') (\<lambda>path.
     bind_o (get_must X Some v ''name'') (\<lambda>name.
     bind_o (get_must X (text_ulong X) v ''id'') (\<lambda>id_v.
     bind_o (get_must X (text_ulong X) v ''max_files'') (\<lambda>files_v.
     bind_o (get_must X (text_ulong X) v ''min_free_space'') (\<lambda>space_v.
     bind_o (get_must X (text_ulong X) v ''rotation_size'') (\<lambda>rot.
     bind_o (get_must X Some v ''filter'') (\<lambda>flt.
       Ok \<lparr>snk_path = path, snk_name = name, snk_enable = get_or X (text_bool X) v ''enable'' True, snk_id = id_v,
           snk_filter = severity_value (case ci_at severity_levels_to_string flt of None \<Rightarrow> info | Some l \<Rightarrow> l),
           max_files = files_v, min_free_space = space_v, rotation_size = rot\<rparr>)))))))"

fun read_sinks :: "'t xml_lib \<Rightarrow> (string \<times> 't) list \<Rightarrow> sink_conf list outcome" where
  "read_sinks X [] = Ok []"
| "read_sinks X ((n, v) # vs) =
     (if n = ''sink'' then bind_o (read_sink X v) (\<lambda>s. bind_o (read_sinks X vs) (\<lambda>ss. Ok (s # ss))) else read_sinks X vs)"

text \<open>
  Loading. Another version than 1 is reported by the result only, and leaves the rest of the
  configuration as it was. Modules and sinks are appended.
\<close>

definition load_conf :: "'t xml_lib \<Rightarrow> string \<Rightarrow> logger_configuration \<Rightarrow> (bool \<times> logger_configuration) outcome" where
  "load_conf X file_name C =
     (case read_xml X file_name of
        None \<Rightarrow> Throw
      | Some pt \<Rightarrow>
          (let ver = get_or X (text_int X) pt ''Logger.version'' 1; C1 = C\<lparr>version_ := ver\<rparr>
           in if ver \<noteq> 1 then Ok (False, C1)
              else let lvl = word_of_int (get_or X (text_int X) pt ''Logger.Project.level'' 1);
                       C2 = C1\<lparr>project_name := get_or X Some pt ''Logger.Project.name'' ''No Project Name'', default_level := lvl\<rparr>
                in bind_o (get_child X pt ''Logger.Project.modules'') (\<lambda>ms.
                   bind_o (get_child X pt ''Logger.Project.supported_sinks'') (\<lambda>vs.
                   bind_o (read_sinks X vs) (\<lambda>ss.
                     Ok (True, C2\<lparr>modules_conf := modules_conf C2 @ map (read_module X lvl \<circ> snd) (filter (\<lambda>(n, v). n = ''module'') ms),
                                  sinks_conf := sinks_conf C2 @ ss\<rparr>))))))"

section \<open>Lemmas\<close>

text \<open>Keys are equal for \<open>ci_less\<close> when their small letters are.\<close>

lemma ci_less_equiv: "\<not> ci_less s t \<and> \<not> ci_less t s \<longleftrightarrow> map tolower_byte s = map tolower_byte t"
proof (induction s t rule: ci_less.induct)
  case (1 s) then show ?case by (cases s) auto
next
  case (2 b t) then show ?case by simp
next
  case (3 a s b t) then show ?case by auto
qed

lemma ci_at_eq: "ci_at m k = map_option snd (find (\<lambda>(k', v). map tolower_byte k = map tolower_byte k') m)"
  by (simp add: ci_at_def ci_less_equiv)

lemma read_sinks_filters: "read_sinks X vs = Ok ss \<Longrightarrow> s \<in> set ss \<Longrightarrow> \<exists>l. snk_filter s = severity_value l"
proof (induction vs arbitrary: ss)
  case (Cons v vs)
  obtain n t where v: "v = (n, t)" by (cases v)
  show ?case
  proof (cases "n = ''sink''")
    case True
    then obtain s0 ss0 where r: "read_sink X t = Ok s0" "read_sinks X vs = Ok ss0" "ss = s0 # ss0"
      using Cons.prems(1) v by (auto simp: bind_o_Ok_iff)
    moreover have "\<exists>l. snk_filter s0 = severity_value l" using r(1) by (auto simp: read_sink_def bind_o_Ok_iff)
    ultimately show ?thesis using Cons.IH Cons.prems(2) by auto
  qed (use Cons v in simp)
qed simp

text \<open>So the filter of a sink that was read is a level, and a level reaches the sink if it is not below it.\<close>

lemma sink_filter_level:
  assumes "read_sinks X vs = Ok ss" and "s \<in> set ss"
  shows "\<exists>l. snk_filter s = severity_value l \<and> (\<forall>m. severity_value m \<ge> snk_filter s \<longleftrightarrow> l \<le> m)"
  using read_sinks_filters [OF assms] by (auto simp: less_eq_severity_levels_def)

end
