(* ===== verification/Logger.thy ===== *)
theory Logger
  imports Logger_Configuration "HOL-Library.Sublist"
begin

text \<open>
  \<open>src/src/common/Logger/Logger.cpp\<close>: initialisation of the logger, the filters a message passes and
  the removal of passwords. Boost.Log is a parameter only in so far as it hands a record to every
  sink whose filter it passes; the time stamp it puts in front is not modelled.
\<close>

unbundle bit_operations_syntax

section \<open>State\<close>

record file_sink =
  fs_name :: string
  fs_filter :: "64 word"
  fs_rotation :: "64 word"
  fs_max_size :: "64 word"
  fs_max_files :: "64 word"

text \<open>
  The logger and what it wrote: the records with the level they were given. \<open>source_level\<close> has one
  place for every number up to that of the last source.
\<close>

record logger =
  supported_sources :: "64 word"
  supported_default_severity :: "64 word"
  source_level :: "64 word list"
  file_sinks :: "file_sink list"
  initialiezed :: bool
  records :: "(severity_levels \<times> string) list"

definition number_of_levels :: nat where "number_of_levels = 9"

definition new_logger :: "64 word list \<Rightarrow> logger" where
  "new_logger garbage = \<lparr>supported_sources = 0, supported_default_severity = 0, source_level = garbage, file_sinks = [],
     initialiezed = False, records = []\<rparr>"

definition boost_log_sev :: "severity_levels \<Rightarrow> string \<Rightarrow> logger \<Rightarrow> logger" where
  "boost_log_sev l t G = G\<lparr>records := records G @ [(l, t)]\<rparr>"

text \<open>What a sink writes of the records.\<close>

definition written_by :: "file_sink \<Rightarrow> logger \<Rightarrow> string list" where
  "written_by k G = map snd (filter (\<lambda>(l, t). severity_value l \<ge> fs_filter k) (records G))"

text \<open>The source of the process; its number is turned into text once per thread and then kept.\<close>

record logger_source =
  src :: log_source
  source_id :: "64 word"
  str_id :: "string option"

definition set_source :: "log_source \<Rightarrow> 64 word \<Rightarrow> logger_source \<Rightarrow> logger_source" where
  "set_source s i S = (if s = Source_Worker then S\<lparr>src := s, source_id := i\<rparr> else S\<lparr>src := s\<rparr>)"

definition get_source_id :: "logger_source \<Rightarrow> string \<times> logger_source" where
  "get_source_id S =
     (case str_id S of
        Some t \<Rightarrow> (t, S)
      | None \<Rightarrow> (let t = (if source_id S = 0 then [] else to_string_nat (unat (source_id S))) in (t, S\<lparr>str_id := Some t\<rparr>)))"

section \<open>Initialisation\<close>

definition MB :: "64 word" where "MB = 1024 * 1024"

definition add_file_sink :: "sink_conf \<Rightarrow> logger_source \<Rightarrow> logger \<Rightarrow> logger \<times> logger_source" where
  "add_file_sink s S G =
     (let (i, S') = get_source_id S
      in (G\<lparr>file_sinks := file_sinks G @ [\<lparr>fs_name = snk_path s @ ''/'' @ snk_name s @ source_name (src S) @ i @ ''.log.%N'',
            fs_filter = snk_filter s, fs_rotation = rotation_size s * MB, fs_max_size = rotation_size s * max_files s * MB,
            fs_max_files = max_files s\<rparr>]\<rparr>, S'))"

fun register_sinks :: "sink_conf list \<Rightarrow> logger_source \<Rightarrow> logger \<Rightarrow> bool \<times> logger \<times> logger_source" where
  "register_sinks [] S G = (True, G, S)"
| "register_sinks (v # vs) S G =
     (if \<not> snk_enable v then register_sinks vs S G
      else if snk_id v = sink_file then (let (G', S') = add_file_sink v S G in register_sinks vs S' G')
      else if snk_id v = sink_event_log then register_sinks vs S G
      else (False, G, S))"

text \<open>The number of a module is the place of its level, without a check.\<close>

fun register_modules :: "module_conf list \<Rightarrow> logger \<Rightarrow> logger outcome" where
  "register_modules [] G = Ok G"
| "register_modules (v # vs) G =
     (if \<not> mod_enable v then register_modules vs G
      else if unat (mod_id v) \<ge> length (source_level G) then UB
      else register_modules vs (G\<lparr>supported_sources := supported_sources G OR mod_id v,
             source_level := (source_level G)[unat (mod_id v) := mod_severity v]\<rparr>))"

definition banner :: "string list" where
  "banner = [replicate 85 (CHR ''=''), replicate 36 (CHR '' '') @ ''Log started '', replicate 85 (CHR ''='')]"

definition internal_init ::
  "'t xml_lib \<Rightarrow> string \<Rightarrow> logger_source \<Rightarrow> logger \<Rightarrow> (bool \<times> logger \<times> logger_source) outcome" where
  "internal_init X conf_path S G =
     bind_o (load_conf X (conf_path @ ''/Logger/module.xml'') logger_configuration_default) (\<lambda>(_, conf).
       if default_level conf > all_severity_levels then Ok (False, G, S)
       else let G1 = G\<lparr>supported_default_severity := default_level conf, source_level := replicate number_of_levels 0,
                       supported_sources := 0\<rparr>
         in bind_o (register_modules (modules_conf conf) G1) (\<lambda>G2.
            let (ok, G3, S3) = register_sinks (sinks_conf conf) S G2
            in if \<not> ok then Ok (False, G3, S3)
               else Ok (True, foldl (\<lambda>H t. boost_log_sev error t H) G3 banner, S3)))"

definition logger_init ::
  "'t xml_lib \<Rightarrow> string \<Rightarrow> logger_source \<Rightarrow> logger \<Rightarrow> (bool \<times> logger \<times> logger_source) outcome" where
  "logger_init X conf_path S G =
     (if initialiezed G then Ok (True, G, S)
      else bind_o (internal_init X conf_path S G) (\<lambda>(ok, G', S'). Ok (ok, G'\<lparr>initialiezed := ok\<rparr>, S')))"

definition Initialize :: "'t xml_lib \<Rightarrow> string \<Rightarrow> logger_source \<Rightarrow> 64 word list \<Rightarrow> (bool \<times> logger \<times> logger_source) outcome" where
  "Initialize X root_conf S garbage = logger_init X root_conf S (new_logger garbage)"

section \<open>Removing passwords\<close>

text \<open>
  The regular expression at one place of the message: the key, white space, a colon, white space
  and a string up to the next quotation mark on the same line. What is behind it is returned.
\<close>

definition password_key :: string where
  "password_key = [CHR 0x22] @ ''password'' @ [CHR 0x22]"

definition match_password :: "string \<Rightarrow> string option" where
  "match_password s =
     (if take (length password_key) s \<noteq> password_key then None
      else case dropWhile isspace (drop (length password_key) s) of
          CHR '':'' # r \<Rightarrow>
            (case dropWhile isspace r of
               CHR 0x22 # v \<Rightarrow>
                 (let value = takeWhile (\<lambda>c. c \<noteq> CHR 0x22) v
                  in if length value < length v \<and> CHR 0x0A \<notin> set value \<and> CHR 0x0D \<notin> set value
                     then Some (drop (length value + 1) v) else None)
             | _ \<Rightarrow> None)
        | _ \<Rightarrow> None)"

definition replacement :: string where
  "replacement = password_key @ '':'' @ [CHR 0x22, CHR 0x22]"

lemma match_password_shorter:
  assumes "match_password s = Some r"
  shows "length r + length replacement \<le> length s"
proof -
  define k where "k = drop (length password_key) s"
  have p: "take (length password_key) s = password_key" using assms by (auto simp: match_password_def split: if_splits)
  then have s: "length s = length password_key + length k" by (metis append_take_drop_id k_def length_append)
  obtain r1 where r1: "dropWhile isspace k = CHR '':'' # r1"
    using assms p by (auto simp: match_password_def k_def [symmetric] split: list.splits char.splits if_splits bool.splits)
  obtain v where v: "dropWhile isspace r1 = CHR 0x22 # v"
    using assms p r1 by (auto simp: match_password_def k_def [symmetric] split: list.splits char.splits if_splits bool.splits)
  have "r = drop (length (takeWhile (\<lambda>c. c \<noteq> CHR 0x22) v) + 1) v" "length (takeWhile (\<lambda>c. c \<noteq> CHR 0x22) v) < length v"
    using assms p by (auto simp: match_password_def k_def [symmetric] r1 v Let_def split: if_splits)
  moreover have "length r1 + 1 \<le> length k" using length_dropWhile_le [of isspace k] by (simp add: r1)
  moreover have "length v + 1 \<le> length r1" using length_dropWhile_le [of isspace r1] by (simp add: v)
  ultimately show ?thesis using s by (simp add: replacement_def)
qed

text \<open>\<open>regex_replace\<close>: from left to right, without looking again at what was replaced.\<close>

function redact :: "string \<Rightarrow> string" where
  "redact s =
     (case match_password s of
        Some r \<Rightarrow> replacement @ redact r
      | None \<Rightarrow> (case s of [] \<Rightarrow> [] | c # cs \<Rightarrow> c # redact cs))"
  by pat_completeness auto
termination by (relation "measure length") (auto dest!: match_password_shorter simp: replacement_def)

declare redact.simps [simp del]

section \<open>Logging an event\<close>

record log_call =
  lc_severity :: severity_levels
  from_errno :: bool
  from_sensitive :: bool
  lc_file :: string
  lc_function :: string
  lc_line :: int
  lc_source :: log_source

text \<open>After the last separator of the path of the source file.\<close>

definition path_to_filename :: "string \<Rightarrow> string" where
  "path_to_filename path = rev (takeWhile (\<lambda>c. c \<noteq> CHR ''/'' \<and> c \<noteq> CHR 0x5C) (rev path))"

definition message_size :: nat where "message_size = 4096"

text \<open>
  \<open>formatted\<close> is what \<open>vsnprintf\<close> returns and the whole text; the buffer takes what fits. The returned
  number is compared after one was added to it. The text without passwords is copied back.
\<close>

definition pad_name :: "nat \<Rightarrow> string \<Rightarrow> string" where
  "pad_name w t = t @ replicate (w - length t) (CHR '' '')"

definition line_head :: "log_call \<Rightarrow> string" where
  "line_head c = '' ['' @ pad_name 7 (severity_name (lc_severity c)) @ ''] ['' @ path_to_filename (lc_file c) @ '':'' @
     show_base 10 (nat (lc_line c)) @ '' '' @ lc_function c @ ''()] ''"

text \<open>The number of the last error and its text, if the system has one.\<close>

definition read_error_from_errno :: "32 word \<times> string option \<Rightarrow> string" where
  "read_error_from_errno e = ''(errno='' @ to_string_nat (unat (fst e)) @
     (case snd e of None \<Rightarrow> [] | Some t \<Rightarrow> '' '' @ t) @ '') ''"

definition log_event ::
  "log_call \<Rightarrow> int \<times> string \<Rightarrow> 32 word \<times> string option \<Rightarrow> logger \<Rightarrow> logger outcome" where
  "log_event c formatted errno_v G =
     (if supported_sources G AND of_nat (source_value (lc_source c)) = 0 then Ok G
      else if source_value (lc_source c) \<ge> length (source_level G) then UB
      else if source_level G ! source_value (lc_source c) AND severity_value (lc_severity c) = 0 then Ok G
      else if fst formatted + 1 < 0 then Ok (boost_log_sev error ''Logger Error'' G)
      else let message = take (message_size - 1) (c_str (snd formatted));
               clean = (if from_sensitive c then redact message else message)
        in if length clean > message_size then UB
           else Ok (boost_log_sev (lc_severity c) (line_head c @ clean @ (if from_errno c then read_error_from_errno errno_v else [])) G))"

section \<open>Lemmas\<close>

lemma redact_not_longer: "length (redact s) \<le> length s"
proof (induction s rule: redact.induct)
  case (1 s)
  show ?case
  proof (cases "match_password s")
    case None
    with 1(1) [OF None] show ?thesis by (subst redact.simps) (auto split: list.split)
  next
    case (Some r)
    with 1(2) [OF Some] match_password_shorter [OF Some] show ?thesis by (subst redact.simps) simp
  qed
qed

lemma redact_Cons: "match_password (c # cs) = None \<Longrightarrow> redact (c # cs) = c # redact cs"
  by (subst redact.simps) simp

lemma redact_field: "match_password s = Some r \<Longrightarrow> redact s = replacement @ redact r"
  by (subst redact.simps) simp

text \<open>A field of a JSON text: the key, the colon with white space around it, and a string.\<close>

definition password_field :: "string \<Rightarrow> string \<Rightarrow> string \<Rightarrow> string" where
  "password_field w1 w2 pw = password_key @ w1 @ '':'' @ w2 @ [CHR 0x22] @ pw @ [CHR 0x22]"

definition one_line :: "string \<Rightarrow> bool" where
  "one_line pw \<longleftrightarrow> CHR 0x22 \<notin> set pw \<and> CHR 0x0A \<notin> set pw \<and> CHR 0x0D \<notin> set pw"

lemma takeWhile_quote: "CHR 0x22 \<notin> set pw \<Longrightarrow> takeWhile (\<lambda>c. c \<noteq> CHR 0x22) (pw @ CHR 0x22 # t) = pw"
  by (induction pw) auto

lemma dropWhile_space:
  assumes "list_all isspace w" "\<not> isspace c"
  shows "dropWhile isspace (w @ c # t) = c # t"
  using assms by (induction w) auto

lemma match_password_field:
  assumes "list_all isspace w1" "list_all isspace w2" "one_line pw"
  shows "match_password (password_field w1 w2 pw @ t) = Some t"
proof -
  have n: "\<not> isspace (CHR '':'')" "\<not> isspace (CHR 0x22)" by (simp_all add: isspace_def)
  have d: "drop (length password_key) (password_field w1 w2 pw @ t) = w1 @ CHR '':'' # w2 @ CHR 0x22 # pw @ CHR 0x22 # t"
    by (simp add: password_field_def)
  have k: "take (length password_key) (password_field w1 w2 pw @ t) = password_key" by (simp add: password_field_def)
  have q: "takeWhile (\<lambda>c. c \<noteq> CHR 0x22) (pw @ CHR 0x22 # t) = pw" using assms(3) by (simp add: takeWhile_quote one_line_def)
  show ?thesis
    unfolding match_password_def k d dropWhile_space [OF assms(1) n(1)] list.case char.case
    using assms(3) q by (simp add: dropWhile_space [OF assms(2) n(2)] one_line_def)
qed

text \<open>In front of a field no match begins, unless the key was there before.\<close>

lemma password_key_quotes: "n < length password_key \<Longrightarrow> 0 < n \<Longrightarrow> password_key ! n = CHR 0x22 \<Longrightarrow> n = 9"
  by (auto simp: password_key_def nth_Cons' split: if_splits)

lemma no_match_before:
  assumes "pre \<noteq> []" "\<not> sublist password_key pre"
  shows "match_password (pre @ password_field w1 w2 pw @ t) = None"
proof (cases "take (length password_key) (pre @ password_field w1 w2 pw @ t) = password_key")
  case True
  define F where "F = password_field w1 w2 pw @ t"
  have short: "length pre < length password_key"
  proof (rule ccontr)
    assume "\<not> length pre < length password_key"
    then have "take (length password_key) pre = password_key" using True by simp
    then have "pre = [] @ password_key @ drop (length password_key) pre" using append_take_drop_id by (metis append_Nil)
    then have "sublist password_key pre" unfolding sublist_def by blast
    with assms(2) show False by simp
  qed
  have "F ! 0 = CHR 0x22" by (simp add: F_def password_field_def password_key_def)
  then have "(pre @ F) ! length pre = CHR 0x22" by (simp add: nth_append)
  moreover have "(pre @ F) ! length pre = password_key ! length pre"
    using True short by (metis F_def nth_take)
  ultimately have "length pre = 9" using password_key_quotes [OF short] assms(1) by simp
  then have "drop (length password_key) (pre @ F) = drop 1 F" by (simp add: password_key_def)
  also have "\<dots> = CHR ''p'' # drop 2 F" by (simp add: F_def password_field_def password_key_def)
  finally have d: "drop (length password_key) (pre @ F) = CHR ''p'' # drop 2 F" .
  have "dropWhile isspace (drop (length password_key) (pre @ F)) = CHR ''p'' # drop 2 F" unfolding d by (simp add: isspace_def)
  then show ?thesis by (simp add: match_password_def F_def [symmetric])
qed (simp add: match_password_def)

lemma redact_behind:
  assumes "\<not> sublist password_key pre" "list_all isspace w1" "list_all isspace w2" "one_line pw"
  shows "redact (pre @ password_field w1 w2 pw @ t) = pre @ replacement @ redact t"
  using assms(1)
proof (induction pre)
  case Nil
  show ?case using redact_field [OF match_password_field [OF assms(2-4)]] by simp
next
  case (Cons c pre)
  from no_match_before [OF _ Cons.prems] have "match_password (c # pre @ password_field w1 w2 pw @ t) = None" by simp
  moreover have "\<not> sublist password_key pre" using Cons.prems by (simp add: sublist_Cons_right)
  ultimately show ?case using Cons.IH by (simp add: redact_Cons)
qed

section \<open>Initialisation\<close>

text \<open>The level that the last enabled module with a number gives it.\<close>

definition level_of :: "module_conf list \<Rightarrow> nat \<Rightarrow> 64 word" where
  "level_of ms i =
     (let xs = filter (\<lambda>m. mod_enable m \<and> unat (mod_id m) = i) ms in if xs = [] then 0 else mod_severity (last xs))"

lemma level_of_snoc:
  "level_of (ms @ [m]) i = (if mod_enable m \<and> unat (mod_id m) = i then mod_severity m else level_of ms i)"
  by (simp add: level_of_def Let_def)

definition sources_of :: "module_conf list \<Rightarrow> 64 word" where
  "sources_of ms = foldl (\<lambda>w m. w OR mod_id m) 0 (filter mod_enable ms)"

definition ids_in_range :: "module_conf list \<Rightarrow> bool" where
  "ids_in_range ms \<longleftrightarrow> (\<forall>m \<in> set ms. mod_enable m \<longrightarrow> unat (mod_id m) < number_of_levels)"

lemma register_modules_append:
  "register_modules (ms @ ns) G = bind_o (register_modules ms G) (register_modules ns)"
  by (induction ms arbitrary: G) auto

lemma register_modules_result:
  assumes "ids_in_range ms" "length (source_level G) = number_of_levels" "source_level G = replicate number_of_levels 0" "supported_sources G = 0"
  shows "\<exists>ls. register_modules ms G = Ok (G\<lparr>supported_sources := sources_of ms, source_level := ls\<rparr>)
    \<and> length ls = number_of_levels \<and> (\<forall>i < number_of_levels. ls ! i = level_of ms i)"
  using assms(1)
proof (induction ms rule: rev_induct)
  case Nil
  have "G = G\<lparr>supported_sources := 0, source_level := replicate number_of_levels 0\<rparr>" using assms(3,4) by (cases G) simp
  then show ?case by (auto simp: sources_of_def level_of_def Let_def intro!: exI [of _ "replicate number_of_levels 0"])
next
  case (snoc m ms)
  then obtain ls where r: "register_modules ms G = Ok (G\<lparr>supported_sources := sources_of ms, source_level := ls\<rparr>)"
      "length ls = number_of_levels" "\<forall>i < number_of_levels. ls ! i = level_of ms i"
    by (auto simp: ids_in_range_def)
  show ?case
  proof (cases "mod_enable m")
    case True
    then have "unat (mod_id m) < number_of_levels" using snoc.prems by (auto simp: ids_in_range_def)
    with True r show ?thesis by (auto simp: register_modules_append sources_of_def level_of_snoc nth_list_update)
  next
    case False
    with r show ?thesis by (auto simp: register_modules_append sources_of_def level_of_snoc)
  qed
qed

text \<open>Where a module with too large a number is enabled, the level is written behind the array.\<close>

lemma register_modules_overrun:
  assumes "m \<in> set ms" "mod_enable m" "unat (mod_id m) \<ge> length (source_level G)"
  shows "register_modules ms G = UB"
  using assms
proof (induction ms arbitrary: G)
  case (Cons a ms)
  then show ?case by auto
qed simp

lemma register_sinks_keeps:
  "register_sinks vs S G = (ok, G', S') \<Longrightarrow> supported_sources G' = supported_sources G \<and> source_level G' = source_level G \<and> records G' = records G"
proof (induction vs arbitrary: S G)
  case (Cons v vs)
  obtain H T where a: "add_file_sink v S G = (H, T)" by fastforce
  then have "supported_sources H = supported_sources G \<and> source_level H = source_level G \<and> records H = records G"
    by (auto simp: add_file_sink_def split: prod.splits)
  with Cons a show ?case by (auto split: if_splits)
qed simp

definition sinks_known :: "sink_conf list \<Rightarrow> bool" where
  "sinks_known vs \<longleftrightarrow> (\<forall>v \<in> set vs. snk_enable v \<longrightarrow> snk_id v \<in> {sink_file, sink_event_log})"

lemma register_sinks_True:
  assumes "sinks_known vs"
  shows "\<exists>G' S'. register_sinks vs S G = (True, G', S') \<and> map fs_filter (file_sinks G') =
    map fs_filter (file_sinks G) @ map snk_filter (filter (\<lambda>v. snk_enable v \<and> snk_id v = sink_file) vs)"
  using assms
proof (induction vs arbitrary: S G)
  case (Cons v vs)
  obtain H T where a: "add_file_sink v S G = (H, T)" by fastforce
  then have h: "map fs_filter (file_sinks H) = map fs_filter (file_sinks G) @ [snk_filter v]"
    by (auto simp: add_file_sink_def split: prod.splits)
  have vs: "sinks_known vs" using Cons.prems by (simp add: sinks_known_def)
  from Cons.IH [OF vs, of T H] Cons.IH [OF vs, of S G] Cons.prems a h show ?case by (auto simp: sinks_known_def)
qed simp

lemma banner_log: "foldl (\<lambda>H t. boost_log_sev error t H) G ts = G\<lparr>records := records G @ map (Pair error) ts\<rparr>"
  by (induction ts arbitrary: G) (simp_all add: boost_log_sev_def)

text \<open>Whether an event gets past the two filters of the logger.\<close>

definition enabled_for :: "module_conf list \<Rightarrow> log_call \<Rightarrow> bool" where
  "enabled_for ms c \<longleftrightarrow> sources_of ms AND of_nat (source_value (lc_source c)) \<noteq> 0
     \<and> level_of ms (source_value (lc_source c)) AND severity_value (lc_severity c) \<noteq> 0"

lemma source_value_range: "source_value s < number_of_levels"
  by (cases s) (simp_all add: number_of_levels_def)

lemma clean_fits: "length (if b then redact (take (message_size - 1) t) else take (message_size - 1) t) \<le> message_size"
  using redact_not_longer [of "take (message_size - 1) t"] by (auto simp: message_size_def min_def split: if_splits)

lemma log_event_enabled:
  assumes "supported_sources G = sources_of ms" "length (source_level G) = number_of_levels"
    and "\<forall>i < number_of_levels. source_level G ! i = level_of ms i" "0 \<le> n"
  shows "log_event c (n, t) e G = Ok (if enabled_for ms c
    then boost_log_sev (lc_severity c) (line_head c @ (if from_sensitive c then redact (take (message_size - 1) (c_str t))
           else take (message_size - 1) (c_str t)) @ (if from_errno c then read_error_from_errno e else [])) G
    else G)"
proof -
  define clean where "clean = (if from_sensitive c then redact (take (message_size - 1) (c_str t)) else take (message_size - 1) (c_str t))"
  have "\<not> length clean > message_size" unfolding clean_def using clean_fits [of "from_sensitive c" "c_str t"] by simp
  then show ?thesis
    unfolding log_event_def Let_def fst_conv snd_conv clean_def [symmetric]
    using assms source_value_range [of "lc_source c"] by (simp add: enabled_for_def)
qed

section \<open>Properties\<close>

text \<open>
  C33. The logger writes exactly the events its configuration asks for: when the configuration file is
  readable, its default level is one of the levels, the enabled modules have numbers of sources and
  the enabled sinks are known, the initialisation succeeds; afterwards an event is recorded exactly
  if its source is among the numbers of the enabled modules and the level of the last enabled
  module with this number has the event's level, and every file sink gets it exactly if its level
  is at least that of the sink. No event makes the logger write outside of its buffer.
\<close>

theorem events_filtered:
  assumes "load_conf X (root @ ''/Logger/module.xml'') logger_configuration_default = Ok (b, conf)"
    and "default_level conf \<le> all_severity_levels" and "ids_in_range (modules_conf conf)" and "sinks_known (sinks_conf conf)"
  shows "\<exists>G S'. Initialize X root S garbage = Ok (True, G, S')
    \<and> map fs_filter (file_sinks G) = map snk_filter (filter (\<lambda>v. snk_enable v \<and> snk_id v = sink_file) (sinks_conf conf))
    \<and> (\<forall>c n t e. 0 \<le> n \<longrightarrow> (\<exists>line G'. log_event c (n, t) e G = Ok G'
        \<and> (\<forall>k. written_by k G' = written_by k G @
             (if enabled_for (modules_conf conf) c \<and> severity_value (lc_severity c) \<ge> fs_filter k then [line] else []))))"
proof -
  define G1 where "G1 = (new_logger garbage)\<lparr>supported_default_severity := default_level conf,
    source_level := replicate number_of_levels 0, supported_sources := 0\<rparr>"
  obtain ls where m: "register_modules (modules_conf conf) G1 = Ok (G1\<lparr>supported_sources := sources_of (modules_conf conf), source_level := ls\<rparr>)"
      "length ls = number_of_levels" "\<forall>i < number_of_levels. ls ! i = level_of (modules_conf conf) i"
    using register_modules_result [OF assms(3), of G1] by (auto simp: G1_def)
  define G2 where "G2 = G1\<lparr>supported_sources := sources_of (modules_conf conf), source_level := ls\<rparr>"
  obtain G3 S3 where s: "register_sinks (sinks_conf conf) S G2 = (True, G3, S3)"
      "map fs_filter (file_sinks G3) = map fs_filter (file_sinks G2) @ map snk_filter (filter (\<lambda>v. snk_enable v \<and> snk_id v = sink_file) (sinks_conf conf))"
    using register_sinks_True [OF assms(4), of S G2] by blast
  define G where "G = G3\<lparr>records := records G3 @ map (Pair error) banner, initialiezed := True\<rparr>"
  have i: "Initialize X root S garbage = Ok (True, G, S3)"
  proof -
    have "\<not> initialiezed (new_logger garbage)" by (simp add: new_logger_def)
    moreover have "\<not> default_level conf > all_severity_levels" using assms(2) by simp
    ultimately show ?thesis
      using m(1) s(1) by (simp add: Initialize_def logger_init_def internal_init_def assms(1) G1_def [symmetric] G2_def banner_log G_def)
  qed
  have g: "supported_sources G = sources_of (modules_conf conf)" "source_level G = ls"
    using register_sinks_keeps [OF s(1)] by (simp_all add: G_def G2_def)
  have "map fs_filter (file_sinks G) = map snk_filter (filter (\<lambda>v. snk_enable v \<and> snk_id v = sink_file) (sinks_conf conf))"
    using s(2) by (simp add: G_def G2_def G1_def new_logger_def)
  moreover have "\<exists>line G'. log_event c (n, t) e G = Ok G' \<and> (\<forall>k. written_by k G' = written_by k G @
      (if enabled_for (modules_conf conf) c \<and> severity_value (lc_severity c) \<ge> fs_filter k then [line] else []))" if "0 \<le> n" for c n t e
    using log_event_enabled [of G "modules_conf conf" n c t e] g m(2,3) that by (auto simp: written_by_def boost_log_sev_def)
  ultimately show ?thesis using i by blast
qed

text \<open>A configuration for examples: errors and warnings of the broker go to a file.\<close>

definition sample_conf :: logger_configuration where
  "sample_conf = \<lparr>version_ = 1, project_name = ''p'', default_level = 1,
     sinks_conf = [\<lparr>snk_path = ''/log'', snk_name = ''cdcm'', snk_enable = True, snk_id = 1, snk_filter = 16, max_files = 3,
       min_free_space = 1, rotation_size = 1\<rparr>],
     modules_conf = [\<lparr>mod_name = ''broker'', mod_id = 1, mod_severity = 24, mod_enable = True\<rparr>]\<rparr>"

definition sample_xml :: "nat xml_lib" where
  "sample_xml = \<lparr>read_xml = (\<lambda>f. Some 0),
     pt_text = (\<lambda>t p. map_of [((0, ''Logger.Project.name''), ''p''), ((1, ''<xmlattr>.name''), ''broker''), ((1, ''<xmlattr>.id''), ''1''),
       ((1, ''<xmlattr>.level''), ''24''), ((1, ''<xmlattr>.enable''), ''true''), ((2, ''path''), ''/log''), ((2, ''name''), ''cdcm''),
       ((2, ''id''), ''1''), ((2, ''max_files''), ''3''), ((2, ''min_free_space''), ''1''), ((2, ''rotation_size''), ''1''),
       ((2, ''filter''), ''ERROR'')] (t, p)),
     pt_children = (\<lambda>t p. map_of [((0, ''Logger.Project.modules''), [(''module'', 1)]),
       ((0, ''Logger.Project.supported_sinks''), [(''sink'', 2)])] (t, p)),
     text_int = (\<lambda>s. map_of [(''1'', 1)] s), text_ulong = (\<lambda>s. map_of [(''1'', 1), (''3'', 3), (''24'', 24)] s),
     text_bool = (\<lambda>s. map_of [(''true'', True), (''false'', False)] s)\<rparr>"

lemma sample_conf_loaded: "load_conf sample_xml f logger_configuration_default = Ok (True, sample_conf)"
  by code_simp

definition sample_source :: logger_source where
  "sample_source = \<lparr>src = Source_Broker, source_id = 0, str_id = None\<rparr>"

definition sample_call :: "severity_levels \<Rightarrow> bool \<Rightarrow> log_call" where
  "sample_call l b = \<lparr>lc_severity = l, from_errno = False, from_sensitive = b, lc_file = ''/src/a.cpp'', lc_function = ''f'', lc_line = 12,
     lc_source = Source_Broker\<rparr>"

theorem events_filtered_witness:
  "\<exists>G S'. Initialize sample_xml ''/etc'' sample_source (replicate 9 0) = Ok (True, G, S')
    \<and> (\<exists>line G'. log_event (sample_call error False) (5, ''hello'') (0, None) G = Ok G'
        \<and> written_by (hd (file_sinks G)) G' = written_by (hd (file_sinks G)) G @ [line])"
proof -
  have e: "enabled_for (modules_conf sample_conf) (sample_call error False)"
    by (simp add: enabled_for_def sample_conf_def sample_call_def sources_of_def level_of_def)
  obtain G S' where G: "Initialize sample_xml ''/etc'' sample_source (replicate 9 0) = Ok (True, G, S')"
     "map fs_filter (file_sinks G) = map snk_filter (filter (\<lambda>v. snk_enable v \<and> snk_id v = sink_file) (sinks_conf sample_conf))"
     "\<forall>c n t e. 0 \<le> n \<longrightarrow> (\<exists>line G'. log_event c (n, t) e G = Ok G'
        \<and> (\<forall>k. written_by k G' = written_by k G @
             (if enabled_for (modules_conf sample_conf) c \<and> severity_value (lc_severity c) \<ge> fs_filter k then [line] else [])))"
    using events_filtered [where root = "''/etc''" and S = sample_source and garbage = "replicate 9 0", OF sample_conf_loaded]
    by (auto simp: sample_conf_def all_severity_levels_def ids_in_range_def number_of_levels_def sinks_known_def sink_file_def)
  have "map fs_filter (file_sinks G) = [16]" using G(2) by (simp add: sample_conf_def sink_file_def)
  then have "fs_filter (hd (file_sinks G)) = 16" by (cases "file_sinks G") auto
  then have "severity_value (lc_severity (sample_call error False)) \<ge> fs_filter (hd (file_sinks G))" by (simp add: sample_call_def)
  moreover obtain line G' where "log_event (sample_call error False) (5, ''hello'') (0, None) G = Ok G'"
    "\<forall>k. written_by k G' = written_by k G @ (if enabled_for (modules_conf sample_conf) (sample_call error False)
       \<and> severity_value (lc_severity (sample_call error False)) \<ge> fs_filter k then [line] else [])"
    using G(3) by (meson zero_le_numeral)
  ultimately show ?thesis using G(1) e by auto
qed


definition sample_logger :: logger where
  "sample_logger = (new_logger (replicate 9 4))\<lparr>supported_sources := 1\<rparr>"


text \<open>
  A quotation mark inside of the password, written with a backslash in JSON, ends the match: the rest
  of the password stays.
\<close>

lemma escaped_password_leaks:
  "redact (password_field [] [] (''ab'' @ [CHR 0x5C, CHR 0x22] @ ''cd'')) = replacement @ ''cd'' @ [CHR 0x22]"
  by code_simp

text \<open>A configuration of another version is taken for an empty one, and the logger starts without a source.\<close>

lemma wrong_version_silent:
  assumes "read_xml X (root @ ''/Logger/module.xml'') = Some pt" "get_or X (text_int X) pt ''Logger.version'' 1 \<noteq> 1"
  shows "\<exists>G S'. Initialize X root S garbage = Ok (True, G, S') \<and> (\<forall>c f e. log_event c f e G = Ok G)"
proof -
  define conf where "conf = logger_configuration_default\<lparr>version_ := get_or X (text_int X) pt ''Logger.version'' 1\<rparr>"
  have l: "load_conf X (root @ ''/Logger/module.xml'') logger_configuration_default = Ok (False, conf)"
    using assms by (simp add: load_conf_def conf_def Let_def)
  have d: "default_level conf = 0" "modules_conf conf = []" "sinks_conf conf = []"
    by (simp_all add: conf_def logger_configuration_default_def)
  show ?thesis
    by (simp add: Initialize_def logger_init_def internal_init_def l d new_logger_def all_severity_levels_def banner_log log_event_def)
qed

end
