(* ===== verification/Cache_Interleaving.thy ===== *)
theory Cache_Interleaving
  imports Session_Cache "HOL-Library.Multiset"
begin

text \<open>
  The critical sections of \<open>src/src/common/sessions_cache/shared_mem_sessions_cache.*\<close>. A lookup and
  a cleaning take the lock twice: first to find an iterator, for reading, then to use it, for
  writing; between the two another process may run. The elements carry the number of their node,
  which is what an iterator holds, and are kept in the order of the expiration index, where the
  documentation of Boost's ordered indices puts an insertion behind the equal keys and a
  modification moves an element only if the order asks for it. An iterator of a node that is gone
  is undefined to use.
\<close>

section \<open>The shared container\<close>

record shared_cache =
  nodes :: "(nat \<times> element) list"
  next_node :: nat
  max_idle :: int

definition abs_cache :: "shared_cache \<Rightarrow> sessions_cache" where
  "abs_cache H = \<lparr>elements = map snd (nodes H), idle_timeout = max_idle H\<rparr>"

abbreviation expires :: "nat \<times> element \<Rightarrow> int" where
  "expires x \<equiv> expiration_time (snd x)"

definition in_order :: "(nat \<times> element) list \<Rightarrow> bool" where
  "in_order ns = sorted (map expires ns)"

definition place_node :: "nat \<times> element \<Rightarrow> (nat \<times> element) list \<Rightarrow> (nat \<times> element) list" where
  "place_node x ns = takeWhile (\<lambda>y. expires y \<le> expires x) ns @ x # dropWhile (\<lambda>y. expires y \<le> expires x) ns"

definition put_back :: "nat \<Rightarrow> element \<Rightarrow> (nat \<times> element) list \<Rightarrow> (nat \<times> element) list" where
  "put_back n e ns =
     (let here = map (\<lambda>x. if fst x = n then (n, e) else x) ns
      in if in_order here then here else place_node (n, e) (filter (\<lambda>x. fst x \<noteq> n) ns))"

section \<open>The critical sections\<close>

text \<open>\<open>get_session_by\<close>, \<open>touch_by\<close>: the search, and \<open>update\<close> through the iterator.\<close>

definition find_node :: "(element \<Rightarrow> string) \<Rightarrow> string \<Rightarrow> shared_cache \<Rightarrow> nat option" where
  "find_node tag k H = map_option fst (find (\<lambda>x. tag (snd x) = k) (nodes H))"

definition update_node ::
  "(string \<Rightarrow> 128 word option) \<Rightarrow> int \<Rightarrow> nat \<Rightarrow> shared_cache \<Rightarrow> (session option \<times> shared_cache) outcome" where
  "update_node stu now n H =
     (case map_of (nodes H) n of
        None \<Rightarrow> UB
      | Some e \<Rightarrow> Ok (convert_from_shared stu (stored e),
                   H\<lparr>nodes := put_back n (e\<lparr>expiration_time := now + max_idle H\<rparr>) (nodes H)\<rparr>))"

text \<open>\<open>clean\<close>: the bound, which is the end if all the elements are before it, and the erasure up to it.\<close>

definition lower_bound :: "int \<Rightarrow> shared_cache \<Rightarrow> nat option" where
  "lower_bound now H = map_option fst (find (\<lambda>x. now \<le> expires x) (nodes H))"

definition erase_until :: "nat option \<Rightarrow> shared_cache \<Rightarrow> shared_cache outcome" where
  "erase_until till_now H =
     (case till_now of
        None \<Rightarrow> Ok (H\<lparr>nodes := []\<rparr>)
      | Some n \<Rightarrow> if n \<notin> fst ` set (nodes H) then UB else Ok (H\<lparr>nodes := dropWhile (\<lambda>x. fst x \<noteq> n) (nodes H)\<rparr>))"

definition remove_node :: "string \<Rightarrow> shared_cache \<Rightarrow> shared_cache" where
  "remove_node ids H = H\<lparr>nodes := erase_by (\<lambda>x. element_id (snd x)) (c_str ids) (nodes H)\<rparr>"

definition add_node :: "int \<Rightarrow> shared_mem_session \<Rightarrow> shared_cache \<Rightarrow> shared_cache" where
  "add_node now sm H =
     (let ns = erase_by (\<lambda>x. element_remote (snd x)) (c_str (s_remote sm)) (nodes H); e = new_element now (max_idle H) sm
      in if element_id e \<in> element_id ` snd ` set ns \<or> element_remote e \<in> element_remote ` snd ` set ns
         then H\<lparr>nodes := ns\<rparr> else H\<lparr>nodes := place_node (next_node H, e) ns, next_node := next_node H + 1\<rparr>)"

section \<open>Processes\<close>

text \<open>What a process has still to do on the cache; each step is one critical section.\<close>

datatype task =
    Get "element \<Rightarrow> string" int string
  | Got int nat
  | Clean_At int
  | Cleaning "nat option"
  | Remove string
  | Store int shared_mem_session
  | Finished "session option"

fun task_step :: "(string \<Rightarrow> 128 word option) \<Rightarrow> task \<Rightarrow> shared_cache \<Rightarrow> (task \<times> shared_cache) outcome" where
  "task_step stu (Get tag now k) H =
     (case find_node tag (c_str k) H of None \<Rightarrow> Ok (Finished None, H) | Some n \<Rightarrow> Ok (Got now n, H))"
| "task_step stu (Got now n) H = bind_o (update_node stu now n H) (\<lambda>(s, H'). Ok (Finished s, H'))"
| "task_step stu (Clean_At now) H = Ok (Cleaning (lower_bound now H), H)"
| "task_step stu (Cleaning p) H = bind_o (erase_until p H) (\<lambda>H'. Ok (Finished None, H'))"
| "task_step stu (Remove k) H = Ok (Finished None, remove_node k H)"
| "task_step stu (Store now sm) H = Ok (Finished None, add_node now sm H)"
| "task_step stu (Finished r) H = Ok (Finished r, H)"

text \<open>The numbers of a schedule say which process runs its next section.\<close>

fun run_tasks ::
  "(string \<Rightarrow> 128 word option) \<Rightarrow> nat list \<Rightarrow> task list \<times> shared_cache \<Rightarrow> (task list \<times> shared_cache) outcome" where
  "run_tasks stu [] X = Ok X"
| "run_tasks stu (i # is) (ts, H) =
     (if i < length ts then bind_o (task_step stu (ts ! i) H) (\<lambda>(t, H'). run_tasks stu is (ts[i := t], H'))
      else run_tasks stu is (ts, H))"

section \<open>Lemmas\<close>

definition cache_wf :: "shared_cache \<Rightarrow> bool" where
  "cache_wf H \<longleftrightarrow> in_order (nodes H) \<and> distinct (map fst (nodes H)) \<and> (\<forall>x \<in> set (nodes H). fst x < next_node H)
     \<and> cache_ok (abs_cache H)"

lemma map_of_filter_other: "n \<noteq> m \<Longrightarrow> map_of (filter (\<lambda>x. fst x \<noteq> m) xs) n = map_of xs n"
  by (induction xs) auto

lemma map_of_place: "fst x \<notin> fst ` set ns \<Longrightarrow> map_of (place_node x ns) n = (if n = fst x then Some (snd x) else map_of ns n)"
proof (induction ns)
  case (Cons y ys)
  then show ?case by (cases x; cases y) (auto simp: place_node_def)
qed (cases x; simp add: place_node_def)

lemma set_place [simp]: "set (place_node x ns) = insert x (set ns)"
  unfolding place_node_def set_append list.set by (metis Un_insert_right set_append takeWhile_dropWhile_id)

lemma mset_place [simp]: "mset (place_node x ns) = add_mset x (mset ns)"
proof -
  have "mset ns = mset (takeWhile P ns) + mset (dropWhile P ns)" for P
    by (metis mset_append takeWhile_dropWhile_id)
  then show ?thesis by (simp add: place_node_def)
qed

lemma place_in_order: "in_order ns \<Longrightarrow> in_order (place_node x ns)"
proof (induction ns)
  case (Cons y ys)
  then have "in_order (place_node x ys)" "\<forall>z \<in> set ys. expires y \<le> expires z" by (auto simp: in_order_def)
  moreover have "place_node x (y # ys) = (if expires y \<le> expires x then y # place_node x ys else x # y # ys)"
    by (simp add: place_node_def)
  ultimately show ?case using Cons.prems by (auto simp: in_order_def)
qed (simp add: in_order_def place_node_def)

lemma mset_put_back:
  assumes "distinct (map fst ns)" "map_of ns n = Some e0"
  shows "mset (put_back n e ns) = mset (map (\<lambda>x. if fst x = n then (n, e) else x) ns)"
proof -
  have "add_mset (n, e) (mset (filter (\<lambda>x. fst x \<noteq> n) ns)) = mset (map (\<lambda>x. if fst x = n then (n, e) else x) ns)"
    using assms
  proof (induction ns)
    case (Cons y ys)
    show ?case
    proof (cases "fst y = n")
      case True
      then have "n \<notin> fst ` set ys" using Cons.prems by auto
      then have "filter (\<lambda>x. fst x \<noteq> n) ys = ys" "map (\<lambda>x. if fst x = n then (n, e) else x) ys = ys"
        by (force simp: filter_id_conv, force intro: map_idI)
      with True show ?thesis by simp
    next
      case False
      with Cons show ?thesis by (cases y) auto
    qed
  qed simp
  then show ?thesis by (simp add: put_back_def Let_def)
qed

lemma put_back_in_order: "in_order ns \<Longrightarrow> in_order (put_back n e ns)"
proof -
  assume "in_order ns"
  then have "in_order (filter (\<lambda>x. fst x \<noteq> n) ns)" by (simp add: in_order_def sorted_filter)
  then show ?thesis by (simp add: put_back_def Let_def place_in_order)
qed

lemma map_of_here:
  "map_of (map (\<lambda>x. if fst x = n then (n, e) else x) ns) m =
     (if m = n \<and> map_of ns n \<noteq> None then Some e else map_of ns m)"
  by (induction ns) auto

lemma map_of_put_back:
  assumes "map_of ns n = Some e0"
  shows "map_of (put_back n e ns) = (map_of ns)(n \<mapsto> e)"
proof
  fix m
  have "n \<notin> fst ` set (filter (\<lambda>x. fst x \<noteq> n) ns)" by auto
  then have "map_of (place_node (n, e) (filter (\<lambda>x. fst x \<noteq> n) ns)) m = (if m = n then Some e else map_of ns m)"
    by (simp add: map_of_place map_of_filter_other)
  with assms show "map_of (put_back n e ns) m = ((map_of ns)(n \<mapsto> e)) m"
    by (cases "m = n") (simp_all add: put_back_def Let_def map_of_here)
qed

lemma distinct_put_back:
  assumes "distinct (map fst ns)" "map_of ns n = Some e0"
  shows "distinct (map fst (put_back n e ns))"
proof -
  have "mset (map fst (put_back n e ns)) = mset (map fst (map (\<lambda>x. if fst x = n then (n, e) else x) ns))"
    using mset_put_back [OF assms, of e] by (simp only: mset_map)
  also have "map fst (map (\<lambda>x. if fst x = n then (n, e) else x) ns) = map fst ns" by simp
  finally show ?thesis using assms(1) by (metis mset_eq_imp_distinct_iff)
qed

lemma lookup_abs: "lookup_by tag k (elements (abs_cache H)) = map_option snd (find (\<lambda>x. tag (snd x) = k) (nodes H))"
proof -
  have "find (\<lambda>x. tag x = k) (map snd ns) = map_option snd (find (\<lambda>x. tag (snd x) = k) ns)" for ns :: "(nat \<times> element) list"
    by (induction ns) auto
  then show ?thesis by (simp add: abs_cache_def lookup_by_def)
qed

lemma find_node_None: "find_node tag k H = None \<longleftrightarrow> lookup_by tag k (elements (abs_cache H)) = None"
  by (simp add: find_node_def lookup_abs)

lemma find_Some_in: "find P xs = Some x \<Longrightarrow> x \<in> set xs \<and> P x"
  by (induction xs) (auto split: if_splits)

lemma find_node_Some:
  assumes "distinct (map fst (nodes H))" "find_node tag k H = Some n"
  obtains e where "map_of (nodes H) n = Some e" "tag e = k" "lookup_by tag k (elements (abs_cache H)) = Some e"
proof -
  obtain e where "find (\<lambda>x. tag (snd x) = k) (nodes H) = Some (n, e)" using assms(2) by (force simp: find_node_def)
  with find_Some_in [OF this] show ?thesis
    using that [of e] assms(1) by (simp add: lookup_abs map_of_eq_Some_iff)
qed

lemma cache_ok_mset: "mset es = mset es' \<Longrightarrow> cache_ok \<lparr>elements = es, idle_timeout = t\<rparr> = cache_ok \<lparr>elements = es', idle_timeout = t\<rparr>"
  unfolding cache_ok_def unique_by_def by (simp, metis mset_eq_imp_distinct_iff mset_map)

lemma abs_put_back:
  assumes "cache_wf H" "map_of (nodes H) n = Some e"
  shows "mset (map snd (put_back n (e\<lparr>expiration_time := t\<rparr>) (nodes H)))
     = mset (modify_by element_id (element_id e) (\<lambda>e. e\<lparr>expiration_time := t\<rparr>) (elements (abs_cache H)))"
proof -
  have d: "distinct (map fst (nodes H))" and u: "distinct (map element_id (map snd (nodes H)))"
    using assms(1) by (auto simp: cache_wf_def cache_ok_def unique_by_def abs_cache_def)
  have in_n: "(n, e) \<in> set (nodes H)" using assms(2) by (rule map_of_SomeD)
  have "fst x = n \<longleftrightarrow> element_id (snd x) = element_id e" "fst x = n \<longrightarrow> snd x = e" if "x \<in> set (nodes H)" for x
  proof -
    have "fst x = n \<longleftrightarrow> x = (n, e)" using d that in_n by (auto simp: distinct_map inj_on_def)
    moreover have "element_id (snd x) = element_id e \<longleftrightarrow> x = (n, e)"
      using u that in_n by (force simp: distinct_map inj_on_def)
    ultimately show "fst x = n \<longleftrightarrow> element_id (snd x) = element_id e" "fst x = n \<longrightarrow> snd x = e" by auto
  qed
  then have "map snd (map (\<lambda>x. if fst x = n then (n, e\<lparr>expiration_time := t\<rparr>) else x) (nodes H))
     = modify_by element_id (element_id e) (\<lambda>e. e\<lparr>expiration_time := t\<rparr>) (elements (abs_cache H))"
    by (auto simp: modify_by_def abs_cache_def)
  moreover have "mset (map snd (put_back n (e\<lparr>expiration_time := t\<rparr>) (nodes H)))
     = mset (map snd (map (\<lambda>x. if fst x = n then (n, e\<lparr>expiration_time := t\<rparr>) else x) (nodes H)))"
    using mset_put_back [OF d assms(2), of "e\<lparr>expiration_time := t\<rparr>"] by (simp only: mset_map)
  ultimately show ?thesis by simp
qed

lemma update_node_wf:
  assumes "cache_wf H" "map_of (nodes H) n = Some e"
  shows "cache_wf (H\<lparr>nodes := put_back n (e\<lparr>expiration_time := t\<rparr>) (nodes H)\<rparr>)"
proof -
  let ?ns = "put_back n (e\<lparr>expiration_time := t\<rparr>) (nodes H)"
  have d: "distinct (map fst (nodes H))" using assms(1) by (simp add: cache_wf_def)
  have "cache_ok (abs_cache (H\<lparr>nodes := ?ns\<rparr>))"
  proof -
    have "cache_ok (abs_cache (H\<lparr>nodes := ?ns\<rparr>)) = cache_ok ((abs_cache H)\<lparr>elements :=
        modify_by element_id (element_id e) (\<lambda>e. e\<lparr>expiration_time := t\<rparr>) (elements (abs_cache H))\<rparr>)"
      using cache_ok_mset [OF abs_put_back [OF assms, of t], of "max_idle H"] by (simp add: abs_cache_def)
    also have "\<dots>" using assms(1) by (simp add: cache_wf_def cache_ok_def unique_modify_by)
    finally show ?thesis .
  qed
  moreover have "\<forall>x \<in> set ?ns. fst x < next_node H"
    using arg_cong [OF mset_put_back [OF d assms(2), of "e\<lparr>expiration_time := t\<rparr>"], of set_mset] assms
    by (auto simp: cache_wf_def dest: map_of_SomeD)
  ultimately show ?thesis
    using assms d by (auto simp: cache_wf_def put_back_in_order distinct_put_back)
qed

text \<open>What is stored under the number of a node does not change while nothing is erased.\<close>

definition stored_at :: "shared_cache \<Rightarrow> nat \<Rightarrow> shared_mem_session option" where
  "stored_at H n = map_option stored (map_of (nodes H) n)"

lemma update_node_ok:
  assumes "cache_wf H" "stored_at H n = Some sm"
  obtains H' where "update_node stu now n H = Ok (convert_from_shared stu sm, H')" "cache_wf H'"
    "stored_at H' = stored_at H" "max_idle H' = max_idle H"
proof -
  obtain e where e: "map_of (nodes H) n = Some e" "stored e = sm" using assms(2) by (auto simp: stored_at_def)
  let ?H = "H\<lparr>nodes := put_back n (e\<lparr>expiration_time := now + max_idle H\<rparr>) (nodes H)\<rparr>"
  have "stored_at ?H = stored_at H"
    using e by (auto simp: stored_at_def fun_eq_iff map_of_put_back [OF e(1)])
  with that [of ?H] e update_node_wf [OF assms(1) e(1)] show thesis by (simp add: update_node_def)
qed

lemma find_stored_at:
  assumes "cache_wf H"
  shows "find_id k (abs_cache H) = Some sm \<longleftrightarrow> (\<exists>n. stored_at H n = Some sm) \<and> s_id sm = k"
proof -
  have "(\<exists>n. stored_at H n = Some sm) \<longleftrightarrow> sm \<in> stored ` set (elements (abs_cache H))"
    using assms by (force simp: stored_at_def abs_cache_def cache_wf_def map_of_eq_Some_iff image_iff)
  with assms show ?thesis by (simp add: cache_wf_def find_stored)
qed

lemma find_id_same: "cache_wf H \<Longrightarrow> cache_wf H' \<Longrightarrow> stored_at H' = stored_at H \<Longrightarrow> find_id k (abs_cache H') = find_id k (abs_cache H)"
  by (rule option_eq_via_Some) (simp add: find_stored_at)

text \<open>A process that looks up a session: it starts, holds the right node, or has the right answer.\<close>

fun looks_up :: "(string \<Rightarrow> 128 word option) \<Rightarrow> shared_cache \<Rightarrow> int \<times> string \<Rightarrow> task \<Rightarrow> bool" where
  "looks_up stu H (now, k) (Get tag t k') = (tag = element_id \<and> t = now \<and> k' = k)"
| "looks_up stu H (now, k) (Got t n) = (t = now \<and> (\<exists>sm. stored_at H n = Some sm \<and> find_id (c_str k) (abs_cache H) = Some sm))"
| "looks_up stu H (now, k) (Finished r) = (r = fst (get_session_by stu element_id now k (abs_cache H)))"
| "looks_up stu H q _ = False"

lemma looks_up_answer:
  "fst (get_session_by stu element_id now k C) =
     (case find_id (c_str k) C of None \<Rightarrow> None | Some sm \<Rightarrow> convert_from_shared stu sm)"
  by (auto simp: get_session_by_id split: option.split)

lemma looks_up_cong:
  assumes "stored_at H' = stored_at H" "\<And>k. find_id k (abs_cache H') = find_id k (abs_cache H)"
  shows "looks_up stu H' q t = looks_up stu H q t"
  using assms by (cases q; cases t) (simp_all add: looks_up_answer)

lemma lookup_step:
  assumes wf: "cache_wf H" and t: "looks_up stu H q t"
  obtains t' H' where "task_step stu t H = Ok (t', H')" "cache_wf H'" "stored_at H' = stored_at H" "looks_up stu H' q t'"
proof -
  obtain now k where q: "q = (now, k)" by (cases q)
  show thesis
  proof (cases t)
    case (Get tag t0 k')
    then have tag: "tag = element_id" "t0 = now" "k' = k" using t q by auto
    show thesis
    proof (cases "find_node element_id (c_str k) H")
      case None
      then have "find_id (c_str k) (abs_cache H) = None" by (simp add: find_node_None find_id_def)
      with that [of "Finished None" H] None show thesis using Get tag wf q by (simp add: looks_up_answer)
    next
      case (Some n)
      from wf have "distinct (map fst (nodes H))" by (simp add: cache_wf_def)
      from find_node_Some [OF this Some] obtain e where "map_of (nodes H) n = Some e"
        "lookup_by element_id (c_str k) (elements (abs_cache H)) = Some e" by metis
      then have "stored_at H n = Some (stored e)" "find_id (c_str k) (abs_cache H) = Some (stored e)"
        by (simp_all add: stored_at_def find_id_def)
      with that [of "Got now n" H] Some show thesis using Get tag wf q by simp
    qed
  next
    case (Got t0 n)
    then obtain sm where sm: "t0 = now" "stored_at H n = Some sm" and found: "find_id (c_str k) (abs_cache H) = Some sm"
      using t q by auto
    from update_node_ok [OF wf sm(2), of stu now] obtain H' where
      H': "update_node stu now n H = Ok (convert_from_shared stu sm, H')" "cache_wf H'" "stored_at H' = stored_at H" by metis
    have "find_id (c_str k) (abs_cache H') = Some sm" using find_id_same [OF wf H'(2,3)] found by simp
    with that [of "Finished (convert_from_shared stu sm)" H'] H' show thesis using Got sm q by (simp add: looks_up_answer)
  next
    case (Finished r)
    with that [of t H] wf t show thesis by simp
  qed (use t q in auto)
qed

lemma run_lookups:
  assumes "cache_wf H" "length ts = length qs" "\<And>i. i < length qs \<Longrightarrow> looks_up stu H (qs ! i) (ts ! i)"
  shows "\<exists>ts' H'. run_tasks stu is (ts, H) = Ok (ts', H') \<and> cache_wf H' \<and> stored_at H' = stored_at H
    \<and> length ts' = length qs \<and> (\<forall>i < length qs. looks_up stu H (qs ! i) (ts' ! i))"
  using assms
proof (induction "is" arbitrary: ts H)
  case (Cons i "is")
  show ?case
  proof (cases "i < length ts")
    case True
    then have "looks_up stu H (qs ! i) (ts ! i)" using Cons.prems by simp
    from lookup_step [OF Cons.prems(1) this] obtain t' H1 where
      s: "task_step stu (ts ! i) H = Ok (t', H1)" "cache_wf H1" "stored_at H1 = stored_at H" "looks_up stu H1 (qs ! i) t'" by metis
    have c: "looks_up stu H1 q t = looks_up stu H q t" for q t
      by (rule looks_up_cong) (simp_all add: s(3) find_id_same [OF Cons.prems(1) s(2,3)])
    have "looks_up stu H1 (qs ! j) (ts[i := t'] ! j)" if "j < length qs" for j
      using that Cons.prems(2,3) s(4) c by (cases "j = i") auto
    from Cons.IH [of H1 "ts[i := t']", OF s(2) _ this] s(1,3) True Cons.prems(2) show ?thesis by (simp add: c)
  qed (use Cons in simp)
qed auto

text \<open>In the order of the index the erasure up to the bound is the filter of the sequential cleaning.\<close>

lemma drop_until_found:
  "distinct (map fst xs) \<Longrightarrow> find P xs = Some x \<Longrightarrow> dropWhile (\<lambda>y. fst y \<noteq> fst x) xs = dropWhile (\<lambda>y. \<not> P y) xs"
proof (induction xs)
  case (Cons y ys)
  show ?case
  proof (cases "P y")
    case False
    with Cons.prems have "find P ys = Some x" by simp
    then have "fst y \<noteq> fst x" using find_Some_in [of P ys x] Cons.prems(1) by force
    with Cons False \<open>find P ys = Some x\<close> show ?thesis by simp
  qed (use Cons.prems in simp)
qed simp

lemma filter_in_order: "in_order ns \<Longrightarrow> filter (\<lambda>x. now \<le> expires x) ns = dropWhile (\<lambda>x. \<not> now \<le> expires x) ns"
proof (induction ns)
  case (Cons y ys)
  then have "in_order ys" "\<forall>z \<in> set ys. expires y \<le> expires z" by (auto simp: in_order_def)
  moreover from this have "now \<le> expires y \<Longrightarrow> filter (\<lambda>x. now \<le> expires x) ys = ys" by (auto simp: filter_id_conv)
  ultimately show ?case using Cons.IH by (cases "now \<le> expires y") simp_all
qed simp

lemma erase_lower_bound:
  assumes "cache_wf H"
  obtains H' where "erase_until (lower_bound now H) H = Ok H'" "cache_wf H'" "abs_cache H' = snd (clean now (abs_cache H))"
proof -
  let ?H = "H\<lparr>nodes := filter (\<lambda>x. now \<le> expires x) (nodes H)\<rparr>"
  have d: "distinct (map fst (nodes H))" and o: "in_order (nodes H)" using assms by (simp_all add: cache_wf_def)
  have "erase_until (lower_bound now H) H = Ok ?H"
  proof (cases "find (\<lambda>x. now \<le> expires x) (nodes H)")
    case None
    then have "filter (\<lambda>x. now \<le> expires x) (nodes H) = []" unfolding find_None_iff filter_empty_conv by blast
    with None show ?thesis by (simp add: erase_until_def lower_bound_def)
  next
    case (Some x)
    from find_Some_in [OF Some] have "fst x \<in> fst ` set (nodes H)" by auto
    with Some drop_until_found [OF d Some] filter_in_order [OF o, of now] show ?thesis
      by (simp add: erase_until_def lower_bound_def)
  qed
  moreover have "abs_cache ?H = snd (clean now (abs_cache H))" by (simp add: abs_cache_def clean_def filter_map comp_def)
  moreover have "cache_wf ?H"
    using assms cache_ok_clean [of "abs_cache H" now] calculation(2)
    by (auto simp: cache_wf_def in_order_def sorted_filter distinct_map_filter)
  ultimately show thesis using that by blast
qed

section \<open>Properties\<close>

text \<open>
  C12. Any number of processes look up sessions by their identifiers at the same time. However their
  critical sections are interleaved, none reads a node that is gone, what is stored does not change,
  and every process that has finished got the session stored under its identifier, as it would alone.
\<close>

theorem lookups_interleave:
  assumes "cache_wf H"
  shows "\<exists>ts H'. run_tasks stu schedule (map (\<lambda>(now, k). Get element_id now k) qs, H) = Ok (ts, H')
    \<and> cache_wf H' \<and> (\<forall>k. find_id k (abs_cache H') = find_id k (abs_cache H))
    \<and> (\<forall>i < length qs. \<forall>r. ts ! i = Finished r \<longrightarrow> r = fst (get_session stu (fst (qs ! i)) (snd (qs ! i)) (abs_cache H)))"
proof -
  have "looks_up stu H (qs ! i) (map (\<lambda>(now, k). Get element_id now k) qs ! i)" if "i < length qs" for i
    using that by (cases "qs ! i") simp
  from run_lookups [OF assms _ this, of schedule] obtain ts H' where
    r: "run_tasks stu schedule (map (\<lambda>(now, k). Get element_id now k) qs, H) = Ok (ts, H')" "cache_wf H'" "stored_at H' = stored_at H"
      "\<forall>i < length qs. looks_up stu H (qs ! i) (ts ! i)" by auto
  have "r' = fst (get_session stu (fst (qs ! i)) (snd (qs ! i)) (abs_cache H))" if "i < length qs" "ts ! i = Finished r'" for i r'
    using r(4) that by (cases "qs ! i") (auto simp: get_session_def dest!: spec [of _ i])
  with r find_id_same [OF assms r(2,3)] show ?thesis by auto
qed

definition sample_element :: "string \<Rightarrow> string \<Rightarrow> int \<Rightarrow> element" where
  "sample_element i host t = \<lparr>expiration_time = t, stored = \<lparr>s_id = i, s_remote = host, s_creds = no_credentials\<rparr>\<rparr>"

definition sample_shared :: shared_cache where
  "sample_shared = \<lparr>nodes = [(0, sample_element ''a'' ''ha'' 5), (1, sample_element ''b'' ''hb'' 12), (2, sample_element ''c'' ''hc'' 15)],
     next_node = 3, max_idle = 60\<rparr>"

lemma sample_shared_wf: "cache_wf sample_shared"
  by (simp add: sample_shared_def cache_wf_def in_order_def sample_element_def abs_cache_def cache_ok_def unique_by_def
      element_id_def element_remote_def)

theorem lookups_interleave_witness:
  "\<exists>ts H'. run_tasks (\<lambda>t. Some 7) [0, 1, 1, 0] ([Get element_id 10 ''b'', Get element_id 10 ''b''], sample_shared) = Ok (ts, H')
    \<and> find_id ''c'' (abs_cache H') \<noteq> None"
proof -
  have "find_id ''c'' (abs_cache sample_shared) \<noteq> None"
    by (simp add: sample_shared_def abs_cache_def find_id_None sample_element_def element_id_def)
  with lookups_interleave [OF sample_shared_wf, of "\<lambda>t. Some 7" "[0, 1, 1, 0]" "[(10, ''b''), (10, ''b'')]"]
  show ?thesis by auto
qed

text \<open>
  C13. An operation whose critical sections are not interrupted is the operation of the sequential cache:
  the lookup renews the session and returns it, the cleaning leaves exactly the sessions that are
  not expired, in both cases with the elements of the sequential cache.
\<close>

theorem sections_refine_cache:
  assumes "cache_wf H"
  shows "(\<exists>H'. run_tasks stu [0, 0] ([Get element_id now k], H) = Ok ([Finished (fst (get_session stu now k (abs_cache H)))], H')
        \<and> cache_wf H' \<and> mset (elements (abs_cache H')) = mset (elements (snd (get_session stu now k (abs_cache H)))))
    \<and> (\<exists>H'. run_tasks stu [0, 0] ([Clean_At now], H) = Ok ([Finished None], H')
        \<and> cache_wf H' \<and> abs_cache H' = snd (clean now (abs_cache H)))"
proof (intro conjI)
  show "\<exists>H'. run_tasks stu [0, 0] ([Get element_id now k], H) = Ok ([Finished (fst (get_session stu now k (abs_cache H)))], H')
        \<and> cache_wf H' \<and> mset (elements (abs_cache H')) = mset (elements (snd (get_session stu now k (abs_cache H))))"
  proof (cases "find_node element_id (c_str k) H")
    case None
    then have "lookup_by element_id (c_str k) (elements (abs_cache H)) = None" by (simp add: find_node_None)
    with None assms show ?thesis by (simp add: get_session_def get_session_by_def)
  next
    case (Some n)
    from assms have "distinct (map fst (nodes H))" by (simp add: cache_wf_def)
    from find_node_Some [OF this Some] obtain e where e: "map_of (nodes H) n = Some e" "element_id e = c_str k"
      "lookup_by element_id (c_str k) (elements (abs_cache H)) = Some e" by metis
    let ?H = "H\<lparr>nodes := put_back n (e\<lparr>expiration_time := now + max_idle H\<rparr>) (nodes H)\<rparr>"
    have "update_node stu now n H = Ok (convert_from_shared stu (stored e), ?H)" using e(1) by (simp add: update_node_def)
    then have "run_tasks stu [0, 0] ([Get element_id now k], H) = Ok ([Finished (convert_from_shared stu (stored e))], ?H)"
      by (simp add: Some)
    moreover have "mset (elements (abs_cache ?H)) = mset (elements (renew element_id now (c_str k) (abs_cache H)))"
      using abs_put_back [OF assms e(1), of "now + max_idle H"] e(2) by (simp add: abs_cache_def renew_def)
    moreover have "get_session stu now k (abs_cache H) = (convert_from_shared stu (stored e), renew element_id now (c_str k) (abs_cache H))"
      using e(3) by (simp add: get_session_def get_session_by_def)
    ultimately show ?thesis using update_node_wf [OF assms e(1)] by auto
  qed
  show "\<exists>H'. run_tasks stu [0, 0] ([Clean_At now], H) = Ok ([Finished None], H')
        \<and> cache_wf H' \<and> abs_cache H' = snd (clean now (abs_cache H))"
  proof -
    obtain H' where "erase_until (lower_bound now H) H = Ok H'" "cache_wf H'" "abs_cache H' = snd (clean now (abs_cache H))"
      by (rule erase_lower_bound [OF assms])
    then show ?thesis by simp
  qed
qed

theorem sections_refine_cache_witness:
  "\<exists>H'. run_tasks (\<lambda>t. Some 7) [0, 0] ([Clean_At 10], sample_shared) = Ok ([Finished None], H')
    \<and> map element_id (elements (abs_cache H')) = [''b'', ''c'']"
  using conjunct2 [OF sections_refine_cache [OF sample_shared_wf, of "\<lambda>t. Some 7" 10 "''b''"]]
  by (auto simp: sample_shared_def abs_cache_def clean_def sample_element_def element_id_def)

text \<open>
  C14. A cleaning that is interrupted between its two sections deletes sessions that are not expired.
  The sessions before \<open>e\<close> are expired, \<open>e\<close> is not; while the cleaner holds the iterator of \<open>e\<close>, a lookup
  renews \<open>e\<close>, which moves it behind all the other sessions: the cleaner then deletes everything but
  \<open>e\<close>, live sessions included. If all the sessions are expired, the iterator is the end, and a session
  that is added in between is deleted with them.
\<close>

theorem interrupted_clean_deletes_live:
  assumes "cache_wf H" and "nodes H = dead @ (n, e) # live"
    and "\<forall>x \<in> set dead. expires x < now" and "now \<le> expiration_time e"
    and "\<forall>x \<in> set live. expires x < t + max_idle H" and "now \<le> t + max_idle H"
    and "nul_free (element_id e)"
  shows "(\<exists>ts H'. run_tasks stu [0, 1, 1, 0] ([Clean_At now, Get element_id t (element_id e)], H) = Ok (ts, H')
      \<and> map element_id (elements (abs_cache H')) = [element_id e])
    \<and> (\<forall>x \<in> set live. snd x \<in> set (elements (snd (clean now (abs_cache H)))))
    \<and> (\<exists>ts H'. run_tasks stu [0, 1, 0] ([Clean_At now, Store t sm], H\<lparr>nodes := dead\<rparr>) = Ok (ts, H') \<and> nodes H' = [])"
proof (intro conjI)
  let ?e = "e\<lparr>expiration_time := t + max_idle H\<rparr>"
  have o: "in_order (dead @ (n, e) # live)" and d: "distinct (map fst (dead @ (n, e) # live))"
    and u: "distinct (map element_id (map snd (dead @ (n, e) # live)))"
    using assms(1,2) by (simp_all add: cache_wf_def cache_ok_def unique_by_def abs_cache_def)
  have find_app: "find P (xs @ y # ys) = Some y" if "\<forall>x \<in> set xs. \<not> P x" "P y" for P and xs ys and y :: "nat \<times> element"
    using that by (induction xs) auto
  have "find (\<lambda>x. now \<le> expires x) (dead @ (n, e) # live) = Some (n, e)"
    by (rule find_app) (use assms(3,4) in auto)
  then have low: "lower_bound now H = Some n" by (simp add: lower_bound_def assms(2))
  have "find (\<lambda>x. element_id (snd x) = element_id e) (dead @ (n, e) # live) = Some (n, e)"
    by (rule find_app) (use u in \<open>auto simp: image_iff\<close>)
  then have found: "find_node element_id (c_str (element_id e)) H = Some n" using assms(2,7) by (simp add: find_node_def)
  have e: "map_of (nodes H) n = Some e"
    unfolding map_of_eq_Some_iff [OF d [folded assms(2)]] by (simp add: assms(2))
  have same: "map (\<lambda>x. if fst x = n then (n, ?e) else x) xs = xs" "filter (\<lambda>x. fst x \<noteq> n) xs = xs" if "n \<notin> fst ` set xs" for xs
    using that by (force intro: map_idI, force simp: filter_id_conv)
  have n: "n \<notin> fst ` set dead" "n \<notin> fst ` set live" using d by auto
  have bound: "\<forall>x \<in> set (dead @ live). expires x \<le> t + max_idle H" using assms(3,5,6) by force
  have moved: "put_back n ?e (nodes H) = dead @ live @ [(n, ?e)]"
  proof (cases "in_order (dead @ (n, ?e) # live)")
    case True
    with assms(5) have "live = []" by (cases live) (auto simp: in_order_def sorted_append)
    with True show ?thesis using same [OF n(1)] by (simp add: put_back_def assms(2))
  next
    case False
    have "place_node (n, ?e) (dead @ live) = (dead @ live) @ [(n, ?e)]"
      using bound takeWhile_eq_all_conv [of "\<lambda>y. expires y \<le> t + max_idle H" "dead @ live"]
        dropWhile_eq_Nil_conv [of "\<lambda>y. expires y \<le> t + max_idle H" "dead @ live"] by (simp add: place_node_def)
    with False show ?thesis using same [OF n(1)] same [OF n(2)] by (simp add: put_back_def assms(2))
  qed
  let ?H = "H\<lparr>nodes := dead @ live @ [(n, ?e)]\<rparr>"
  have "update_node stu t n H = Ok (convert_from_shared stu (stored e), ?H)"
    using moved by (simp add: update_node_def e)
  moreover have "erase_until (Some n) ?H = Ok (?H\<lparr>nodes := [(n, ?e)]\<rparr>)"
  proof -
    have "dropWhile (\<lambda>x. fst x \<noteq> n) (dead @ live @ [(n, ?e)]) = [(n, ?e)]"
      using n by (subst dropWhile_append2, force) (subst dropWhile_append2, auto)
    then show ?thesis by (simp add: erase_until_def)
  qed
  ultimately show "\<exists>ts H'. run_tasks stu [0, 1, 1, 0] ([Clean_At now, Get element_id t (element_id e)], H) = Ok (ts, H')
      \<and> map element_id (elements (abs_cache H')) = [element_id e]"
    by (simp add: low found abs_cache_def)
  show "\<forall>x \<in> set live. snd x \<in> set (elements (snd (clean now (abs_cache H))))"
    using o assms(2,4) by (force simp: in_order_def clean_def abs_cache_def sorted_append)
  have "find (\<lambda>x. now \<le> expires x) dead = None" using assms(3) by (force simp: find_None_iff)
  then show "\<exists>ts H'. run_tasks stu [0, 1, 0] ([Clean_At now, Store t sm], H\<lparr>nodes := dead\<rparr>) = Ok (ts, H') \<and> nodes H' = []"
    by (simp add: lower_bound_def erase_until_def)
qed

theorem interrupted_clean_deletes_live_witness:
  "\<exists>ts H'. run_tasks (\<lambda>t. Some 7) [0, 1, 1, 0] ([Clean_At 10, Get element_id 10 ''b''], sample_shared) = Ok (ts, H')
    \<and> map element_id (elements (abs_cache H')) = [''b'']"
  using conjunct1 [OF interrupted_clean_deletes_live [OF sample_shared_wf, of "[(0, sample_element ''a'' ''ha'' 5)]" 1
      "sample_element ''b'' ''hb'' 12" "[(2, sample_element ''c'' ''hc'' 15)]" 10 10 "\<lambda>t. Some 7"]]
  by (simp add: sample_shared_def sample_element_def element_id_def nul_free_def)

text \<open>A lookup whose session is removed between its two sections uses a node that is gone.\<close>

lemma interrupted_lookup_undefined:
  assumes "cache_wf H" "find_node element_id (c_str k) H = Some n"
  shows "run_tasks stu [0, 1, 0] ([Get element_id now k, Remove k], H) = UB"
proof -
  from assms have "distinct (map fst (nodes H))" by (simp add: cache_wf_def)
  from find_node_Some [OF this assms(2)] obtain e where e: "map_of (nodes H) n = Some e" "element_id e = c_str k" by metis
  have "b = e" if "(n, b) \<in> set (nodes H)" for b
    using map_of_is_SomeI [OF \<open>distinct (map fst (nodes H))\<close> that] e(1) by simp
  then have "map_of (erase_by (\<lambda>x. element_id (snd x)) (c_str k) (nodes H)) n = None"
    using e(2) by (auto simp: map_of_eq_None_iff erase_by_def)
  with assms(2) show ?thesis by (simp add: update_node_def remove_node_def)
qed

end
