(* ===== verification/Plugins.thy ===== *)
theory Plugins
  imports Permission_Actions File_Info
begin

text \<open>
  The plugins of a worker: \<open>src/src/backend/utils/shared_library.hpp\<close>, a handle of the dynamic
  loader, and \<open>action_manager.cpp\<close>, which opens the libraries of the plugin directory and registers
  the action each of them exports. The loader and the file system are parameters: what is a
  directory, which files \<open>dlopen\<close> accepts, which symbols they have, and the action that the exported
  \<open>import_action\<close> of a library returns, if it is not a null pointer. A handle is the path it was
  opened with.
\<close>

section \<open>Shared libraries\<close>

record dl_env =
  is_directory :: "string \<Rightarrow> bool"
  dlopen :: "string \<Rightarrow> bool"
  dlsym :: "string \<Rightarrow> string \<Rightarrow> bool"
  import_action :: "string \<Rightarrow> action option"

record shared_library =
  so :: "string option"
  lib_filename :: string

definition new_shared_library :: shared_library where
  "new_shared_library = \<lparr>so = None, lib_filename = []\<rparr>"

definition opened :: "shared_library \<Rightarrow> bool" where
  "opened L \<longleftrightarrow> so L \<noteq> None"

definition close_lib :: "shared_library \<Rightarrow> shared_library" where
  "close_lib L = (if opened L then L\<lparr>so := None, lib_filename := []\<rparr> else L)"

text \<open>The part of a path after the last separator; the paths come from a directory.\<close>

definition path_filename :: "string \<Rightarrow> string" where
  "path_filename p = rev (takeWhile (\<lambda>c. c \<noteq> CHR ''/'') (rev p))"

text \<open>A whole match of \<open>lib\S+\.so\<close>.\<close>

definition name_lib_filter :: "string \<Rightarrow> bool" where
  "name_lib_filter s \<longleftrightarrow> 7 \<le> length s \<and> take 3 s = ''lib'' \<and> drop (length s - 3) s = ''.so''
     \<and> (\<forall>c \<in> set (take (length s - 6) (drop 3 s)). \<not> isspace c)"

definition open_intenal :: "dl_env \<Rightarrow> string \<Rightarrow> shared_library \<Rightarrow> string option \<times> shared_library" where
  "open_intenal DL p L =
     (if is_directory DL p then (None, L)
      else if \<not> name_lib_filter (path_filename p) then (None, L)
      else if dlopen DL p then (Some p, L\<lparr>lib_filename := p\<rparr>) else (None, L))"

definition open_lib :: "dl_env \<Rightarrow> string \<Rightarrow> shared_library \<Rightarrow> bool \<times> shared_library" where
  "open_lib DL p L = (let (h, L1) = open_intenal DL p (close_lib L) in (h \<noteq> None, L1\<lparr>so := h\<rparr>))"

definition has_symbol :: "dl_env \<Rightarrow> string \<Rightarrow> shared_library \<Rightarrow> bool" where
  "has_symbol DL s L = (case so L of None \<Rightarrow> False | Some h \<Rightarrow> dlsym DL h s)"

text \<open>\<open>get<T>\<close>: the function behind the symbol, as the library it is in; empty without the symbol.\<close>

definition get_symbol :: "dl_env \<Rightarrow> string \<Rightarrow> shared_library \<Rightarrow> string option" where
  "get_symbol DL s L = (case so L of None \<Rightarrow> None | Some h \<Rightarrow> if dlsym DL h s then Some h else None)"

section \<open>Loading the actions\<close>

text \<open>
  One turn of the loop for each entry of the directory. The libraries that gave an action are kept
  open by the list; a null action is dereferenced by \<open>register1\<close>. The text lists the names.
\<close>

fun load_entries ::
  "dl_env \<Rightarrow> string list \<Rightarrow> action dispatcher \<Rightarrow> shared_library list \<Rightarrow> string
    \<Rightarrow> (shared_library list \<times> action dispatcher \<times> string) outcome" where
  "load_entries DL [] d sl_vec names = Ok (sl_vec, d, names)"
| "load_entries DL (p # ps) d sl_vec names =
     (if \<not> name_lib_filter (path_filename p) then load_entries DL ps d sl_vec names
      else let sl = snd (open_lib DL p new_shared_library)
        in case get_symbol DL ''import_action'' sl of
             Some h \<Rightarrow>
               (case import_action DL h of
                  None \<Rightarrow> UB
                | Some a \<Rightarrow> load_entries DL ps (register1 act_name a d) (sl_vec @ [sl]) (names @ act_name a @ '' ''))
           | None \<Rightarrow> load_entries DL ps d sl_vec names)"

text \<open>\<open>None\<close>: the directory cannot be read, and the iterator is at its end.\<close>

definition load_plugins ::
  "dl_env \<Rightarrow> string list option \<Rightarrow> action dispatcher \<Rightarrow> (shared_library list \<times> action dispatcher \<times> string) outcome" where
  "load_plugins DL dir_v d =
     bind_o (load_entries DL (case dir_v of None \<Rightarrow> [] | Some ps \<Rightarrow> ps) d [] []) (\<lambda>(sl_vec, d', names).
       Ok (sl_vec, d', names @ ''Resgistered''))"

section \<open>The actions of the repository\<close>

definition smb_actions :: "smb_env \<Rightarrow> file_info_env \<Rightarrow> action list" where
  "smb_actions E F = [SMB_Read_File E, SMB_File_Exists E, SMB_List_Dir E, SMB_Get_File_Info F]"

definition plugin_actions :: "reg_env \<Rightarrow> smb_env \<Rightarrow> file_info_env \<Rightarrow> rpc_env \<Rightarrow> action list" where
  "plugin_actions G E F R = registry_actions G @ smb_actions E F @ permission_actions R"

lemmas plugin_action_defs = registry_actions_def Enumerate_Key_def Enumerate_Registry_Values_def Key_Exists_def
  Query_Value_def Value_Exists_def smb_actions_def SMB_Read_File_def SMB_File_Exists_def SMB_List_Dir_def
  SMB_Get_File_Info_def permission_action_defs

section \<open>Lemmas\<close>

lemma name_lib_filter_iff:
  "name_lib_filter s \<longleftrightarrow> (\<exists>m. s = ''lib'' @ m @ ''.so'' \<and> m \<noteq> [] \<and> (\<forall>c \<in> set m. \<not> isspace c))"
proof
  assume n: "name_lib_filter s"
  let ?m = "take (length s - 6) (drop 3 s)"
  have "s = take 3 s @ take (length s - 6) (drop 3 s) @ drop (length s - 3) s"
    using n append_take_drop_id [of 3 s] append_take_drop_id [of "length s - 6" "drop 3 s"]
    by (simp add: name_lib_filter_def)
  with n have "s = ''lib'' @ ?m @ ''.so'' \<and> ?m \<noteq> [] \<and> (\<forall>c \<in> set ?m. \<not> isspace c)"
    by (auto simp: name_lib_filter_def)
  then show "\<exists>m. s = ''lib'' @ m @ ''.so'' \<and> m \<noteq> [] \<and> (\<forall>c \<in> set m. \<not> isspace c)" by blast
next
  assume "\<exists>m. s = ''lib'' @ m @ ''.so'' \<and> m \<noteq> [] \<and> (\<forall>c \<in> set m. \<not> isspace c)"
  then obtain m where m: "s = ''lib'' @ m @ ''.so''" "m \<noteq> []" "\<forall>c \<in> set m. \<not> isspace c" by blast
  then have "1 \<le> length m" by (cases m) auto
  with m show "name_lib_filter s" by (auto simp: name_lib_filter_def dest: in_set_takeD)
qed

text \<open>The entries that are plugins, and what they export.\<close>

definition is_plugin :: "dl_env \<Rightarrow> string \<Rightarrow> bool" where
  "is_plugin DL p \<longleftrightarrow> name_lib_filter (path_filename p) \<and> \<not> is_directory DL p \<and> dlopen DL p \<and> dlsym DL p ''import_action''"

definition exported :: "dl_env \<Rightarrow> string list \<Rightarrow> action list" where
  "exported DL ps = map (\<lambda>p. the (import_action DL p)) (filter (is_plugin DL) ps)"

definition opened_as :: "string \<Rightarrow> shared_library" where
  "opened_as p = \<lparr>so = Some p, lib_filename = p\<rparr>"

lemma plugin_symbol:
  "name_lib_filter (path_filename p) \<Longrightarrow>
   get_symbol DL ''import_action'' (snd (open_lib DL p new_shared_library)) = (if is_plugin DL p then Some p else None)"
  by (simp add: get_symbol_def open_lib_def open_intenal_def close_lib_def opened_def new_shared_library_def is_plugin_def)

lemma plugin_opened: "is_plugin DL p \<Longrightarrow> snd (open_lib DL p new_shared_library) = opened_as p"
  by (simp add: open_lib_def open_intenal_def close_lib_def opened_def new_shared_library_def is_plugin_def opened_as_def)

lemma load_entries_result:
  assumes "\<forall>p \<in> set ps. is_plugin DL p \<longrightarrow> import_action DL p \<noteq> None"
  shows "load_entries DL ps d sl_vec names =
    Ok (sl_vec @ map opened_as (filter (is_plugin DL) ps), register_all act_name (exported DL ps) d,
        names @ concat (map (\<lambda>a. act_name a @ '' '') (exported DL ps)))"
  using assms
proof (induction ps arbitrary: d sl_vec names)
  case (Cons p ps)
  show ?case
  proof (cases "is_plugin DL p")
    case True
    with Cons.prems obtain a where a: "import_action DL p = Some a" by auto
    from True have "name_lib_filter (path_filename p)" "get_symbol DL ''import_action'' (opened_as p) = Some p"
      by (simp_all add: is_plugin_def get_symbol_def opened_as_def)
    with Cons True a show ?thesis
      by (simp add: plugin_opened exported_def register_all_def Let_def)
  next
    case False
    with Cons show ?thesis by (simp add: plugin_symbol exported_def Let_def)
  qed
qed (simp add: exported_def register_all_def)

text \<open>The dynamic casts: an action that is given a message of another class.\<close>

lemma fail_with_returns: "fail_with e res s = Ok (st, res', s') \<longleftrightarrow> st = FAILED \<and> s' = s \<and> set_response_for_error e res = Ok res'"
  by (auto simp: fail_with_def bind_o_Ok_iff)

lemma registry_client_fails:
  "new_registry_client G s (\<lambda>R s. fail_with e res s) = Ok (st, res', s') \<Longrightarrow> st = FAILED \<and> set_response_for_error e res = Ok res'"
  by (auto simp: new_registry_client_def bind_o_Ok_iff fail_with_returns split: if_splits)

lemma registry_casts:
  assumes "\<not> is_nil ss"
  shows "action_name m \<noteq> ''enumerate'' \<Longrightarrow>
      enumerate_key_act G (Some ss) m res s = new_registry_client G s (\<lambda>R s. fail_with INTERNAL_ERROR res s)"
    and "action_name m \<noteq> ''enumerate_registry_values'' \<Longrightarrow>
      enumerate_values_act G (Some ss) m res s = new_registry_client G s (\<lambda>R s. fail_with INTERNAL_ERROR res s)"
    and "action_name m \<noteq> ''key_exists'' \<Longrightarrow>
      key_exists_act G (Some ss) m res s = new_registry_client G s (\<lambda>R s. fail_with INTERNAL_ERROR res s)"
    and "action_name m \<noteq> ''query_value'' \<Longrightarrow>
      query_value_act G (Some ss) m res s = new_registry_client G s (\<lambda>R s. fail_with INTERNAL_ERROR res s)"
    and "action_name m \<noteq> ''value_exists'' \<Longrightarrow>
      value_exists_act G (Some ss) m res s = new_registry_client G s (\<lambda>R s. fail_with INTERNAL_ERROR res s)"
  using assms
  by (cases m; simp add: enumerate_key_act_def enumerate_values_act_def key_exists_act_def query_value_act_def
      value_exists_act_def checked_session_def)+

lemma smb_casts:
  assumes "\<not> is_nil ss"
  shows "action_name m \<noteq> ''read_file'' \<Longrightarrow> read_file_act E (Some ss) m res s = fail_with INTERNAL_ERROR res s"
    and "action_name m \<noteq> ''file_exists'' \<Longrightarrow> file_exists_act E (Some ss) m res s = fail_with INTERNAL_ERROR res s"
    and "action_name m \<noteq> ''list_dir'' \<Longrightarrow> list_dir_act E (Some ss) m res s = fail_with INTERNAL_ERROR res s"
    and "action_name m \<noteq> ''get_file_info'' \<Longrightarrow> get_file_info_act F (Some ss) m res s = fail_with INTERNAL_ERROR res s"
  using assms
  by (cases m; simp add: read_file_act_def file_exists_act_def list_dir_act_def get_file_info_act_def checked_session_def)+

lemma rpc_casts:
  assumes "\<not> is_nil ss"
  shows "action_name m \<noteq> ''get_share_permissions'' \<Longrightarrow>
      get_share_permissions_act R (Some ss) m res s = fail_with INTERNAL_ERROR res s"
    and "action_name m \<noteq> ''get_ntfs_file_permissions'' \<Longrightarrow>
      get_ntfs_file_permissions_act R (Some ss) m res s = fail_with INTERNAL_ERROR res s"
    and "action_name m \<noteq> ''get_ntfs_folder_permissions'' \<Longrightarrow>
      get_ntfs_folder_permissions_act R (Some ss) m res s = fail_with INTERNAL_ERROR res s"
    and "action_name m \<noteq> ''enumerate_shares'' \<Longrightarrow> enumerate_shares_act R (Some ss) m res s = fail_with INTERNAL_ERROR res s"
    and "action_name m \<noteq> ''get_registry_permissions'' \<Longrightarrow>
      get_registry_permissions_act R (Some ss) m res s = fail_with INTERNAL_ERROR res s"
  using assms
  by (cases m; simp add: get_share_permissions_act_def get_ntfs_file_permissions_act_def get_ntfs_folder_permissions_act_def
      enumerate_shares_act_def get_registry_permissions_act_def checked_session_def)+

section \<open>Properties\<close>

text \<open>
  C16. Loading a directory whose plugins return an action each: the loader accepts exactly the files
  named \<open>lib\<dots>.so\<close> that open and export the symbol; in the end every one of them is open and no other
  library is, the dispatcher finds under a name the action that the last of them exported under this
  name, and every other name as before.
\<close>

theorem plugins_registered:
  assumes "\<forall>p \<in> set ps. is_plugin DL p \<longrightarrow> import_action DL p \<noteq> None"
  shows "\<exists>sl_vec d' names. load_plugins DL (Some ps) d = Ok (sl_vec, d', names)
    \<and> map so sl_vec = map Some (filter (is_plugin DL) ps)
    \<and> (\<forall>n. dfind n d' = (case find (\<lambda>a. act_name a = n) (rev (exported DL ps)) of Some a \<Rightarrow> Some a | None \<Rightarrow> dfind n d))"
  using assms
  by (auto simp: load_plugins_def load_entries_result dfind_register_all opened_as_def)

definition sample_dl :: dl_env where
  "sample_dl = \<lparr>is_directory = (\<lambda>p. False), dlopen = (\<lambda>p. True), dlsym = (\<lambda>h n. n = ''import_action''),
     import_action = (\<lambda>h. Some (Enumerate_Shares (\<lambda>_. sample_rpc)))\<rparr>"

theorem plugins_registered_witness:
  "\<exists>sl_vec d' names. load_plugins sample_dl (Some [''/p/libsrvsvc.so'', ''/p/notes.txt'']) Map.empty = Ok (sl_vec, d', names)
    \<and> map so sl_vec = [Some ''/p/libsrvsvc.so''] \<and> dfind ''enumerate_shares'' d' = Some (Enumerate_Shares (\<lambda>_. sample_rpc))"
proof -
  have pl: "is_plugin sample_dl ''/p/libsrvsvc.so''" "\<not> is_plugin sample_dl ''/p/notes.txt''"
    by (simp_all add: is_plugin_def sample_dl_def name_lib_filter_def path_filename_def isspace_def)
  have e: "exported sample_dl [''/p/libsrvsvc.so'', ''/p/notes.txt''] = [Enumerate_Shares (\<lambda>_. sample_rpc)]"
    by (simp add: exported_def pl) (simp add: sample_dl_def)
  have "\<forall>p \<in> set [''/p/libsrvsvc.so'', ''/p/notes.txt'']. is_plugin sample_dl p \<longrightarrow> import_action sample_dl p \<noteq> None"
    by (simp add: sample_dl_def)
  from plugins_registered [OF this, of Map.empty] show ?thesis
    unfolding e by (auto simp: pl Enumerate_Shares_def)
qed



end
