(* ===== verification/Inproc_Cache.thy ===== *)
theory Inproc_Cache
  imports Session_Cache
begin

text \<open>
  \<open>src/src/common/sessions_cache/inproc_sessions_cache.hpp\<close>: the sessions cache of a single process, a
  template that the program does not instantiate. Its elements have the session itself and the time
  they were last asked for; there is no expiration. The constructor names a class that does not
  exist and is not modelled.
\<close>

record in_element =
  last_used :: int
  in_session :: session

abbreviation in_id :: "in_element \<Rightarrow> 128 word" where "in_id e \<equiv> uuid (in_session e)"
abbreviation in_remote :: "in_element \<Rightarrow> string" where "in_remote e \<equiv> remote (in_session e)"

text \<open>The container refuses an element whose identifier or host it has; nobody looks at the answer.\<close>

definition insert_in :: "in_element \<Rightarrow> in_element list \<Rightarrow> in_element list" where
  "insert_in e es = (if in_id e \<in> in_id ` set es \<or> in_remote e \<in> in_remote ` set es then es else es @ [e])"

definition insert_session :: "int \<Rightarrow> session \<Rightarrow> in_element list \<Rightarrow> in_element list" where
  "insert_session now s es = insert_in \<lparr>last_used = now, in_session = s\<rparr> (erase_by in_remote (remote s) es)"

definition get_session_by_dest :: "int \<Rightarrow> string \<Rightarrow> in_element list \<Rightarrow> session \<times> in_element list" where
  "get_session_by_dest now dst es =
     (case lookup_by in_remote dst es of
        None \<Rightarrow> (session_default, es)
      | Some e \<Rightarrow> (in_session e, modify_by in_remote dst (\<lambda>e. e\<lparr>last_used := now\<rparr>) es))"

text \<open>The text of an identifier is parsed; the parser throws on a text that is none.\<close>

definition return_replaced :: "int \<Rightarrow> in_element \<Rightarrow> in_element list \<Rightarrow> session \<times> in_element list" where
  "return_replaced now e es = (in_session e, modify_by in_id (in_id e) (\<lambda>e. e\<lparr>last_used := now\<rparr>) es)"

definition in_get_by_id :: "(string \<Rightarrow> 128 word option) \<Rightarrow> int \<Rightarrow> string \<Rightarrow> in_element list \<Rightarrow> session \<times> in_element list" where
  "in_get_by_id stu now ids es =
     (case stu ids of
        None \<Rightarrow> (session_default, es)
      | Some u \<Rightarrow> (case lookup_by in_id u es of None \<Rightarrow> (session_default, es) | Some e \<Rightarrow> return_replaced now e es))"

definition in_remove_by_id :: "(string \<Rightarrow> 128 word option) \<Rightarrow> string \<Rightarrow> in_element list \<Rightarrow> bool \<times> in_element list" where
  "in_remove_by_id stu ids es =
     (case stu ids of
        None \<Rightarrow> (False, es)
      | Some u \<Rightarrow> (case lookup_by in_id u es of None \<Rightarrow> (False, es) | Some e \<Rightarrow> (True, erase_by in_id u es)))"

section \<open>Lemmas\<close>

text \<open>The same sessions in the shared cache, each to expire when it has been idle for the given time.\<close>

definition to_shared :: "(128 word \<Rightarrow> string) \<Rightarrow> int \<Rightarrow> in_element list \<Rightarrow> sessions_cache" where
  "to_shared uts idle es =
     \<lparr>elements = map (\<lambda>e. \<lparr>expiration_time = last_used e + idle, stored = convert_to_shared uts (in_session e)\<rparr>) es,
      idle_timeout = idle\<rparr>"

text \<open>The library's UUIDs: the text is parsed back, and has no NUL.\<close>

definition uuid_lib_ok :: "(128 word \<Rightarrow> string) \<Rightarrow> (string \<Rightarrow> 128 word option) \<Rightarrow> bool" where
  "uuid_lib_ok uts stu \<longleftrightarrow> (\<forall>u. stu (uts u) = Some u \<and> nul_free (uts u))"

definition in_cache_ok :: "in_element list \<Rightarrow> bool" where
  "in_cache_ok es \<longleftrightarrow> unique_by in_id es \<and> unique_by in_remote es \<and> (\<forall>e \<in> set es. nul_free (in_remote e))"

lemma uts_inj: "uuid_lib_ok uts stu \<Longrightarrow> uts u = uts v \<longleftrightarrow> u = v"
  by (metis option.inject uuid_lib_ok_def)

lemma find_map: "find P (map f xs) = map_option f (find (\<lambda>x. P (f x)) xs)"
  by (induction xs) auto

lemma lookup_shared_id:
  "uuid_lib_ok uts stu \<Longrightarrow> lookup_by element_id (uts u) (elements (to_shared uts idle es)) =
     map_option (\<lambda>e. \<lparr>expiration_time = last_used e + idle, stored = convert_to_shared uts (in_session e)\<rparr>) (lookup_by in_id u es)"
  by (simp add: lookup_by_def to_shared_def find_map element_id_def uts_inj)

lemma in_cache_ok_insert: "in_cache_ok es \<Longrightarrow> nul_free (remote s) \<Longrightarrow> in_cache_ok (insert_session now s es)"
  by (auto simp: in_cache_ok_def insert_session_def insert_in_def unique_by_def erase_by_def distinct_map_filter)

text \<open>
  The laws of a keyed store, which the shared cache has too: the key is the identifier, and a session
  is put for a host that has none.
\<close>

definition in_unique :: "in_element list \<Rightarrow> bool" where
  "in_unique es \<longleftrightarrow> unique_by in_id es \<and> unique_by in_remote es"

definition in_find :: "128 word \<Rightarrow> in_element list \<Rightarrow> session option" where
  "in_find u es = map_option in_session (lookup_by in_id u es)"

definition in_fresh :: "session \<Rightarrow> in_element list \<Rightarrow> bool" where
  "in_fresh s es \<longleftrightarrow> remote s \<notin> in_remote ` set es"

lemma insert_fresh:
  assumes "in_fresh s es"
  shows "insert_session now s es = insert_in \<lparr>last_used = now, in_session = s\<rparr> es"
proof -
  have "erase_by in_remote (remote s) es = es"
    using assms by (force simp: erase_by_def filter_id_conv in_fresh_def)
  then show ?thesis by (simp add: insert_session_def)
qed

lemma lookup_by_snoc:
  "lookup_by f k (xs @ [x]) = (case lookup_by f k xs of Some y \<Rightarrow> Some y | None \<Rightarrow> if f x = k then Some x else None)"
  by (induction xs) (auto simp: lookup_by_def)

lemma in_find_insert:
  assumes "in_fresh s es"
  shows "in_find u (insert_session now s es) = (if u = uuid s \<and> in_find u es = None then Some s else in_find u es)"
proof -
  have "lookup_by in_id (uuid s) es = None \<longleftrightarrow> uuid s \<notin> in_id ` set es"
    by (auto simp: lookup_by_def find_None_iff image_iff)
  then show ?thesis
    using assms unfolding insert_fresh [OF assms]
    by (auto simp: insert_in_def in_find_def in_fresh_def lookup_by_snoc split: option.split)
qed

interpretation ic: keyed_store uuid in_unique in_fresh in_find "insert_session now" "erase_by in_id"
  for now
proof unfold_locales
  fix es k k' x
  show "in_unique es \<Longrightarrow> in_find k es = Some x \<Longrightarrow> uuid x = k"
    by (auto simp: in_find_def dest: lookup_by_Some_key)
  show "in_unique es \<Longrightarrow> in_find k (erase_by in_id k es) = None"
    and "in_unique es \<Longrightarrow> k \<noteq> k' \<Longrightarrow> in_find k (erase_by in_id k' es) = in_find k es"
    by (simp_all add: in_find_def lookup_erase_by)
  show "in_unique es \<Longrightarrow> in_unique (erase_by in_id k es)"
    by (simp add: in_unique_def unique_erase_by)
  show "in_unique es \<Longrightarrow> in_unique (insert_session now x es)"
    by (auto simp: in_unique_def insert_session_def insert_in_def unique_by_def erase_by_def distinct_map_filter)
qed (auto simp: in_find_insert)

section \<open>Properties\<close>

text \<open>
  The cache of one process and the shared cache are the same cache: with hosts without NUL and
  identifiers in the form the library prints, inserting a session, asking for one by its identifier
  and removing one commute with the conversion of the elements, and give the same answers, where
  the one gives the default session and the other none.
\<close>

theorem inproc_equals_shared:
  assumes "uuid_lib_ok uts stu" and "in_cache_ok es" and "nul_free (remote s)"
  shows "in_cache_ok (insert_session now s es)
    \<and> to_shared uts idle (insert_session now s es) = snd (add uts now No_Fault s (to_shared uts idle es))
    \<and> fst (in_get_by_id stu now (uts u) es) =
        (case fst (get_session stu now (uts u) (to_shared uts idle es)) of None \<Rightarrow> session_default | Some x \<Rightarrow> x)
    \<and> to_shared uts idle (snd (in_get_by_id stu now (uts u) es)) = snd (get_session stu now (uts u) (to_shared uts idle es))
    \<and> fst (in_remove_by_id stu (uts u) es) = fst (remove_by_id (uts u) (to_shared uts idle es))
    \<and> to_shared uts idle (snd (in_remove_by_id stu (uts u) es)) = snd (remove_by_id (uts u) (to_shared uts idle es))"
proof (intro conjI)
  have l: "stu (uts u) = Some u" "nul_free (uts u)" for u using assms(1) by (simp_all add: uuid_lib_ok_def)
  have inj: "uts v = uts w \<longleftrightarrow> v = w" for v w using assms(1) by (rule uts_inj)
  show "in_cache_ok (insert_session now s es)" using assms(2,3) by (rule in_cache_ok_insert)
  show "to_shared uts idle (insert_session now s es) = snd (add uts now No_Fault s (to_shared uts idle es))"
    using assms(3) inj
    by (auto simp: insert_session_def insert_in_def add_def add_shared_def insert_element_def to_shared_def erase_by_def
        filter_map comp_def element_id_def element_remote_def new_element_def convert_to_shared_def idstr_def image_iff)
  show "fst (in_get_by_id stu now (uts u) es) =
        (case fst (get_session stu now (uts u) (to_shared uts idle es)) of None \<Rightarrow> session_default | Some x \<Rightarrow> x)"
    using l lookup_shared_id [OF assms(1)]
    by (auto simp: in_get_by_id_def get_session_def get_session_by_def return_replaced_def convert_roundtrip split: option.split)
  show "to_shared uts idle (snd (in_get_by_id stu now (uts u) es)) = snd (get_session stu now (uts u) (to_shared uts idle es))"
    using l lookup_shared_id [OF assms(1)] inj
    by (auto simp: in_get_by_id_def get_session_def get_session_by_def return_replaced_def renew_def modify_by_def
        to_shared_def element_id_def convert_to_shared_def idstr_def dest: lookup_by_Some_key split: option.split)
  show "fst (in_remove_by_id stu (uts u) es) = fst (remove_by_id (uts u) (to_shared uts idle es))"
    using l lookup_shared_id [OF assms(1)]
    by (auto simp: in_remove_by_id_def remove_by_id_def split: option.split)
  show "to_shared uts idle (snd (in_remove_by_id stu (uts u) es)) = snd (remove_by_id (uts u) (to_shared uts idle es))"
    using l lookup_shared_id [OF assms(1)] inj
    by (auto simp: in_remove_by_id_def remove_by_id_def erase_by_def to_shared_def filter_map comp_def element_id_def
        convert_to_shared_def idstr_def split: option.split)
qed

definition unary_uts :: "128 word \<Rightarrow> string" where
  "unary_uts u = replicate (unat u) (CHR ''x'')"

definition unary_stu :: "string \<Rightarrow> 128 word option" where
  "unary_stu t = Some (of_nat (length t))"

theorem inproc_equals_shared_witness:
  "fst (in_get_by_id unary_stu 20 ''xx'' (insert_session 10 (new_session 2 ''host'' no_credentials) []))
     = new_session 2 ''host'' no_credentials
   \<and> fst (remove_by_id ''xx'' (to_shared unary_uts 60 (insert_session 10 (new_session 2 ''host'' no_credentials) [])))"
proof -
  let ?es = "insert_session 10 (new_session 2 ''host'' no_credentials) []"
  have es: "?es = [\<lparr>last_used = 10, in_session = new_session 2 ''host'' no_credentials\<rparr>]"
    by (simp add: insert_session_def insert_in_def erase_by_def)
  have "uuid_lib_ok unary_uts unary_stu" by (simp add: uuid_lib_ok_def unary_uts_def unary_stu_def nul_free_def)
  moreover have "in_cache_ok ?es" unfolding es by (simp add: in_cache_ok_def unique_by_def new_session_def)
  ultimately have "fst (in_remove_by_id unary_stu (unary_uts 2) ?es) = fst (remove_by_id (unary_uts 2) (to_shared unary_uts 60 ?es))"
    using inproc_equals_shared [of unary_uts unary_stu ?es "new_session 2 ''host'' no_credentials" 20 60 2]
    by (simp add: new_session_def)
  moreover have "unary_uts 2 = ''xx''"
  proof -
    have "unat (2 :: 128 word) = Suc (Suc 0)" by simp
    then show ?thesis unfolding unary_uts_def by (simp only: replicate.simps)
  qed
  ultimately show ?thesis
    unfolding es by (simp add: in_get_by_id_def in_remove_by_id_def unary_stu_def lookup_by_def new_session_def return_replaced_def)
qed

end
