(* ===== verification/Observer.thy ===== *)
theory Observer
  imports Cdcm_Prelude
begin

text \<open>
  \<open>src/src/common/Logger/include/Observer.h\<close>: the publisher keeps a list of its subscribers, which are
  known by their addresses, and tells each of them of a change. What a subscriber does with the news
  is the argument \<open>update\<close>. The program uses neither class yet.
\<close>

type_synonym publisher = "nat list"

definition new_publisher :: publisher where
  "new_publisher = []"

definition add_subscriber :: "nat \<Rightarrow> publisher \<Rightarrow> bool \<times> publisher" where
  "add_subscriber o_v P = (True, P @ [o_v])"

text \<open>The range that is erased is empty.\<close>

definition erase_range :: "nat \<Rightarrow> nat \<Rightarrow> 'a list \<Rightarrow> 'a list" where
  "erase_range i j xs = take i xs @ drop j xs"

definition remove_subscriber :: "nat \<Rightarrow> publisher \<Rightarrow> bool \<times> publisher" where
  "remove_subscriber o_v P =
     (let it = length (takeWhile (\<lambda>s. s \<noteq> o_v) P); found_subscriber = (it \<noteq> length P)
      in (found_subscriber, if found_subscriber then erase_range it it P else P))"

definition notify_change :: "(nat \<Rightarrow> int \<Rightarrow> 's \<Rightarrow> 's) \<Rightarrow> int \<Rightarrow> publisher \<Rightarrow> 's \<Rightarrow> 's" where
  "notify_change update hint P s = fold (\<lambda>o_v. update o_v hint) P s"

section \<open>Properties\<close>

text \<open>
  A subscriber that was added is told of a change once for each addition, in the order of the
  additions. Removing one tells truly whether it was there, but removes nothing: it is still told of
  every change, by then possibly at the address of an object that is gone.
\<close>

theorem removed_subscriber_notified:
  "fst (remove_subscriber o_v P) = (o_v \<in> set P)
    \<and> snd (remove_subscriber o_v P) = P
    \<and> notify_change (\<lambda>s h. (#) (s, h)) hint (snd (remove_subscriber o_v (snd (add_subscriber o_v P)))) [] =
        (o_v, hint) # rev (map (\<lambda>s. (s, hint)) P)"
proof -
  have "length (takeWhile (\<lambda>s. s \<noteq> o_v) Q) = length Q \<longleftrightarrow> o_v \<notin> set Q" for Q
    by (induction Q) auto
  then have r: "remove_subscriber o_v Q = (o_v \<in> set Q, Q)" for Q
    by (simp add: remove_subscriber_def erase_range_def Let_def)
  have "fold (\<lambda>s. (#) (s, hint)) Q acc = rev (map (\<lambda>s. (s, hint)) Q) @ acc" for Q :: publisher and acc
    by (induction Q arbitrary: acc) simp_all
  then show ?thesis by (simp add: r add_subscriber_def notify_change_def)
qed

end
