(* ===== verification/Threads.thy ===== *)
theory Threads
  imports Cdcm_Prelude
begin

text \<open>
  \<open>src/src/common/Logger/include/Threads.h\<close>: an object that owns a thread. The thread runs \<open>do_task\<close> of
  the object it was started by, at the address it had then, and its busy loop is to read the
  \<open>stop_\<close> flag of that object. Objects are numbered by their addresses, threads in the order they
  were started; \<open>std::thread\<close> is its documentation: joinable until it is joined or moved from, and
  assigning to a joinable one ends the program. The program does not use the class yet.
\<close>

section \<open>The body of a thread\<close>

text \<open>What a virtual function of the derived class does: it returns, or throws.\<close>

datatype hook = Returns bool | Throws

datatype call = On_Start_Task | Task | On_End_Task

text \<open>\<open>do_task\<close>: the calls it makes; an exception that leaves it ends the program.\<close>

definition do_task :: "hook \<Rightarrow> hook \<Rightarrow> hook \<Rightarrow> call list outcome" where
  "do_task on_start_task task on_end_task =
     (case on_start_task of
        Throws \<Rightarrow> Abort
      | Returns go \<Rightarrow>
          (case on_end_task of
             Throws \<Rightarrow> Abort
           | Returns _ \<Rightarrow> Ok ([On_Start_Task] @ (if go then [Task] else []) @ [On_End_Task])))"

section \<open>The objects and their threads\<close>

record thread_obj =
  stop_flag :: bool
  handle :: "nat option"

text \<open>\<open>running\<close>: the threads that have not ended, each with the object whose flag it reads.\<close>

record world =
  objs :: "nat \<rightharpoonup> thread_obj"
  running :: "nat \<rightharpoonup> nat"
  next_thread :: nat

definition with_obj :: "nat \<Rightarrow> world \<Rightarrow> (thread_obj \<Rightarrow> 'a outcome) \<Rightarrow> 'a outcome" where
  "with_obj i W k = (case objs W i of None \<Rightarrow> UB | Some ob \<Rightarrow> k ob)"

definition construct :: "nat \<Rightarrow> world \<Rightarrow> world" where
  "construct i W = W\<lparr>objs := (objs W)(i \<mapsto> \<lparr>stop_flag = False, handle = None\<rparr>)\<rparr>"

definition start_thread :: "nat \<Rightarrow> world \<Rightarrow> world outcome" where
  "start_thread i W = with_obj i W (\<lambda>ob.
     if handle ob \<noteq> None then Ok W
     else Ok (W\<lparr>objs := (objs W)(i \<mapsto> \<lparr>stop_flag = False, handle = Some (next_thread W)\<rparr>),
                running := (running W)(next_thread W \<mapsto> i), next_thread := next_thread W + 1\<rparr>))"

text \<open>
  \<open>stop\<close> has two parts: the flag is set, and then, if there is a thread, it is joined, which waits
  until the thread has ended. Waiting is the result \<open>None\<close>.
\<close>

definition stop_request :: "nat \<Rightarrow> world \<Rightarrow> world outcome" where
  "stop_request i W = with_obj i W (\<lambda>ob. Ok (W\<lparr>objs := (objs W)(i \<mapsto> ob\<lparr>stop_flag := True\<rparr>)\<rparr>))"

definition join_thread :: "nat \<Rightarrow> world \<Rightarrow> world option outcome" where
  "join_thread i W = with_obj i W (\<lambda>ob.
     case handle ob of
       None \<Rightarrow> Ok (Some W)
     | Some t \<Rightarrow> if running W t \<noteq> None then Ok None else Ok (Some (W\<lparr>objs := (objs W)(i \<mapsto> ob\<lparr>handle := None\<rparr>)\<rparr>)))"

definition move_construct :: "nat \<Rightarrow> nat \<Rightarrow> world \<Rightarrow> world outcome" where
  "move_construct new old W = with_obj old W (\<lambda>ob.
     Ok (W\<lparr>objs := (objs W)(new \<mapsto> ob, old \<mapsto> ob\<lparr>handle := None\<rparr>)\<rparr>))"

definition move_assign :: "nat \<Rightarrow> nat \<Rightarrow> world \<Rightarrow> world outcome" where
  "move_assign dst old W = with_obj old W (\<lambda>ob. with_obj dst W (\<lambda>mine.
     if handle mine \<noteq> None then Abort
     else Ok (W\<lparr>objs := (objs W)(dst \<mapsto> ob, old \<mapsto> ob\<lparr>handle := None\<rparr>)\<rparr>)))"

text \<open>A turn of the busy loop of a thread: it ends when it sees the flag of its object.\<close>

definition poll :: "nat \<Rightarrow> world \<Rightarrow> world outcome" where
  "poll t W =
     (case running W t of
        None \<Rightarrow> Ok W
      | Some i \<Rightarrow> with_obj i W (\<lambda>ob. if stop_flag ob then Ok (W\<lparr>running := (running W)(t := None)\<rparr>) else Ok W))"

text \<open>A program: the calls of the owner, and the turns of the threads in between.\<close>

datatype event = Construct nat | Start nat | Stop_Request nat | Move_Construct nat nat | Move_Assign nat nat | Poll nat

fun happen :: "event \<Rightarrow> world \<Rightarrow> world outcome" where
  "happen (Construct i) W = Ok (construct i W)"
| "happen (Start i) W = start_thread i W"
| "happen (Stop_Request i) W = stop_request i W"
| "happen (Move_Construct i j) W = move_construct i j W"
| "happen (Move_Assign i j) W = move_assign i j W"
| "happen (Poll t) W = poll t W"

fun happens :: "event list \<Rightarrow> world \<Rightarrow> world outcome" where
  "happens [] W = Ok W"
| "happens (e # es) W = bind_o (happen e W) (happens es)"

definition no_threads :: world where
  "no_threads = \<lparr>objs = Map.empty, running = Map.empty, next_thread = 0\<rparr>"

section \<open>Lemmas\<close>

text \<open>Every thread that runs was started by an object that still has it: what holds without moves.\<close>

definition owned :: "world \<Rightarrow> bool" where
  "owned W \<longleftrightarrow> (\<forall>t i. running W t = Some i \<longrightarrow> t < next_thread W \<and> (\<exists>ob. objs W i = Some ob \<and> handle ob = Some t))
     \<and> (\<forall>i ob t. objs W i = Some ob \<longrightarrow> handle ob = Some t \<longrightarrow> t < next_thread W \<and> (running W t = None \<or> running W t = Some i))"

fun keeps_owner :: "event \<Rightarrow> world \<Rightarrow> bool" where
  "keeps_owner (Construct i) W = (objs W i = None)"
| "keeps_owner (Move_Construct i j) W = False"
| "keeps_owner (Move_Assign i j) W = False"
| "keeps_owner _ W = True"

lemmas thread_ops = start_thread_def stop_request_def poll_def with_obj_def construct_def

lemma owned_no_threads: "owned no_threads"
  by (simp add: owned_def no_threads_def)

lemma owned_happen: "owned W \<Longrightarrow> keeps_owner e W \<Longrightarrow> happen e W = Ok W' \<Longrightarrow> owned W'"
proof (cases e)
  case (Start i)
  assume o: "owned W" "keeps_owner e W" "happen e W = Ok W'"
  then obtain ob where ob: "objs W i = Some ob" using Start by (auto simp: thread_ops split: option.splits)
  show ?thesis
  proof (cases "handle ob")
    case None
    with o Start ob have "W' = W\<lparr>objs := (objs W)(i \<mapsto> \<lparr>stop_flag = False, handle = Some (next_thread W)\<rparr>),
        running := (running W)(next_thread W \<mapsto> i), next_thread := next_thread W + 1\<rparr>" by (simp add: thread_ops)
    with o(1) ob None show ?thesis by (fastforce simp: owned_def)
  qed (use o Start ob in \<open>simp add: thread_ops\<close>)
qed (fastforce simp: owned_def thread_ops split: option.splits if_splits)+

text \<open>An object whose thread was told to stop: the thread still reads its flag, or has ended.\<close>

definition told_to_stop :: "nat \<Rightarrow> nat \<Rightarrow> world \<Rightarrow> bool" where
  "told_to_stop i t W \<longleftrightarrow> objs W i = Some \<lparr>stop_flag = True, handle = Some t\<rparr> \<and> t < next_thread W
     \<and> (running W t = None \<or> running W t = Some i)"

definition leaves_alone :: "nat \<Rightarrow> event \<Rightarrow> bool" where
  "leaves_alone i e \<longleftrightarrow> (case e of Construct j \<Rightarrow> j \<noteq> i | Move_Construct _ _ \<Rightarrow> False | Move_Assign _ _ \<Rightarrow> False | _ \<Rightarrow> True)"

lemma told_happen:
  assumes "told_to_stop i t W" "leaves_alone i e" "happen e W = Ok W'"
  shows "told_to_stop i t W' \<and> (running W t = None \<longrightarrow> running W' t = None) \<and> (e = Poll t \<longrightarrow> running W' t = None)"
  using assms
  by (cases e) (auto simp: told_to_stop_def leaves_alone_def thread_ops split: option.splits if_splits)

lemma told_happens:
  assumes "told_to_stop i t W" "list_all (leaves_alone i) es" "happens es W = Ok W'"
  shows "told_to_stop i t W' \<and> (running W t = None \<or> Poll t \<in> set es \<longrightarrow> running W' t = None)"
  using assms
proof (induction es arbitrary: W)
  case (Cons e es)
  then obtain W1 where W1: "happen e W = Ok W1" "happens es W1 = Ok W'" by (auto simp: bind_o_Ok_iff)
  with told_happen [OF Cons.prems(1) _ W1(1)] Cons.IH [OF _ _ W1(2)] Cons.prems(2) show ?case by auto
qed simp

section \<open>Properties\<close>

text \<open>
  Stopping a thread returns: once an object that was not moved has set its flag, whatever the other
  objects and threads do, a single turn of the busy loop of its thread is enough for the join to return;
  the object is then not joinable, and its thread has ended.
\<close>

theorem stop_returns:
  assumes "owned W" and "objs W i = Some ob" and "handle ob = Some t"
    and "happens (Stop_Request i # es) W = Ok W'" and "list_all (leaves_alone i) es" and "Poll t \<in> set es"
  shows "\<exists>W''. join_thread i W' = Ok (Some W'') \<and> running W'' t = None
    \<and> objs W'' i = Some \<lparr>stop_flag = True, handle = None\<rparr>"
proof -
  let ?W = "W\<lparr>objs := (objs W)(i \<mapsto> ob\<lparr>stop_flag := True\<rparr>)\<rparr>"
  have "told_to_stop i t ?W" using assms(1-3) by (cases ob) (auto simp: told_to_stop_def owned_def)
  moreover have "happens es ?W = Ok W'" using assms(2,4) by (simp add: thread_ops)
  ultimately have "told_to_stop i t W'" "running W' t = None" using told_happens assms(5,6) by blast+
  then show ?thesis by (simp add: join_thread_def with_obj_def told_to_stop_def)
qed

definition sample_world :: world where
  "sample_world = \<lparr>objs = [4 \<mapsto> \<lparr>stop_flag = False, handle = Some 0\<rparr>], running = [0 \<mapsto> 4], next_thread = 1\<rparr>"

lemma sample_world_reached: "happens [Construct 4, Start 4] no_threads = Ok sample_world"
  by (simp add: thread_ops no_threads_def sample_world_def)

theorem stop_returns_witness:
  "\<exists>W' W''. happens [Stop_Request 4, Poll 0] sample_world = Ok W' \<and> join_thread 4 W' = Ok (Some W'') \<and> running W'' 0 = None"
proof -
  have o: "owned sample_world" by (simp add: owned_def sample_world_def)
  have "\<exists>W'. happens [Stop_Request 4, Poll 0] sample_world = Ok W'" by (simp add: thread_ops sample_world_def)
  then obtain W' where W': "happens [Stop_Request 4, Poll 0] sample_world = Ok W'" ..
  have "objs sample_world 4 = Some \<lparr>stop_flag = False, handle = Some 0\<rparr>" by (simp add: sample_world_def)
  from stop_returns [OF o this _ W', of 0] W' show ?thesis by (auto simp: leaves_alone_def)
qed

text \<open>
  A thread that was started and whose object was then moved cannot be stopped any more: it reads the
  flag of the old object, the new one sets its own and waits in the join for ever.
\<close>

lemma moved_thread_unstoppable:
  assumes "i \<noteq> j" and "objs W i = Some \<lparr>stop_flag = False, handle = Some t\<rparr>" and "running W t = Some i"
    and "happens ([Move_Construct j i, Stop_Request j] @ map Poll ts) W = Ok W'"
  shows "join_thread j W' = Ok None"
proof -
  define stuck :: "world \<Rightarrow> bool" where "stuck V \<longleftrightarrow> (\<exists>ob. objs V i = Some ob \<and> \<not> stop_flag ob) \<and> running V t = Some i
    \<and> objs V j = Some \<lparr>stop_flag = True, handle = Some t\<rparr>" for V
  have step: "stuck V \<Longrightarrow> poll u V = Ok V' \<Longrightarrow> stuck V'" for V V' u
    by (cases "u = t") (auto simp: stuck_def poll_def with_obj_def split: option.splits if_splits)
  have run: "stuck V \<Longrightarrow> happens (map Poll us) V = Ok V' \<Longrightarrow> stuck V'" for V V' us
    by (induction us arbitrary: V) (auto simp: bind_o_Ok_iff dest: step)
  have "stuck W'"
    using assms by (intro run [of _ ts W']) (auto simp: stuck_def move_construct_def thread_ops bind_o_Ok_iff)
  then show ?thesis by (auto simp: stuck_def join_thread_def with_obj_def)
qed

end
