(* ===== verification/Processes.thy ===== *)
theory Processes
  imports Plugins Logger Supervisor Message_Worker
begin

text \<open>
  The processes of the system: the singleton of \<open>common/singleton_runner/authenticated_scan_server.*\<close>,
  its \<open>run_as\<close> for the worker, the broker and the supervisor, and their \<open>main\<close> functions
  (\<open>backend/cdcm_worker_process.cpp\<close>, \<open>frontend/cdcm_broker.cpp\<close>, \<open>supervisor/supervisor.cpp\<close>), with
  \<open>common/typedefs.hpp\<close> and the version check and the signals of \<open>common/zmq/zmq_helpers.cpp\<close>. The
  files of the configuration, the XML library, the loader and the shared memory of the machine are
  parameters or state. What is written to the log at the start is not modelled.
\<close>

section \<open>Version and signals\<close>

text \<open>The text with which the process exits, if the version of the library is too old.\<close>

definition version_assert :: "int \<times> int \<Rightarrow> int \<Rightarrow> int \<Rightarrow> string option" where
  "version_assert version want_major want_minor =
     (let (major, minor) = version
      in if major < want_major \<or> (major = want_major \<and> minor < want_minor)
         then Some (''Current 0MQ version is '' @ show_int major @ ''.'' @ show_int minor @ [CHR 0x0A] @
                    ''Application needs at least '' @ show_int want_major @ ''.'' @ show_int want_minor @
                    '' - cannot continue'' @ [CHR 0x0A])
         else None)"

definition SIGINT :: int where "SIGINT = 2"
definition SIGTERM :: int where "SIGTERM = 15"

record signals =
  caught :: "int set"
  was_interrupted :: bool

definition new_signals :: signals where
  "new_signals = \<lparr>caught = {}, was_interrupted = False\<rparr>"

definition signal_handler :: "signals \<Rightarrow> signals" where
  "signal_handler P = P\<lparr>was_interrupted := True\<rparr>"

definition catch_signals :: "signals \<Rightarrow> signals" where
  "catch_signals P = P\<lparr>caught := caught P \<union> {SIGINT, SIGTERM}\<rparr>"

text \<open>One of these two signals arrives; a process that does not catch it is ended by it.\<close>

definition deliver :: "int \<Rightarrow> signals \<Rightarrow> signals option" where
  "deliver sig P = (if sig \<in> caught P then Some (signal_handler P) else None)"

section \<open>The shared memory\<close>

text \<open>
  A segment lives as long as a process maps it; removing its file takes its name away only.
  \<open>size_ok\<close> tells which sizes a new segment can have.
\<close>

record shm =
  shm_names :: "string \<rightharpoonup> nat"
  segments :: "nat \<Rightarrow> element list"
  next_segment :: nat

definition get_or_create :: "(64 word \<Rightarrow> bool) \<Rightarrow> string \<Rightarrow> 64 word \<Rightarrow> 64 word \<Rightarrow> shm \<Rightarrow> (nat \<times> int) option \<times> shm" where
  "get_or_create size_ok name size_v idle_v M =
     (case shm_names M name of
        Some g \<Rightarrow> (Some (g, uint idle_v), M)
      | None \<Rightarrow>
          if \<not> size_ok size_v then (None, M)
          else (Some (next_segment M, uint idle_v),
                M\<lparr>shm_names := (shm_names M)(name \<mapsto> next_segment M), segments := (segments M)(next_segment M := []),
                  next_segment := next_segment M + 1\<rparr>))"

definition remove_shm :: "string \<Rightarrow> shm \<Rightarrow> shm" where
  "remove_shm name M = M\<lparr>shm_names := (shm_names M)(name := None)\<rparr>"

section \<open>The singleton\<close>

definition conf_root :: string where "conf_root = ''/etc/cdcm/''"
definition MB_int :: "32 word" where "MB_int = 1024 * 1024"

record app =
  app_conf :: cdcm_settings
  app_repo :: "configuration dispatcher"
  app_sessions :: "(nat \<times> int) option"
  app_actions :: "action dispatcher"
  app_logger :: "logger option"
  app_source :: logger_source

text \<open>The product is taken in 32 bits before it becomes a size.\<close>

definition segment_size :: "cdcm_settings \<Rightarrow> 64 word" where
  "segment_size c = ucast (session_cache_size c * MB_int)"

definition new_logger_source :: logger_source where
  "new_logger_source = \<lparr>src = Source_Tester, source_id = 0, str_id = None\<rparr>"

definition authenticated_scan_server ::
  "(string \<Rightarrow> json outcome) \<Rightarrow> cdcm_settings \<Rightarrow> (64 word \<Rightarrow> bool) \<Rightarrow> shm \<Rightarrow> (app \<times> shm) outcome" where
  "authenticated_scan_server files garbage size_ok M =
     bind_o (files (conf_root @ ''/cdcm_settings.json'')) (\<lambda>v.
     bind_o (settings_as garbage v) (\<lambda>c.
       let (s, M') = get_or_create size_ok ''sessions'' (segment_size c) (ucast (session_idle_time c)) M
       in Ok (\<lparr>app_conf = c, app_repo = register1 conf_name (Settings_Conf c) empty_dispatcher, app_sessions = s,
               app_actions = empty_dispatcher, app_logger = None, app_source = new_logger_source\<rparr>, M')))"

text \<open>An operation on the cache of the process; the pointer is not checked.\<close>

definition on_cache :: "app \<Rightarrow> (sessions_cache \<Rightarrow> 'r \<times> sessions_cache) \<Rightarrow> shm \<Rightarrow> ('r \<times> shm) outcome" where
  "on_cache A f M =
     (case app_sessions A of
        None \<Rightarrow> UB
      | Some (g, t) \<Rightarrow>
          (let (r, C) = f \<lparr>elements = segments M g, idle_timeout = t\<rparr> in Ok (r, M\<lparr>segments := (segments M)(g := elements C)\<rparr>)))"

definition app_get_session :: "(string \<Rightarrow> 128 word option) \<Rightarrow> int \<Rightarrow> string \<Rightarrow> app \<Rightarrow> shm \<Rightarrow> (session option \<times> shm) outcome" where
  "app_get_session stu now sid A M = on_cache A (get_session stu now sid) M"

section \<open>The three processes\<close>

definition start_logger :: "'t xml_lib \<Rightarrow> 64 word list \<Rightarrow> log_source \<Rightarrow> 64 word \<Rightarrow> app \<Rightarrow> app outcome" where
  "start_logger X levels s i A =
     bind_o (Initialize X conf_root (set_source s i (app_source A)) levels) (\<lambda>(ok, G, S).
       if \<not> ok then Abort else Ok (A\<lparr>app_logger := Some G, app_source := S\<rparr>))"

text \<open>
  The worker: the logger, the plugins of the configured directory, and the thread of \<open>worker_loop\<close>
  (the argument \<open>loop\<close>, of the actions and the settings). When it has ended, the list of the
  libraries goes out of scope and closes them; the actions stay registered.
\<close>

definition run_as_worker ::
  "'t xml_lib \<Rightarrow> 64 word list \<Rightarrow> dl_env \<Rightarrow> (string \<Rightarrow> string list option) \<Rightarrow> (action dispatcher \<Rightarrow> cdcm_settings \<Rightarrow> 'r outcome)
    \<Rightarrow> 64 word \<Rightarrow> app \<Rightarrow> ('r \<times> shared_library list \<times> app) outcome" where
  "run_as_worker X levels DL dirs loop i A =
     bind_o (start_logger X levels Source_Worker i A) (\<lambda>A1.
     bind_o (load_plugins DL (dirs (plugins_dir (app_conf A1))) (app_actions A1)) (\<lambda>(sl_vec, d, _).
     bind_o (loop d (app_conf A1)) (\<lambda>r. Ok (r, map close_lib sl_vec, A1\<lparr>app_actions := d\<rparr>))))"

text \<open>What the constructor of \<open>message_worker\<close> takes from the settings; intervals in milliseconds.\<close>

definition settings_env :: "cdcm_settings \<Rightarrow> action dispatcher \<Rightarrow> worker_env \<Rightarrow> worker_env" where
  "settings_env c d E = E\<lparr>w_actions := d, w_heartbeat := sint (heartbeat_interval_s c) * 1000,
     heartbeat_liveness := ucast (heartbeat_liveness_s c), action_postpone_dur := sint (action_postpone_dur_ms c),
     action_retries_on_postpone := action_retries c\<rparr>"

text \<open>
  \<open>main\<close> of the worker, up to the end of \<open>run_as\<close>. The singleton is made before the number is read
  from the argument; without an argument a null pointer is read. \<open>Inl\<close> is the exit of the version check.
\<close>

definition worker_main ::
  "int \<times> int \<Rightarrow> (string \<Rightarrow> json outcome) \<Rightarrow> cdcm_settings \<Rightarrow> (64 word \<Rightarrow> bool) \<Rightarrow> 't xml_lib \<Rightarrow> 64 word list \<Rightarrow> dl_env
    \<Rightarrow> (string \<Rightarrow> string list option) \<Rightarrow> (action dispatcher \<Rightarrow> cdcm_settings \<Rightarrow> 'r outcome) \<Rightarrow> string option \<Rightarrow> shm
    \<Rightarrow> (string + ('r \<times> shared_library list \<times> app) \<times> shm) outcome" where
  "worker_main version files garbage size_ok X levels DL dirs loop argv1 M =
     (case version_assert version 4 0 of
        Some t \<Rightarrow> Ok (Inl t)
      | None \<Rightarrow>
          bind_o (authenticated_scan_server files garbage size_ok M) (\<lambda>(A, M1).
            case argv1 of
              None \<Rightarrow> UB
            | Some t \<Rightarrow> bind_o (stoul t) (\<lambda>i. bind_o (run_as_worker X levels DL dirs loop i A) (\<lambda>r. Ok (Inr (r, M1))))))"

text \<open>The broker, up to where the threads of the loop and of the maintenance start.\<close>

definition broker_main ::
  "int \<times> int \<Rightarrow> (string \<Rightarrow> json outcome) \<Rightarrow> cdcm_settings \<Rightarrow> (64 word \<Rightarrow> bool) \<Rightarrow> 't xml_lib \<Rightarrow> 64 word list \<Rightarrow> shm
    \<Rightarrow> (string + app \<times> shm) outcome" where
  "broker_main version files garbage size_ok X levels M =
     (case version_assert version 4 0 of
        Some t \<Rightarrow> Ok (Inl t)
      | None \<Rightarrow>
          bind_o (authenticated_scan_server files garbage size_ok M) (\<lambda>(A, M1).
          bind_o (start_logger X levels Source_Broker 0 A) (\<lambda>A1. Ok (Inr (A1, M1)))))"

text \<open>
  The supervisor: it removes the files of the lock and of the cache before its own singleton makes
  the cache again, and starts the broker and the configured number of workers.
\<close>

definition supervisor_main ::
  "(string \<Rightarrow> json outcome) \<Rightarrow> cdcm_settings \<Rightarrow> (64 word \<Rightarrow> bool) \<Rightarrow> 't xml_lib \<Rightarrow> 64 word list \<Rightarrow> bool \<Rightarrow> (nat \<Rightarrow> bool) \<Rightarrow> shm
    \<Rightarrow> (supervisor \<times> app \<times> shm) outcome" where
  "supervisor_main files garbage size_ok X levels broker_started started M =
     bind_o (authenticated_scan_server files garbage size_ok (remove_shm ''sessions'' (remove_shm ''sessions_lock'' M))) (\<lambda>(A, M1).
     bind_o (start_logger X levels Source_Supervisor 0 A) (\<lambda>A1.
       Ok (supervisor_run (unat (worker_processes (app_conf A1))) broker_started started, A1, M1)))"

section \<open>Lemmas\<close>

text \<open>The number of a worker as text, and back.\<close>

lemma digits_value_snoc: "digits_value (ds @ [c]) = digits_value ds * 10 + (of_char c - 48)"
  by (simp add: digits_value_def)

lemma digit_is_digit: "d < 10 \<Longrightarrow> isdigit (digit_char d) \<and> (of_char (digit_char d) :: int) = 48 + int d"
proof -
  assume d: "d < 10"
  have "\<forall>d \<in> set [0..<10]. isdigit (digit_char d)" by code_simp
  with d have "isdigit (digit_char d)" by simp
  moreover have "(of_char (digit_char d) :: int) = int (of_char (digit_char d) :: nat)" by (metis of_nat_of_char)
  ultimately show ?thesis using d of_char_digit [of d] by simp
qed

lemma show_digits: "list_all isdigit (show_base 10 n) \<and> digits_value (show_base 10 n) = int n"
proof (induction n rule: less_induct)
  case (less n)
  show ?case
  proof (cases "n < 10")
    case True
    with digit_is_digit [OF True] show ?thesis by (simp add: show_base.simps [of 10 n] digits_value_def)
  next
    case False
    then have "n div 10 < n" by simp
    moreover have "int (n div 10) * 10 + int (n mod 10) = int n"
      by (metis div_mult_mod_eq of_nat_add of_nat_mult of_nat_numeral)
    ultimately show ?thesis using less.IH [of "n div 10"] digit_is_digit [of "n mod 10"] False
      by (simp add: show_base.simps [of 10 n] digits_value_snoc)
  qed
qed

lemma isdigit_props: "isdigit c \<Longrightarrow> \<not> isspace c \<and> c \<noteq> CHR ''-'' \<and> c \<noteq> CHR ''+'' \<and> c \<noteq> CHR 0x00"
  by (auto simp: isdigit_def isspace_def)

lemma stoul_to_string:
  assumes "n < 2 ^ 64"
  shows "stoul (to_string_nat n) = Ok (of_nat n)"
proof -
  have d: "list_all isdigit (to_string_nat n)" "digits_value (to_string_nat n) = int n"
    using show_digits [of n] by (simp_all add: to_string_nat_def)
  obtain c cs where c: "to_string_nat n = c # cs" by (metis list.exhaust show_base_nonempty to_string_nat_def)
  have nul: "nul_free (to_string_nat n)" using d(1) isdigit_props by (auto simp: nul_free_def list_all_iff)
  have "isdigit c" and tw: "takeWhile isdigit cs = cs"
    using d(1) c by (auto simp: takeWhile_eq_all_conv list_all_iff)
  with isdigit_props [of c] c d(2) nul have "strto (to_string_nat n) = Some (False, int n)"
    by (simp add: strto_def tw)
  with assms show ?thesis by (simp add: stoul_def)
qed

lemma segment_size_mod: "unat (segment_size c) = unat (session_cache_size c) mod 4096 * 2 ^ 20"
proof -
  have "x mod 2 ^ 32 < 2 ^ 64" for x :: nat
    by (rule order_less_trans [OF mod_less_divisor]) simp_all
  then have "unat (segment_size c) = unat (session_cache_size c) * 2 ^ 20 mod 2 ^ 32"
    by (simp add: segment_size_def MB_int_def unsigned_ucast_eq unat_word_ariths take_bit_nat_eq_self)
  then show ?thesis using mod_mult_mult2 [of "unat (session_cache_size c)" "2 ^ 20" 4096] by simp
qed

text \<open>The cache that a process finds or makes.\<close>

lemma server_cache:
  assumes "authenticated_scan_server files garbage size_ok M = Ok (A, M')"
  obtains size_v t where "get_or_create size_ok ''sessions'' size_v t M = (app_sessions A, M')"
    "app_source A = new_logger_source"
proof -
  obtain c where c: "(let (s, M1) = get_or_create size_ok ''sessions'' (segment_size c) (ucast (session_idle_time c)) M
      in Ok (\<lparr>app_conf = c, app_repo = register1 conf_name (Settings_Conf c) empty_dispatcher, app_sessions = s,
        app_actions = empty_dispatcher, app_logger = None, app_source = new_logger_source\<rparr>, M1)) = Ok (A, M')"
    using assms by (auto simp: authenticated_scan_server_def bind_o_Ok_iff)
  obtain s1 M1 where g: "get_or_create size_ok ''sessions'' (segment_size c) (ucast (session_idle_time c)) M = (s1, M1)" by fastforce
  with c that [of "segment_size c" "ucast (session_idle_time c)"] show thesis by auto
qed

lemma get_or_create_there:
  "get_or_create size_ok n size_v t M = (Some (g, i), M') \<Longrightarrow> shm_names M' n = Some g"
  "get_or_create size_ok n size_v t M = (Some (g, i), M') \<Longrightarrow> shm_names M n = None \<Longrightarrow> segments M' g = []"
  "shm_names M n = Some g \<Longrightarrow> get_or_create size_ok n size_v t M = (Some (g, uint t), M)"
  by (auto simp: get_or_create_def split: option.splits if_splits)

text \<open>The names of the log files of a worker.\<close>

definition worker_file :: "string \<Rightarrow> file_sink \<Rightarrow> bool" where
  "worker_file i k \<longleftrightarrow> (\<exists>p n. fs_name k = p @ ''/'' @ n @ ''worker'' @ i @ ''.log.%N'')"

definition source_of :: "64 word \<Rightarrow> logger_source \<Rightarrow> bool" where
  "source_of w S \<longleftrightarrow> src S = Source_Worker \<and> source_id S = w \<and> (str_id S = None \<or> str_id S = Some (to_string_nat (unat w)))"

lemma register_sinks_names:
  "w \<noteq> 0 \<Longrightarrow> source_of w S \<Longrightarrow> list_all (worker_file (to_string_nat (unat w))) (file_sinks G) \<Longrightarrow>
   register_sinks vs S G = (ok, G', S') \<Longrightarrow> source_of w S' \<and> list_all (worker_file (to_string_nat (unat w))) (file_sinks G')"
proof (induction vs arbitrary: S G)
  case (Cons v vs)
  obtain H T where a: "add_file_sink v S G = (H, T)" by fastforce
  then obtain k where "source_of w T" "file_sinks H = file_sinks G @ [k]"
    "fs_name k = snk_path v @ ''/'' @ snk_name v @ ''worker'' @ to_string_nat (unat w) @ ''.log.%N''"
    using Cons.prems(1,2) by (auto simp: add_file_sink_def get_source_id_def source_of_def Let_def split: option.splits)
  moreover from this(3) have "worker_file (to_string_nat (unat w)) k" unfolding worker_file_def by blast
  ultimately have "source_of w T \<and> list_all (worker_file (to_string_nat (unat w))) (file_sinks H)"
    using Cons.prems(3) by simp
  with Cons a show ?case by (auto split: if_splits)
qed simp

lemma register_modules_sinks: "register_modules ms G = Ok G' \<Longrightarrow> file_sinks G' = file_sinks G"
  by (induction ms arbitrary: G) (fastforce split: if_splits)+

lemma banner_sinks: "file_sinks (foldl (\<lambda>H t. boost_log_sev l t H) G ts) = file_sinks G"
  by (induction ts arbitrary: G) (simp_all add: boost_log_sev_def)

lemma Initialize_names:
  assumes "w \<noteq> 0" "Initialize X root (set_source Source_Worker w new_logger_source) levels = Ok (True, G, S)"
  shows "source_of w S \<and> list_all (worker_file (to_string_nat (unat w))) (file_sinks G)"
proof -
  let ?S = "set_source Source_Worker w new_logger_source"
  from assms(2) obtain G' where i: "internal_init X root ?S (new_logger levels) = Ok (True, G', S)" "file_sinks G = file_sinks G'"
    by (auto simp: Initialize_def logger_init_def bind_o_Ok_iff new_logger_def)
  from i(1) obtain conf :: logger_configuration and G2 :: logger where m: "file_sinks G2 = []"
    and c: "(let (ok, G3, S3) = register_sinks (sinks_conf conf) ?S G2
       in if \<not> ok then Ok (False, G3, S3) else Ok (True, foldl (\<lambda>H t. boost_log_sev error t H) G3 banner, S3)) = Ok (True, G', S)"
    by (auto simp: internal_init_def bind_o_Ok_iff new_logger_def Let_def dest!: register_modules_sinks split: if_splits)
  obtain ok G3 S3 where r: "register_sinks (sinks_conf conf) ?S G2 = (ok, G3, S3)" by (metis prod_cases3)
  with c i(2) have f: "file_sinks G = file_sinks G3" "S = S3" by (auto simp: banner_sinks split: if_splits)
  have "source_of w ?S" by (simp add: source_of_def set_source_def new_logger_source_def)
  moreover have "list_all (worker_file (to_string_nat (unat w))) (file_sinks G2)"
    using m by simp
  ultimately show ?thesis using register_sinks_names [OF assms(1) _ _ r] f by simp
qed

section \<open>Properties\<close>

text \<open>
  The size of the shared cache: the configured number of megabytes is multiplied in 32 bits, so that
  the segment has the configured size exactly if it is less than 4096 MB, and otherwise the rest of
  its division by 4096 MB.
\<close>

theorem cache_size_wraps:
  "unat (segment_size c) = unat (session_cache_size c) mod 4096 * 2 ^ 20
    \<and> (unat (segment_size c) = unat (session_cache_size c) * 2 ^ 20) = (unat (session_cache_size c) < 4096)"
  by (auto simp: segment_size_mod)

text \<open>
  A worker that the supervisor starts under the name \<open>i\<close> reads its number back from its argument:
  it logs as worker \<open>i\<close>, into files of its own. When it ends, the libraries of its plugins are closed
  while their actions are still registered.
\<close>

theorem worker_keeps_its_number:
  assumes "1 \<le> i" and "i < 2 ^ 64"
    and "worker_main version files garbage size_ok X levels DL dirs loop (Some (to_string_nat i)) M = Ok (Inr ((r, libs, A), M'))"
  shows "src (app_source A) = Source_Worker \<and> source_id (app_source A) = of_nat i
    \<and> (\<exists>G. app_logger A = Some G \<and> list_all (worker_file (to_string_nat i)) (file_sinks G))
    \<and> list_all (\<lambda>L. \<not> opened L) libs"
proof -
  define w :: "64 word" where "w = of_nat i"
  have w: "unat w = i" using assms(2) by (simp add: w_def unat_of_nat)
  with assms(1) have w0: "w \<noteq> 0" by auto
  from assms(3) obtain A0 M1 where A0: "authenticated_scan_server files garbage size_ok M = Ok (A0, M1)"
    and run: "run_as_worker X levels DL dirs loop w A0 = Ok (r, libs, A)"
    by (auto simp: worker_main_def bind_o_Ok_iff stoul_to_string [OF assms(2)] w_def split: option.splits)
  from A0 have "app_source A0 = new_logger_source" by (rule server_cache)
  with run obtain G S sl_vec where
    G: "Initialize X conf_root (set_source Source_Worker w new_logger_source) levels = Ok (True, G, S)"
      "app_logger A = Some G" "app_source A = S" "libs = map close_lib sl_vec"
    by (auto simp: run_as_worker_def start_logger_def bind_o_Ok_iff split: prod.splits if_splits)
  from Initialize_names [OF w0 G(1)] G(2-4) w show ?thesis
    by (auto simp: source_of_def w_def list_all_iff close_lib_def opened_def)
qed

definition sample_files :: "string \<Rightarrow> json outcome" where
  "sample_files f = Ok (JObj [(''cdcm'', JObj [])])"

definition sample_settings :: cdcm_settings where
  "sample_settings = \<lparr>session_cache_size = 10, session_idle_time = 60, heartbeat_liveness_s = 3, heartbeat_interval_s = 1, reconnect = 1,
     heartbeat_expiry_set = 5, action_postpone_dur_ms = 5, action_retries = 2, worker_processes = 2, broker_client_listen_ep = [],
     broker_worker_listen_ep = [], worker_connect_ep = [], downloaded_files_path = [], maintenance_interval = 1, plugins_dir = ''/p'',
     cdcm_version_s = []\<rparr>"

definition no_shm :: shm where
  "no_shm = \<lparr>shm_names = Map.empty, segments = (\<lambda>_. []), next_segment = 0\<rparr>"

definition sample_worker_main :: "string \<Rightarrow> (string + (nat \<times> shared_library list \<times> app) \<times> shm) outcome" where
  "sample_worker_main i = worker_main (4, 3) sample_files sample_settings (\<lambda>n. n \<noteq> 0) sample_xml (replicate 9 0) sample_dl
     (\<lambda>_. None) (\<lambda>d c. Ok 0) (Some i) no_shm"

theorem worker_keeps_its_number_witness:
  "\<exists>r libs A M'. sample_worker_main (to_string_nat 7) = Ok (Inr ((r, libs, A), M')) \<and> source_id (app_source A) = 7"
proof -
  have "(case sample_worker_main (to_string_nat 7) of Ok (Inr ((r, libs, A), M')) \<Rightarrow> True | _ \<Rightarrow> False)" by code_simp
  then obtain r libs A M' where
    w: "sample_worker_main (to_string_nat 7) = Ok (Inr ((r, libs, A), M'))" by (auto split: outcome.splits sum.splits)
  from worker_keeps_its_number [OF _ _ w [unfolded sample_worker_main_def]] w show ?thesis by auto
qed

text \<open>
  C15. After a start of the supervisor no session of an earlier run is found. The processes started
  since then have one cache: what the broker adds, a worker finds under the identifier the broker
  answered with.
\<close>

theorem processes_share_sessions:
  assumes "supervisor_main fs gs size_ok X levels started_b started_w M0 = Ok (V, As, M1)" and "app_sessions As \<noteq> None"
    and "authenticated_scan_server fb gb size_ok M1 = Ok (Ab, M2)" and "authenticated_scan_server fw gw size_ok M2 = Ok (Aw, M3)"
    and "nul_free (remote s)" and "nul_free (idstr uts s)" and "stu (idstr uts s) = Some (uuid s)"
  shows "(\<forall>sid now. fst ` {x. app_get_session stu now sid Aw M3 = Ok x} = {None})
    \<and> (\<exists>M4 M5. on_cache Ab (add uts now No_Fault s) M3 = Ok (True, M4)
        \<and> app_get_session stu now' (idstr uts s) Aw M4 = Ok (Some s, M5))"
proof -
  let ?M = "remove_shm ''sessions'' (remove_shm ''sessions_lock'' M0)"
  from assms(1) obtain A0 where A0: "authenticated_scan_server fs gs size_ok ?M = Ok (A0, M1)" "app_sessions A0 = app_sessions As"
    by (auto simp: supervisor_main_def start_logger_def bind_o_Ok_iff split: prod.splits if_splits)
  obtain z0 t0 where c0: "get_or_create size_ok ''sessions'' z0 t0 ?M = (app_sessions A0, M1)" using A0(1) by (rule server_cache)
  obtain g i where g: "app_sessions A0 = Some (g, i)" using assms(2) A0(2) by (cases "app_sessions A0") auto
  have "shm_names ?M ''sessions'' = None" by (simp add: remove_shm_def)
  with get_or_create_there(1,2) c0 g have M1: "shm_names M1 ''sessions'' = Some g" "segments M1 g = []" by metis+
  obtain zb tb where cb: "get_or_create size_ok ''sessions'' zb tb M1 = (app_sessions Ab, M2)" using assms(3) by (rule server_cache)
  with get_or_create_there(3) [OF M1(1)] have b: "app_sessions Ab = Some (g, uint tb)" "M2 = M1" by auto
  obtain zw tw where "get_or_create size_ok ''sessions'' zw tw M2 = (app_sessions Aw, M3)" using assms(4) by (rule server_cache)
  with get_or_create_there(3) [OF M1(1)] b(2) have w: "app_sessions Aw = Some (g, uint tw)" "M3 = M1" by auto
  have "app_get_session stu t sid Aw M3 = Ok (None, M1\<lparr>segments := (segments M1)(g := [])\<rparr>)" for t sid
    by (simp add: app_get_session_def on_cache_def w M1 get_session_def get_session_by_def lookup_by_def)
  then have none: "\<forall>sid now. fst ` {x. app_get_session stu now sid Aw M3 = Ok x} = {None}" by auto
  let ?e = "new_element now (uint tb) (convert_to_shared uts s)"
  have "on_cache Ab (add uts now No_Fault s) M3 = Ok (True, M1\<lparr>segments := (segments M1)(g := [?e])\<rparr>)"
    by (simp add: on_cache_def b w M1 add_def add_shared_def insert_element_def erase_by_def)
  moreover have "fst (get_session stu now' (idstr uts s) \<lparr>elements = [?e], idle_timeout = uint tw\<rparr>) = Some s"
  proof -
    have "element_id ?e = idstr uts s" by (simp add: idstr_def)
    with assms(6,7) convert_roundtrip [of stu uts s] show ?thesis
      by (simp add: get_session_def get_session_by_def lookup_by_def new_element_def idstr_def)
  qed
  ultimately show ?thesis using none
    by (auto simp: app_get_session_def on_cache_def w M1 split: prod.splits)
qed

definition sample_supervisor_main :: "shm \<Rightarrow> (supervisor \<times> app \<times> shm) outcome" where
  "sample_supervisor_main M = supervisor_main sample_files sample_settings (\<lambda>n. n \<noteq> 0) sample_xml (replicate 9 0) True (\<lambda>_. True) M"

definition sample_app :: "shm \<Rightarrow> (app \<times> shm) outcome" where
  "sample_app M = authenticated_scan_server sample_files sample_settings (\<lambda>n. n \<noteq> 0) M"

definition session_seven :: session where
  "session_seven = new_session 7 ''host'' no_credentials"

theorem processes_share_sessions_witness:
  "\<exists>Ab Aw M3 M4 M5. on_cache Ab (add (\<lambda>u. ''u7'') 10 No_Fault session_seven) M3 = Ok (True, M4)
    \<and> app_get_session (\<lambda>t. Some 7) 20 ''u7'' Aw M4 = Ok (Some session_seven, M5)"
proof -
  have ok: "(case sample_supervisor_main no_shm of Ok (V, A, M) \<Rightarrow>
      app_sessions A \<noteq> None \<and> is_ok (sample_app M) | _ \<Rightarrow> False)" by code_simp
  then obtain V As M1 where s: "sample_supervisor_main no_shm = Ok (V, As, M1)" "app_sessions As \<noteq> None" "is_ok (sample_app M1)"
    by (auto split: outcome.splits)
  from s(3) obtain Ab M2 where b: "sample_app M1 = Ok (Ab, M2)" by (auto simp: is_ok_iff)
  have "is_ok (sample_app M2)"
    by (simp add: sample_app_def authenticated_scan_server_def sample_files_def settings_as_def json_at_def map_at_def optional_as_def
        Let_def split: prod.split)
  then obtain Aw M3 where w: "sample_app M2 = Ok (Aw, M3)" by (auto simp: is_ok_iff)
  have "nul_free (remote session_seven)" "nul_free (idstr (\<lambda>u. ''u7'') session_seven)"
      "(\<lambda>t. Some 7) (idstr (\<lambda>u. ''u7'') session_seven) = Some (uuid session_seven)"
    by (simp_all add: session_seven_def new_session_def idstr_def)
  from conjunct2 [OF processes_share_sessions [OF s(1) [unfolded sample_supervisor_main_def] s(2) b [unfolded sample_app_def]
        w [unfolded sample_app_def] this, of 10 20]]
  show ?thesis unfolding idstr_def by blast
qed

text \<open>
  A supervisor that is started again while the broker of the run before lives on makes a new segment:
  the broker goes on with the old one, and a worker started from then on does not find its sessions.
\<close>

lemma restart_splits_cache:
  assumes "supervisor_main fs gs size_ok X levels started_b started_w M0 = Ok (V, As, M1)" and "app_sessions As \<noteq> None"
    and "app_sessions Ab = Some (g, t)" and "g < next_segment M0"
    and "authenticated_scan_server fw gw size_ok M1 = Ok (Aw, M2)"
  shows "\<exists>g' t'. app_sessions Aw = Some (g', t') \<and> g' \<noteq> g \<and> segments M2 g' = [] \<and> segments M2 g = segments M0 g"
proof -
  let ?M = "remove_shm ''sessions'' (remove_shm ''sessions_lock'' M0)"
  from assms(1) obtain A0 where A0: "authenticated_scan_server fs gs size_ok ?M = Ok (A0, M1)" "app_sessions A0 = app_sessions As"
    by (auto simp: supervisor_main_def start_logger_def bind_o_Ok_iff split: prod.splits if_splits)
  obtain z0 t0 where c0: "get_or_create size_ok ''sessions'' z0 t0 ?M = (app_sessions A0, M1)" using A0(1) by (rule server_cache)
  then have M1: "shm_names M1 ''sessions'' = Some (next_segment M0)" "segments M1 (next_segment M0) = []" "segments M1 g = segments M0 g"
    using assms(2,4) A0(2) by (auto simp: get_or_create_def remove_shm_def split: if_splits)
  obtain zw tw where "get_or_create size_ok ''sessions'' zw tw M1 = (app_sessions Aw, M2)" using assms(5) by (rule server_cache)
  with get_or_create_there(3) [OF M1(1), of size_ok zw tw] have "app_sessions Aw = Some (next_segment M0, uint tw)" "M2 = M1" by simp_all
  with M1 assms(4) show ?thesis by simp
qed

text \<open>A cache of 4096 MB has no size; the null pointer is used when the first session is looked up.\<close>

lemma huge_cache_undefined:
  assumes "authenticated_scan_server files garbage (\<lambda>n. n \<noteq> 0) M = Ok (A, M')" "shm_names M ''sessions'' = None"
    and "unat (session_cache_size (app_conf A)) mod 4096 = 0"
  shows "app_get_session stu now sid A M' = UB"
proof -
  obtain v c where c: "files (conf_root @ ''/cdcm_settings.json'') = Ok v" "settings_as garbage v = Ok c"
    using assms(1) by (auto simp: authenticated_scan_server_def bind_o_Ok_iff)
  have "app_conf A = c"
    using assms(1) c by (auto simp: authenticated_scan_server_def Let_def split: prod.splits)
  with assms(3) have "unat (segment_size c) = 0" by (simp add: segment_size_mod)
  then have "segment_size c = 0" by (simp add: unat_eq_0)
  with assms(1,2) c show ?thesis
    by (auto simp: authenticated_scan_server_def get_or_create_def app_get_session_def on_cache_def)
qed

text \<open>The supervisor never calls \<open>catch_signals\<close>: a signal to end it ends it, without a word to its children.\<close>

lemma supervisor_not_graceful:
  "deliver SIGTERM new_signals = None" "deliver SIGTERM (catch_signals new_signals) = Some \<lparr>caught = {SIGINT, SIGTERM}, was_interrupted = True\<rparr>"
  by (simp_all add: deliver_def new_signals_def catch_signals_def signal_handler_def)

end
