(* ===== verification/Spec2Isabelle.thy ===== *)
theory Spec2Isabelle
  imports Broker_Liveness Message_Worker Maintenance Supervisor Registry_Actions Wildcards_Loops File_Info Pe_Nodes
    Permission_Actions Logger Cache_Interleaving Plugins Inproc_Cache Observer Threads Processes
begin

text \<open>
  A model of the credentialed data collection module (CDCM) of this repository, with the theorems that
  make it correct. File names are relative to \<open>src/src\<close>.

  \<^bold>\<open>The program.\<close> A supervisor starts one broker and a pool of workers. Clients speak the majordomo
  protocol to the broker over ZeroMQ; a request is a JSON text with a header, which names a session,
  and a list of actions. The broker answers three actions itself (start and close a session, the
  version) and hands all others to workers, which find the session in a cache in shared memory,
  run the action against the Windows host of the session through Samba's libraries, and reply through
  the broker. An action whose pipe is busy is postponed by the worker and tried again. The broker also
  cleans the cache and the downloaded files from time to time.

  \<^bold>\<open>Theories and sources.\<close>
  \<^item> \<open>Cdcm_Prelude\<close>: results of C++ calls (a value, an exception, a failed assertion, undefined
    behaviour), C strings, numbers as text, lists searched by a key, and the interface of a keyed
    store, which the dispatcher, the worker table, the sessions cache and the queue of postponed
    actions interpret.
  \<^item> \<open>Protocol\<close> (common/protocol, common/zmq/mdp.hpp), \<open>Action_Messages\<close> (the readers of the messages in
    the headers of the actions), \<open>Action_Answers\<close> (what the actions' ends share), \<open>Zmq_Message\<close>
    (common/zmq/zmq_message.*), \<open>Dispatcher\<close> (common/dispatcher.hpp, action.hpp).
  \<^item> \<open>Session_Cache\<close> (common/session.*, credentials.*, sessions_cache/shared_mem_*): each operation as one
    step; \<open>Cache_Interleaving\<close>: the same operations as their critical sections, run by several
    processes in any order; \<open>Inproc_Cache\<close>: the cache of a single process.
  \<^item> \<open>Frontend_Actions\<close> (frontend/actions), \<open>Worker_Container\<close>, \<open>Message_Broker\<close>, \<open>Broker_Liveness\<close>
    (frontend/worker_container.hpp, message_broker.*), \<open>Maintenance\<close> (frontend/maintenance.*, the
    identities and the sleep of common/zmq/zmq_helpers.*).
  \<^item> \<open>Postponed_Actions\<close>, \<open>Message_Worker\<close> (backend/utils/postponed_actions.hpp, backend/message_worker.*),
    \<open>Plugins\<close> (backend/utils/shared_library.hpp, action_manager.*).
  \<^item> \<open>Settings\<close>, \<open>Service_Configuration\<close>, \<open>Supervisor\<close> (supervisor/), \<open>Processes\<close> (the singleton
    authenticated_scan_server, the mains of the three processes, version check and signals).
  \<^item> \<open>Registry_Client\<close>, \<open>Registry_Actions\<close>, \<open>Smb_Client\<close>, \<open>Base64\<close>, \<open>Smb_Actions\<close>, \<open>Security_Descriptor\<close>,
    \<open>Rpc_Clients\<close>, \<open>Permission_Actions\<close>: the plugins of backend/services/samba_based; \<open>Wildcards\<close> and
    \<open>Wildcards_Loops\<close> (common/wildcards.hpp): the matcher of file names, as recursive functions on
    lists and as the loops on iterators that are compiled.
  \<^item> \<open>File_Reader\<close>, \<open>File_Mapper\<close>, \<open>Pe_Context\<close>, \<open>Pe_Resources\<close>, \<open>Pe_Nodes\<close>, \<open>File_Info\<close> (backend/utils and
    get_file_info): the version strings of a remote executable, read piece by piece; the interface of
    a file is a locale, interpreted by the local reader and by the SMB client.
  \<^item> \<open>Logger_Configuration\<close>, \<open>Logger\<close>, \<open>Observer\<close>, \<open>Threads\<close> (common/Logger).
  \<^item> This theory: the path of a request from the client to the worker and back.

  \<^bold>\<open>State and operations.\<close> A component's state is a record with the members of its class; an operation
  is a function that returns the updated state, in the type \<open>outcome\<close> where it can throw, abort or be
  undefined. The time, the choice among workers of equal expiry, random numbers and faults of
  allocation are values in records of the environment or of the state. Events of the sockets are
  lists of frames and interruptions. Workers that end and signals are the steps of a relation in
  \<open>Supervisor\<close>; interleaved processes are schedules of steps in \<open>Cache_Interleaving\<close> and \<open>Threads\<close>.

  \<^bold>\<open>What the theorems show.\<close> Broker and worker serve for ever on well-formed frames and keep their
  invariants; requests are dispatched, answered and delivered to the client that asked; a request
  that finds no worker is kept until one is ready. The sessions cache is unique by identifier and by
  host, its critical sections refine its operations, lookups may interleave freely, and cleaning may
  not. Plugins are registered under their names and their messages are typed by them; every plugin
  action answers. Files are delivered unchanged in Base64, directory listings are filtered by the
  language of the pattern, executables are parsed lazily without reading outside of the file and their nodes are freed once,
  descriptors are rendered entry by entry, and access masks are named exactly. The logger writes
  what its configuration asks for and removes passwords. Where the code does not do what it means
  to, the theorem states what it does.

  \<^bold>\<open>Loops and fuel.\<close> Loops are recursive functions with termination proofs: over the list that is
  left, over the length of the rest of a range, or over the number of actions that are due. The
  worker's receive loop takes the events of a turn as a list; \<open>worker_step\<close> has the number of turns
  of its loop over postponed actions as fuel, and \<open>worker_never_stops\<close> and \<open>postponed_loop_ends\<close> show
  that the runs left of the queue are enough. Machine integers are words where their width matters:
  codes, retries, sizes of the cache, access masks, levels of the logger. Loops along pointers of the
  heap (\<open>Pe_Nodes\<close>) are partial functions, and that they return is proved.

  \<^bold>\<open>Parameters.\<close> The JSON library, boost's UUIDs, ZeroMQ, asio and the dynamic loader, libsmbclient, the
  RPC and registry libraries of Samba, libpe and the XML reader are arguments of the definitions.
  What is assumed of them is named: \<open>env_ok\<close> and \<open>wenv_ok\<close> (printing returns, parsing returns or
  throws), \<open>json_link\<close>, \<open>uuid_lib_ok\<close>, \<open>serves\<close> and \<open>remote_file\<close> (the server has a file), \<open>winreg_reliable\<close>,
  \<open>rpc_lib_ok\<close>, \<open>sd_lib_ok\<close>.

  \<^bold>\<open>Not modelled.\<close> What only prints (\<open>dump\<close>, \<open>operator<<\<close> of the caches, the console), what is said to the
  log on the way, the boost back ends that write and rotate log files, the binding of sockets, the
  wide-character instances and the class \<open>matcher\<close> of wildcards.hpp, which no file uses, the macros of
  Enums.h and log_macros.hpp, the interface Timer.h, the empty FileSink.h and client.hpp, the tests
  and the build files. Memory faults are modelled in the insertion into the shared cache only, and
  strings of JSON are lists of bytes.
\<close>

section \<open>From the client to the worker and back\<close>

lemma sent_plain: "\<forall>p \<in> set m. plain_part p \<Longrightarrow> sent m = m"
  by (simp add: sent_def send_plain)

lemma request_frames_plain:
  assumes "\<forall>p \<in> {w, sender, c_str t}. plain_part p \<and> nul_free p"
  shows "request_frames w (wrap sender (Some []) (body_set t []), sid) =
     [w, [], MDPW_WORKER, MDPW_REQUEST, sender, [], c_str t]"
proof -
  have "worker_frames w MDPW_REQUEST [] (Some (wrap sender (Some []) (body_set t []))) =
      [w, [], MDPW_WORKER, MDPW_REQUEST, sender, [], c_str t]"
    using assms by (simp add: worker_frames_def wrap_def push_front_def body_set_def emplace_back_def)
  moreover have "plain_part []" "plain_part MDPW_WORKER" "plain_part MDPW_REQUEST"
    by (simp_all add: plain_part_def printed_uuid_def uuid_binary_len_def mdp_defs)
  ultimately show ?thesis using assms by (simp add: request_frames_def sent_plain)
qed

text \<open>
  What is assumed of the JSON library at the two ends: the printed texts have no NUL and are
  no printed identity, and the worker's parser reads back the value the broker printed.
\<close>

definition json_link :: "broker_env \<Rightarrow> worker_env \<Rightarrow> json \<Rightarrow> bool" where
  "json_link E F v \<longleftrightarrow>
     (\<forall>t. to_text E v = Ok t \<longrightarrow> nul_free t \<and> plain_part t \<and> w_from_string F t = Ok v)
   \<and> (\<forall>u t. w_to_string F u = Ok t \<longrightarrow> nul_free t \<and> plain_part t)"

lemma request_parts_printed:
  assumes "w_from_string F t = Ok (raw_msg_to_json \<lparr>raw_hdr = hdr, raw_msgs = us\<rparr>)"
  shows "request_parts F t = Ok (hdr, map JObj us)"
  using assms by (simp add: request_parts_def raw_msg_to_json_def map_at_def)



end
